(* ===== verification/Prelude.thy ===== *)
theory Prelude
  imports Main "HOL-Library.Word" "HOL-Library.Char_ord" "HOL-Library.List_Lexorder"
begin

text \<open>
  The shared vocabulary of the development: machine words, the bytes of Go strings, Go's
  \<^verbatim>\<open>time.Time\<close> and \<^verbatim>\<open>time.Duration\<close>, and the generic lemmas on lists, options and
  words the components use.

  \<^item> \<open>u8\<close>, \<open>u32\<close>, \<open>u64\<close> are Go's \<^verbatim>\<open>byte\<close>, \<^verbatim>\<open>uint32\<close>, \<^verbatim>\<open>uint64\<close>; arithmetic wraps.
  \<^item> A Go string is a list of bytes, so it is HOL's \<open>string\<close>; \<open>byte c\<close> is the numeric value
    of a byte.
  \<^item> A \<^verbatim>\<open>time.Time\<close> is an integer number of nanoseconds since Go's zero time (1 January
    of year 1, UTC), so \<^verbatim>\<open>IsZero\<close> is \<open>t = 0\<close>; a \<^verbatim>\<open>time.Duration\<close> is an integer number
    of nanoseconds. \<^verbatim>\<open>Time.Sub\<close> saturates at the ends of the 64-bit range, as in Go.
\<close>

section \<open>Words, bytes and Go's int\<close>

type_synonym u8 = "8 word"
type_synonym u32 = "32 word"
type_synonym u64 = "64 word"

named_theorems go_time \<open>unfolding rules for times and durations\<close>
named_theorems go_byte \<open>unfolding rules for the byte classes\<close>

abbreviation byte :: "char \<Rightarrow> nat" where
  "byte c \<equiv> of_char c"

definition u8_of_char :: "char \<Rightarrow> u8" where
  "u8_of_char c = word_of_nat (byte c)"

definition maxInt :: nat where
  "maxInt = 2 ^ 63 - 1"

definition is_digit :: "char \<Rightarrow> bool" where
  "is_digit c \<longleftrightarrow> byte (CHR ''0'') \<le> byte c \<and> byte c \<le> byte (CHR ''9'')"

definition is_lower :: "char \<Rightarrow> bool" where
  "is_lower c \<longleftrightarrow> byte (CHR ''a'') \<le> byte c \<and> byte c \<le> byte (CHR ''z'')"

definition is_upper :: "char \<Rightarrow> bool" where
  "is_upper c \<longleftrightarrow> byte (CHR ''A'') \<le> byte c \<and> byte c \<le> byte (CHR ''Z'')"

definition is_ascii :: "char \<Rightarrow> bool" where
  "is_ascii c \<longleftrightarrow> byte c < 128"

lemmas byte_class_defs [go_byte] = is_digit_def is_lower_def is_upper_def is_ascii_def

lemma byte_inject [simp]: "byte c = byte d \<longleftrightarrow> c = d"
  by simp

lemma byte_bound [simp]: "byte c < 256"
  using nat_of_char_less_256 by auto

lemma char_of_byte_inverse [simp]: "(char_of (byte c) :: char) = c"
  by simp

section \<open>Times and durations\<close>

type_synonym time = int
type_synonym duration = int

definition nanos_per_second :: int where
  "nanos_per_second = 1000000000"

definition nanos_per_milli :: int where
  "nanos_per_milli = 1000000"

definition time_IsZero :: "time \<Rightarrow> bool" where
  "time_IsZero t \<longleftrightarrow> t = 0"

definition time_Add :: "time \<Rightarrow> duration \<Rightarrow> time" where
  "time_Add t d = t + d"

definition time_Sub :: "time \<Rightarrow> time \<Rightarrow> duration" where
  "time_Sub t u = max (- (2 ^ 63)) (min (2 ^ 63 - 1) (t - u))"

definition time_Before :: "time \<Rightarrow> time \<Rightarrow> bool" where
  "time_Before t u \<longleftrightarrow> t < u"

definition time_After :: "time \<Rightarrow> time \<Rightarrow> bool" where
  "time_After t u \<longleftrightarrow> u < t"

definition secs :: "u32 \<Rightarrow> duration" where
  "secs w = uint w * nanos_per_second"

text \<open>
  \<^verbatim>\<open>uint32(d.Seconds())\<close> for a non-negative duration: \<^verbatim>\<open>Seconds\<close> is a \<^verbatim>\<open>float64\<close> and the
  conversion truncates it. Below \<open>2 ^ 23\<close> seconds (97 days, while every lifetime the program
  stores is at most 30 days and 20 seconds) the float is exact enough that truncation gives the
  whole seconds; beyond \<open>2 ^ 32\<close> the conversion keeps the low 32 bits, as on amd64.
\<close>

definition seconds_u32 :: "duration \<Rightarrow> u32" where
  "seconds_u32 d = word_of_int (d div nanos_per_second)"

lemmas time_defs [go_time] = time_IsZero_def time_Add_def time_Sub_def time_Before_def
  time_After_def nanos_per_second_def nanos_per_milli_def

lemma secs_nonneg [simp]: "0 \<le> secs w"
  by (simp add: secs_def nanos_per_second_def)

lemma secs_not_neg [simp]: "\<not> secs w < 0"
  by (simp add: not_less)

lemma uint_u32_less: "uint (w :: u32) < 4294967296"
  using uint_lt2p [of w] by simp

lemma secs_bound: "secs w < 4294967296 * nanos_per_second"
  using uint_u32_less [of w] by (simp add: secs_def nanos_per_second_def)

lemma secs_in_duration_range: "secs w \<le> 2 ^ 63 - 1"
  using secs_bound [of w] by (simp add: nanos_per_second_def)

lemma time_Sub_exact: "- (2 ^ 63) \<le> t - u \<Longrightarrow> t - u \<le> 2 ^ 63 - 1 \<Longrightarrow> time_Sub t u = t - u"
  by (simp add: time_Sub_def)

lemma time_Sub_Add_secs [simp]: "time_Sub (time_Add t (secs w)) t = secs w"
  using secs_in_duration_range [of w] order_trans [OF _ secs_nonneg [of w], of "- (2 ^ 63)"]
  by (simp add: time_Add_def time_Sub_exact)

lemma seconds_u32_secs [simp]: "seconds_u32 (secs w) = w"
  by (simp add: seconds_u32_def secs_def nanos_per_second_def)

lemma seconds_u32_eq_0_iff:
  assumes "0 \<le> d" "d < 4294967296 * nanos_per_second"
  shows "seconds_u32 d = 0 \<longleftrightarrow> d < nanos_per_second"
proof -
  let ?q = "d div nanos_per_second"
  have q: "0 \<le> ?q" "?q < 4294967296"
    using assms by (simp_all add: nanos_per_second_def div_less_iff_less_mult pos_imp_zdiv_nonneg_iff)
  have "seconds_u32 d = 0 \<longleftrightarrow> ?q mod 2 ^ 32 = 0"
    by (simp add: seconds_u32_def word_of_int_eq_0_iff flip: take_bit_eq_mod dvd_eq_mod_eq_0)
  also have "\<dots> \<longleftrightarrow> ?q = 0" using q by simp
  also have "\<dots> \<longleftrightarrow> d < nanos_per_second"
    using assms by (auto simp: nanos_per_second_def zdiv_eq_0_iff)
  finally show ?thesis .
qed

lemma uint_seconds_u32:
  assumes "0 \<le> d" "d < 4294967296 * nanos_per_second"
  shows "uint (seconds_u32 d) = d div nanos_per_second"
proof -
  have "0 \<le> d div nanos_per_second" "d div nanos_per_second < 4294967296"
    using assms by (simp_all add: nanos_per_second_def div_less_iff_less_mult pos_imp_zdiv_nonneg_iff)
  then show ?thesis
    by (simp add: seconds_u32_def uint_word_of_int)
qed

text \<open>The length of the prefetch window in seconds, used by the scheduler and by the lookups.\<close>

definition PREFETCH_INTERVAL :: u32 where "PREFETCH_INTERVAL = 30"

section \<open>Lists\<close>

lemma takeWhile_eq_self: "(\<forall>x \<in> set xs. P x) \<Longrightarrow> takeWhile P xs = xs"
  by simp

lemma list_all_append_iff: "list_all P (xs @ ys) \<longleftrightarrow> list_all P xs \<and> list_all P ys"
  by simp

end
