(* ===== verification/Go_Strings.thy ===== *)
theory Go_Strings
  imports Prelude
begin

text \<open>
  The parts of Go's \<^verbatim>\<open>strings\<close>, \<^verbatim>\<open>unicode\<close> and \<^verbatim>\<open>unicode/utf8\<close> packages the program calls.
  UTF-8 decoding and encoding, the white-space and control classes and every \<^verbatim>\<open>strings\<close>
  function are written out. The case and category tables of package \<^verbatim>\<open>unicode\<close> beyond ASCII
  are generated data of the Go distribution: they are the record \<open>unicode_tables\<close>, an argument
  of the functions that consult them, and the theorems hold for every such record.
\<close>

section \<open>UTF-8\<close>

definition RuneError :: nat where
  "RuneError = 65533"

definition cont_byte :: "char \<Rightarrow> bool" where
  "cont_byte c \<longleftrightarrow> 128 \<le> byte c \<and> byte c \<le> 191"

definition second_byte_ok :: "nat \<Rightarrow> char \<Rightarrow> bool" where
  "second_byte_ok b0 c =
     (if b0 = 224 then 160 \<le> byte c \<and> byte c \<le> 191
      else if b0 = 237 then 128 \<le> byte c \<and> byte c \<le> 159
      else if b0 = 240 then 144 \<le> byte c \<and> byte c \<le> 191
      else if b0 = 244 then 128 \<le> byte c \<and> byte c \<le> 143
      else cont_byte c)"

text \<open>\<^verbatim>\<open>utf8.DecodeRuneInString\<close>: the first code point and its width.\<close>

definition DecodeRune :: "string \<Rightarrow> nat \<times> nat" where
  "DecodeRune s = (case s of
     [] \<Rightarrow> (RuneError, 0)
   | c0 # s1 \<Rightarrow>
       (let b0 = byte c0 in
        if b0 < 128 then (b0, 1)
        else if b0 < 194 \<or> 244 < b0 then (RuneError, 1)
        else if b0 < 224 then
          (case s1 of
             c1 # _ \<Rightarrow> if second_byte_ok b0 c1 then ((b0 mod 32) * 64 + byte c1 mod 64, 2)
                       else (RuneError, 1)
           | _ \<Rightarrow> (RuneError, 1))
        else if b0 < 240 then
          (case s1 of
             c1 # c2 # _ \<Rightarrow> if second_byte_ok b0 c1 \<and> cont_byte c2
               then ((b0 mod 16) * 4096 + (byte c1 mod 64) * 64 + byte c2 mod 64, 3)
               else (RuneError, 1)
           | _ \<Rightarrow> (RuneError, 1))
        else
          (case s1 of
             c1 # c2 # c3 # _ \<Rightarrow> if second_byte_ok b0 c1 \<and> cont_byte c2 \<and> cont_byte c3
               then ((b0 mod 8) * 262144 + (byte c1 mod 64) * 4096 + (byte c2 mod 64) * 64
                       + byte c3 mod 64, 4)
               else (RuneError, 1)
           | _ \<Rightarrow> (RuneError, 1))))"

lemma DecodeRune_width_pos: "0 < snd (DecodeRune (c # s))"
  by (auto simp: DecodeRune_def Let_def split: list.splits)

text \<open>The code points a \<^verbatim>\<open>for range\<close> loop over a string visits; an invalid byte is one
  \<open>RuneError\<close> of width 1.\<close>

function runes :: "string \<Rightarrow> nat list" where
  "runes [] = []"
| "runes (c # s) = fst (DecodeRune (c # s)) # runes (drop (snd (DecodeRune (c # s))) (c # s))"
  by pat_completeness auto
termination
proof (relation "measure length")
  fix c :: char and s :: string
  show "(drop (snd (DecodeRune (c # s))) (c # s), c # s) \<in> measure length"
    using DecodeRune_width_pos [of c s] by simp
qed simp

text \<open>\<^verbatim>\<open>utf8.ValidString\<close>: no byte decodes to the error rune of width 1.\<close>

function ValidString :: "string \<Rightarrow> bool" where
  "ValidString [] = True"
| "ValidString (c # s) =
     (DecodeRune (c # s) \<noteq> (RuneError, 1)
      \<and> ValidString (drop (snd (DecodeRune (c # s))) (c # s)))"
  by pat_completeness auto
termination
proof (relation "measure length")
  fix c :: char and s :: string
  show "(drop (snd (DecodeRune (c # s))) (c # s), c # s) \<in> measure length"
    using DecodeRune_width_pos [of c s] by simp
qed simp

text \<open>\<^verbatim>\<open>utf8.AppendRune\<close>: surrogates and values beyond U+10FFFF become the error rune.\<close>

definition EncodeRune :: "nat \<Rightarrow> string" where
  "EncodeRune r =
     (if r < 128 then [char_of r]
      else if r < 2048 then [char_of (192 + r div 64), char_of (128 + r mod 64)]
      else if (55296 \<le> r \<and> r \<le> 57343) \<or> 1114111 < r then map char_of [239, 191, 189 :: nat]
      else if r < 65536 then
        [char_of (224 + r div 4096), char_of (128 + (r div 64) mod 64), char_of (128 + r mod 64)]
      else
        [char_of (240 + r div 262144), char_of (128 + (r div 4096) mod 64),
         char_of (128 + (r div 64) mod 64), char_of (128 + r mod 64)])"

text \<open>\<^verbatim>\<open>utf8.DecodeLastRuneInString\<close>: the last code point and its width.\<close>

definition RuneStart :: "char \<Rightarrow> bool" where
  "RuneStart c \<longleftrightarrow> \<not> cont_byte c"

definition DecodeLastRune :: "string \<Rightarrow> nat \<times> nat" where
  "DecodeLastRune s =
     (if s = [] then (RuneError, 0)
      else if byte (last s) < 128 then (byte (last s), 1)
      else (case filter (\<lambda>k. k \<le> length s \<and> RuneStart (s ! (length s - k))) [2, 3, 4] of
              [] \<Rightarrow> if length s = 1 then DecodeRune s else (RuneError, 1)
            | k # _ \<Rightarrow> (let (r, size) = DecodeRune (drop (length s - k) s)
                        in if size = k then (r, size) else (RuneError, 1))))"

section \<open>Package unicode\<close>

record unicode_tables =
  u_lower :: "nat \<Rightarrow> nat"
  u_upper :: "nat \<Rightarrow> nat"
  u_letter :: "nat \<Rightarrow> bool"
  u_number :: "nat \<Rightarrow> bool"
  u_fold :: "nat \<Rightarrow> nat \<Rightarrow> bool"

definition unicode_IsSpace :: "nat \<Rightarrow> bool" where
  "unicode_IsSpace r \<longleftrightarrow> r \<in> {9, 10, 11, 12, 13, 32, 133, 160, 5760, 8232, 8233, 8239, 8287, 12288}
     \<or> (8192 \<le> r \<and> r \<le> 8202)"

definition unicode_IsControl :: "nat \<Rightarrow> bool" where
  "unicode_IsControl r \<longleftrightarrow> r < 32 \<or> (127 \<le> r \<and> r < 160)"

definition ascii_lower :: "char \<Rightarrow> char" where
  "ascii_lower c = (if is_upper c then char_of (byte c + 32) else c)"

definition ascii_upper :: "char \<Rightarrow> char" where
  "ascii_upper c = (if is_lower c then char_of (byte c - 32) else c)"

definition unicode_ToLower :: "unicode_tables \<Rightarrow> nat \<Rightarrow> nat" where
  "unicode_ToLower u r = (if r < 128 then byte (ascii_lower (char_of r)) else u_lower u r)"

definition unicode_ToUpper :: "unicode_tables \<Rightarrow> nat \<Rightarrow> nat" where
  "unicode_ToUpper u r = (if r < 128 then byte (ascii_upper (char_of r)) else u_upper u r)"

section \<open>Package strings\<close>

definition strings_Map :: "(nat \<Rightarrow> nat) \<Rightarrow> string \<Rightarrow> string" where
  "strings_Map f s = concat (map (EncodeRune \<circ> f) (runes s))"

definition ToLower :: "unicode_tables \<Rightarrow> string \<Rightarrow> string" where
  "ToLower u s = (if list_all is_ascii s then map ascii_lower s
                  else strings_Map (unicode_ToLower u) s)"

definition ToUpper :: "unicode_tables \<Rightarrow> string \<Rightarrow> string" where
  "ToUpper u s = (if list_all is_ascii s then map ascii_upper s
                  else strings_Map (unicode_ToUpper u) s)"

definition rune_fold_eq :: "unicode_tables \<Rightarrow> nat \<Rightarrow> nat \<Rightarrow> bool" where
  "rune_fold_eq u a b \<longleftrightarrow> a = b \<or>
     (if a < 128 \<and> b < 128
      then byte (ascii_lower (char_of a)) = byte (ascii_lower (char_of b))
      else u_fold u (min a b) (max a b))"

definition EqualFold :: "unicode_tables \<Rightarrow> string \<Rightarrow> string \<Rightarrow> bool" where
  "EqualFold u s t = list_all2 (rune_fold_eq u) (runes s) (runes t)"

definition ascii_space :: "char \<Rightarrow> bool" where
  "ascii_space c \<longleftrightarrow> byte c \<in> {9, 10, 11, 12, 13, 32}"

function TrimLeftSpace :: "string \<Rightarrow> string" where
  "TrimLeftSpace [] = []"
| "TrimLeftSpace (c # s) =
     (let (r, n) = DecodeRune (c # s)
      in if unicode_IsSpace r then TrimLeftSpace (drop n (c # s)) else c # s)"
  by pat_completeness auto
termination
proof (relation "measure length")
  fix c :: char and s :: string and x r n
  assume "x = DecodeRune (c # s)" "(r, n) = x"
  then show "(drop n (c # s), c # s) \<in> measure length"
    using DecodeRune_width_pos [of c s] by (cases "DecodeRune (c # s)") simp
qed simp

function TrimRightSpace :: "string \<Rightarrow> string" where
  "TrimRightSpace s =
     (if s = [] then []
      else let (r, n) = DecodeLastRune s
           in if unicode_IsSpace r then TrimRightSpace (take (length s - max 1 n) s) else s)"
  by pat_completeness auto
termination
  by (relation "measure length") auto

declare TrimRightSpace.simps [simp del]

text \<open>\<^verbatim>\<open>strings.TrimSpace\<close>. The source's fast path over ASCII bytes and its fall-back to the
  rune-wise trim give the same result as trimming rune-wise on both sides.\<close>

definition TrimSpace :: "string \<Rightarrow> string" where
  "TrimSpace s = TrimRightSpace (TrimLeftSpace s)"

definition HasPrefix :: "string \<Rightarrow> string \<Rightarrow> bool" where
  "HasPrefix s p \<longleftrightarrow> take (length p) s = p"

definition HasSuffix :: "string \<Rightarrow> string \<Rightarrow> bool" where
  "HasSuffix s p \<longleftrightarrow> length p \<le> length s \<and> drop (length s - length p) s = p"

definition TrimSuffix :: "string \<Rightarrow> string \<Rightarrow> string" where
  "TrimSuffix s p = (if HasSuffix s p then take (length s - length p) s else s)"

definition TrimPrefix :: "string \<Rightarrow> string \<Rightarrow> string" where
  "TrimPrefix s p = (if HasPrefix s p then drop (length p) s else s)"

text \<open>\<^verbatim>\<open>TrimLeft\<close> and \<^verbatim>\<open>TrimRight\<close> with the ASCII cutset of a blank and a tab, the only one the
  program uses.\<close>

definition blank_tab :: "char \<Rightarrow> bool" where
  "blank_tab c \<longleftrightarrow> c = CHR '' '' \<or> c = CHR 0x09"

definition TrimLeftBlank :: "string \<Rightarrow> string" where
  "TrimLeftBlank s = dropWhile blank_tab s"

definition TrimRightBlank :: "string \<Rightarrow> string" where
  "TrimRightBlank s = rev (dropWhile blank_tab (rev s))"

text \<open>\<^verbatim>\<open>strings.Cut\<close> at a one-byte separator: before, after, found.\<close>

definition Cut :: "string \<Rightarrow> char \<Rightarrow> string \<times> string \<times> bool" where
  "Cut s sep =
     (if sep \<in> set s
      then (takeWhile (\<lambda>c. c \<noteq> sep) s, tl (dropWhile (\<lambda>c. c \<noteq> sep) s), True)
      else (s, [], False))"

text \<open>\<^verbatim>\<open>strings.SplitN(s, sep, 2)\<close> and \<^verbatim>\<open>strings.Split\<close> at a one-byte separator.\<close>

definition SplitN2 :: "string \<Rightarrow> char \<Rightarrow> string list" where
  "SplitN2 s sep = (case Cut s sep of (a, b, found) \<Rightarrow> if found then [a, b] else [s])"

fun Split :: "string \<Rightarrow> char \<Rightarrow> string list" where
  "Split [] sep = [[]]"
| "Split (c # s) sep =
     (if c = sep then [] # Split s sep
      else (case Split s sep of [] \<Rightarrow> [[c]] | w # ws \<Rightarrow> (c # w) # ws))"

fun Join :: "string list \<Rightarrow> string \<Rightarrow> string" where
  "Join [] sep = []"
| "Join [w] sep = w"
| "Join (w # v # ws) sep = w @ sep @ Join (v # ws) sep"

fun Contains :: "string \<Rightarrow> string \<Rightarrow> bool" where
  "Contains [] sub = (sub = [])"
| "Contains (c # s) sub = (HasPrefix (c # s) sub \<or> Contains s sub)"

definition ContainsAny :: "string \<Rightarrow> string \<Rightarrow> bool" where
  "ContainsAny s chars \<longleftrightarrow> list_ex (\<lambda>c. c \<in> set chars) s"

text \<open>\<^verbatim>\<open>strconv.Itoa\<close> of a length: decimal digits without leading zeros.\<close>

definition digit_char :: "nat \<Rightarrow> char" where
  "digit_char d = char_of (48 + d)"

fun Itoa :: "nat \<Rightarrow> string" where
  "Itoa n = (if n < 10 then [digit_char n] else Itoa (n div 10) @ [digit_char (n mod 10)])"

declare Itoa.simps [simp del]

definition digit_val :: "char \<Rightarrow> nat" where
  "digit_val c = byte c - byte (CHR ''0'')"

definition dec_val :: "string \<Rightarrow> nat" where
  "dec_val s = foldl (\<lambda>n c. 10 * n + digit_val c) 0 s"


section \<open>Lemmas on ASCII strings\<close>

lemma ascii_lower_not_upper: "\<not> is_upper (ascii_lower c)"
  by (auto simp: ascii_lower_def is_upper_def)

lemma ascii_lower_id: "\<not> is_upper c \<Longrightarrow> ascii_lower c = c"
  by (simp add: ascii_lower_def)

lemma ascii_lower_idem [simp]: "ascii_lower (ascii_lower c) = ascii_lower c"
  by (rule ascii_lower_id) (rule ascii_lower_not_upper)

lemma is_ascii_ascii_lower [simp]: "is_ascii (ascii_lower c) \<longleftrightarrow> is_ascii c"
  by (auto simp: ascii_lower_def is_upper_def is_ascii_def)

lemma list_all_ascii_lower [simp]: "list_all is_ascii (map ascii_lower s) \<longleftrightarrow> list_all is_ascii s"
  by (induction s) simp_all

lemma ToLower_ascii: "list_all is_ascii s \<Longrightarrow> ToLower u s = map ascii_lower s"
  by (simp add: ToLower_def)

lemma ToUpper_ascii: "list_all is_ascii s \<Longrightarrow> ToUpper u s = map ascii_upper s"
  by (simp add: ToUpper_def)

lemma ToLower_idem_ascii: "list_all is_ascii s \<Longrightarrow> ToLower u (ToLower u s) = ToLower u s"
  by (simp add: ToLower_ascii)

lemma DecodeRune_ascii: "is_ascii c \<Longrightarrow> DecodeRune (c # s) = (byte c, 1)"
  by (simp add: DecodeRune_def is_ascii_def)

lemma runes_ascii: "list_all is_ascii s \<Longrightarrow> runes s = map byte s"
  by (induction s) (simp_all add: DecodeRune_ascii)

lemma rune_fold_eq_ascii:
  "is_ascii c \<Longrightarrow> is_ascii d \<Longrightarrow> rune_fold_eq u (byte c) (byte d) \<longleftrightarrow> ascii_lower c = ascii_lower d"
  by (auto simp: rune_fold_eq_def is_ascii_def)

lemma EqualFold_ascii:
  assumes "list_all is_ascii s" "list_all is_ascii t"
  shows "EqualFold u s t \<longleftrightarrow> map ascii_lower s = map ascii_lower t"
proof -
  have "list_all2 (rune_fold_eq u) (map byte s) (map byte t) \<longleftrightarrow> map ascii_lower s = map ascii_lower t"
    using assms
  proof (induction s arbitrary: t)
    case Nil
    then show ?case by simp
  next
    case (Cons c s)
    then show ?case by (cases t) (simp_all add: rune_fold_eq_ascii)
  qed
  with assms show ?thesis by (simp add: EqualFold_def runes_ascii)
qed

lemma unicode_IsSpace_ascii: "is_ascii c \<Longrightarrow> unicode_IsSpace (byte c) \<longleftrightarrow> ascii_space c"
  by (auto simp: unicode_IsSpace_def ascii_space_def is_ascii_def)

lemma TrimLeftSpace_ascii: "list_all is_ascii s \<Longrightarrow> TrimLeftSpace s = dropWhile ascii_space s"
  by (induction s) (simp_all add: DecodeRune_ascii unicode_IsSpace_ascii)

lemma TrimRightSpace_ascii: "list_all is_ascii s \<Longrightarrow> TrimRightSpace s = rev (dropWhile ascii_space (rev s))"
proof (induction s rule: rev_induct)
  case Nil
  then show ?case by (simp add: TrimRightSpace.simps)
next
  case (snoc c s)
  then have c: "is_ascii c" and s: "list_all is_ascii s" by simp_all
  have "DecodeLastRune (s @ [c]) = (byte c, 1)"
    using c by (simp add: DecodeLastRune_def is_ascii_def)
  then show ?case
    using snoc.IH [OF s] unicode_IsSpace_ascii [OF c]
    by (subst TrimRightSpace.simps) simp
qed

lemma list_all_dropWhile: "list_all P s \<Longrightarrow> list_all P (dropWhile Q s)"
  by (induction s) simp_all

lemma TrimSpace_ascii:
  "list_all is_ascii s \<Longrightarrow> TrimSpace s = rev (dropWhile ascii_space (rev (dropWhile ascii_space s)))"
  by (simp add: TrimSpace_def TrimLeftSpace_ascii TrimRightSpace_ascii list_all_dropWhile)

section \<open>Prefixes, suffixes, cutting and joining\<close>

lemma HasPrefix_append [simp]: "HasPrefix (p @ s) p"
  by (simp add: HasPrefix_def)

lemma HasPrefix_Nil [simp]: "HasPrefix s []"
  by (simp add: HasPrefix_def)

lemma HasPrefixE: "HasPrefix s p \<Longrightarrow> (\<And>t. s = p @ t \<Longrightarrow> P) \<Longrightarrow> P"
  by (metis HasPrefix_def append_take_drop_id)

lemma HasSuffix_snoc [simp]: "HasSuffix (s @ [c]) [d] \<longleftrightarrow> c = d"
  by (auto simp: HasSuffix_def)

lemma TrimSuffix_snoc: "TrimSuffix (s @ [c]) [d] = (if c = d then s else s @ [c])"
  by (simp add: TrimSuffix_def)

lemma Cut_append: "sep \<notin> set a \<Longrightarrow> Cut (a @ sep # b) sep = (a, b, True)"
  by (simp add: Cut_def takeWhile_tail dropWhile_append)

lemma Cut_found: "Cut s sep = (a, b, True) \<Longrightarrow> s = a @ sep # b \<and> sep \<notin> set a"
proof -
  assume *: "Cut s sep = (a, b, True)"
  then have in_s: "sep \<in> set s" by (auto simp: Cut_def split: if_splits)
  then have "dropWhile (\<lambda>c. c \<noteq> sep) s \<noteq> []" by (simp add: dropWhile_eq_Nil_conv)
  then have "dropWhile (\<lambda>c. c \<noteq> sep) s = sep # tl (dropWhile (\<lambda>c. c \<noteq> sep) s)"
    using hd_dropWhile [of "\<lambda>c. c \<noteq> sep" s] by (cases "dropWhile (\<lambda>c. c \<noteq> sep) s") auto
  then have "s = takeWhile (\<lambda>c. c \<noteq> sep) s @ sep # tl (dropWhile (\<lambda>c. c \<noteq> sep) s)"
    by (metis takeWhile_dropWhile_id)
  with * in_s show ?thesis
    by (auto simp: Cut_def dest: set_takeWhileD)
qed

lemma Split_not_Nil [simp]: "Split s sep \<noteq> []"
  by (cases s) (auto split: list.splits)

lemma Split_no_sep: "w \<in> set (Split s sep) \<Longrightarrow> sep \<notin> set w"
proof (induction s arbitrary: w)
  case Nil
  then show ?case by simp
next
  case (Cons c s)
  then show ?case
    by (cases "Split s sep") (auto split: if_splits)
qed

lemma Join_Cons: "ws \<noteq> [] \<Longrightarrow> Join (w # ws) sep = w @ sep @ Join ws sep"
  by (cases ws) simp_all

lemma Join_Split: "Join (Split s sep) [sep] = s"
proof (induction s)
  case Nil
  then show ?case by simp
next
  case (Cons c s)
  obtain w ws where ws: "Split s sep = w # ws" by (cases "Split s sep") auto
  show ?case
  proof (cases "c = sep")
    case True
    with Cons.IH show ?thesis by (simp add: Join_Cons)
  next
    case False
    with Cons.IH ws show ?thesis by (cases ws) simp_all
  qed
qed

lemma Split_snoc_sep: "sep \<notin> set w \<Longrightarrow> Split (w @ sep # s) sep = w # Split s sep"
  by (induction w) auto

lemma Split_single: "sep \<notin> set w \<Longrightarrow> Split w sep = [w]"
  by (induction w) auto

lemma Split_Join:
  "ws \<noteq> [] \<Longrightarrow> (\<forall>w \<in> set ws. sep \<notin> set w) \<Longrightarrow> Split (Join ws [sep]) sep = ws"
proof (induction ws rule: list_nonempty_induct)
  case (single w)
  then show ?case by (simp add: Split_single)
next
  case (cons w ws)
  then show ?case by (simp add: Join_Cons Split_snoc_sep)
qed

section \<open>Decimal numerals\<close>

lemma digit_char_0 [simp]: "digit_char 0 = CHR ''0''"
  by (simp add: digit_char_def char_of_eq_iff take_bit_eq_mod)

lemma digit_val_digit_char [simp]: "d < 10 \<Longrightarrow> digit_val (digit_char d) = d"
  by (simp add: digit_val_def digit_char_def)

lemma is_digit_digit_char [simp]: "d < 10 \<Longrightarrow> is_digit (digit_char d)"
  by (simp add: is_digit_def digit_char_def)

lemma digit_char_digit_val [simp]: "is_digit c \<Longrightarrow> digit_char (digit_val c) = c"
  by (simp add: is_digit_def digit_char_def digit_val_def)

lemma digit_val_bound [simp]: "is_digit c \<Longrightarrow> digit_val c < 10"
  by (auto simp: is_digit_def digit_val_def)

lemma digit_val_eq_0_iff: "is_digit c \<Longrightarrow> digit_val c = 0 \<longleftrightarrow> c = CHR ''0''"
proof
  assume *: "is_digit c" and "digit_val c = 0"
  then have "c = digit_char 0" using digit_char_digit_val [OF *] by simp
  then show "c = CHR ''0''" by simp
qed (simp add: digit_val_def)

lemma dec_val_snoc [simp]: "dec_val (s @ [c]) = 10 * dec_val s + digit_val c"
  by (simp add: dec_val_def)

lemma dec_val_Nil [simp]: "dec_val [] = 0"
  by (simp add: dec_val_def)

lemma Itoa_not_Nil [simp]: "Itoa n \<noteq> []"
  by (subst Itoa.simps) simp

lemma Itoa_digits: "c \<in> set (Itoa n) \<Longrightarrow> is_digit c"
proof (induction n rule: Itoa.induct)
  case (1 n)
  then show ?case
    by (subst (asm) Itoa.simps) (auto split: if_splits)
qed

lemma dec_val_Itoa [simp]: "dec_val (Itoa n) = n"
proof (induction n rule: Itoa.induct)
  case (1 n)
  show ?case
  proof (cases "n < 10")
    case True
    then show ?thesis by (subst Itoa.simps) (simp add: dec_val_def)
  next
    case False
    with 1 show ?thesis by (subst Itoa.simps) simp
  qed
qed

lemma hd_Itoa: "0 < n \<Longrightarrow> hd (Itoa n) \<noteq> CHR ''0''"
proof (induction n rule: Itoa.induct)
  case (1 n)
  show ?case
  proof (cases "n < 10")
    case True
    with 1 digit_val_eq_0_iff [of "digit_char n"] show ?thesis
      by (subst Itoa.simps) simp
  next
    case False
    with 1 show ?thesis by (subst Itoa.simps) simp
  qed
qed

lemma Itoa_0 [simp]: "Itoa 0 = ''0''"
  by (simp add: Itoa.simps)

text \<open>A digit string without a leading zero is the numeral of its value.\<close>

lemma dec_val_pos: "ds \<noteq> [] \<Longrightarrow> list_all is_digit ds \<Longrightarrow> hd ds \<noteq> CHR ''0'' \<Longrightarrow> 0 < dec_val ds"
proof (induction ds rule: rev_induct)
  case Nil
  then show ?case by simp
next
  case (snoc c ds)
  show ?case
  proof (cases "ds = []")
    case True
    with snoc.prems digit_val_eq_0_iff [of c] show ?thesis by (simp add: dec_val_def)
  next
    case False
    with snoc show ?thesis by simp
  qed
qed

lemma Itoa_dec_val:
  "ds \<noteq> [] \<Longrightarrow> list_all is_digit ds \<Longrightarrow> length ds = 1 \<or> hd ds \<noteq> CHR ''0'' \<Longrightarrow> Itoa (dec_val ds) = ds"
proof (induction ds rule: rev_induct)
  case Nil
  then show ?case by simp
next
  case (snoc c ds)
  then have c: "is_digit c" by simp
  show ?case
  proof (cases "ds = []")
    case True
    with c show ?thesis by (subst Itoa.simps) (simp add: dec_val_def)
  next
    case False
    then have hd: "hd ds \<noteq> CHR ''0''" using snoc.prems by simp
    have "0 < dec_val ds" using dec_val_pos [OF False _ hd] snoc.prems by simp
    moreover have "Itoa (dec_val ds) = ds" using snoc False hd by simp
    ultimately show ?thesis using c by (subst Itoa.simps) simp
  qed
qed

end
