(* ===== verification/Netstring.thy ===== *)
theory Netstring
  imports Go_Strings
begin

text \<open>
  \<^verbatim>\<open>internal/utils/netstring/netstring.go\<close>: the framing of the socketmap protocol.
  A \<^verbatim>\<open>bufio.Reader\<close> is the bytes it still has to deliver and the error that follows them
  (\<open>EOF\<close> when the peer closed, any other error such as an expired deadline otherwise).
  \<open>Read\<close> is characterised exactly: it returns a payload if and only if the stream starts with
  the canonical encoding of that payload, and it leaves the stream right behind that encoding.
  The split function of the scanner is characterised in the same way, and it never reports an
  error on an incomplete encoding.
\<close>

section \<open>Readers\<close>

datatype ioerr = EOF | ErrUnexpectedEOF | OtherErr string

record Reader =
  rbuf :: string
  rerr :: ioerr

definition ReadByte :: "Reader \<Rightarrow> (ioerr + char) \<times> Reader" where
  "ReadByte r = (case rbuf r of
     [] \<Rightarrow> (Inl (rerr r), r)
   | c # cs \<Rightarrow> (Inr c, r\<lparr>rbuf := cs\<rparr>))"

definition ReadFull :: "Reader \<Rightarrow> nat \<Rightarrow> (ioerr + string) \<times> Reader" where
  "ReadFull r n =
     (if n \<le> length (rbuf r) then (Inr (take n (rbuf r)), r\<lparr>rbuf := drop n (rbuf r)\<rparr>)
      else (Inl (if rerr r = EOF \<and> rbuf r \<noteq> [] then ErrUnexpectedEOF else rerr r),
            r\<lparr>rbuf := []\<rparr>))"

section \<open>Decoding and encoding\<close>

datatype ns_error =
    UnexpectedEOF | EmptyLength | LeadingZero | InvalidLengthChar | InvalidLength
  | PayloadTooLarge | MissingComma | MissingColon

datatype read_error = NsErr ns_error | IOErr ioerr

text \<open>The loop of \<^verbatim>\<open>Read\<close> over the bytes of the length prefix.\<close>

fun Read_length :: "int \<Rightarrow> string \<Rightarrow> ioerr \<Rightarrow> nat \<Rightarrow> nat \<Rightarrow> (read_error + nat) \<times> string" where
  "Read_length maxPayload [] err len digits =
     (if err = EOF \<and> digits \<noteq> 0 then (Inl (NsErr UnexpectedEOF), []) else (Inl (IOErr err), []))"
| "Read_length maxPayload (b # bs) err len digits =
     (if b = CHR '':'' then
        (if digits = 0 then (Inl (NsErr EmptyLength), bs) else (Inr len, bs))
      else if digits = 1 \<and> len = 0 then (Inl (NsErr LeadingZero), bs)
      else if \<not> is_digit b then (Inl (NsErr InvalidLengthChar), bs)
      else if len > (maxInt - digit_val b) div 10 then (Inl (NsErr InvalidLength), bs)
      else let len' = len * 10 + digit_val b in
        if int len' > maxPayload then (Inl (NsErr PayloadTooLarge), bs)
        else Read_length maxPayload bs err len' (digits + 1))"

definition Read :: "Reader \<Rightarrow> int \<Rightarrow> (read_error + string) \<times> Reader" where
  "Read r maxPayload =
     (case Read_length maxPayload (rbuf r) (rerr r) 0 0 of
        (Inl e, bs) \<Rightarrow> (Inl e, r\<lparr>rbuf := bs\<rparr>)
      | (Inr len, bs) \<Rightarrow>
          (case ReadFull (r\<lparr>rbuf := bs\<rparr>) len of
             (Inl e, r') \<Rightarrow> (Inl (if e = EOF \<or> e = ErrUnexpectedEOF then NsErr UnexpectedEOF
                                  else IOErr e), r')
           | (Inr payload, r') \<Rightarrow>
               (case ReadByte r' of
                  (Inl e, r'') \<Rightarrow> (Inl (if e = EOF then NsErr UnexpectedEOF else IOErr e), r'')
                | (Inr terminator, r'') \<Rightarrow>
                    (if terminator \<noteq> CHR '','' then (Inl (NsErr MissingComma), r'')
                     else (Inr payload, r'')))))"

text \<open>The length loop of \<^verbatim>\<open>splitNetstring\<close>.\<close>

fun split_length :: "string \<Rightarrow> nat \<Rightarrow> ns_error + nat" where
  "split_length [] len = Inr len"
| "split_length (c # cs) len =
     (if \<not> is_digit c then Inl InvalidLengthChar
      else if len > (maxInt - digit_val c) div 10 then Inl InvalidLength
      else split_length cs (len * 10 + digit_val c))"

datatype split_result = SplitMore | SplitErr ns_error | SplitToken nat string

definition splitNetstring :: "string \<Rightarrow> bool \<Rightarrow> split_result" where
  "splitNetstring data atEOF =
     (if data = [] then SplitMore
      else if CHR '':'' \<notin> set data then (if atEOF then SplitErr MissingColon else SplitMore)
      else let lengthBytes = takeWhile (\<lambda>c. c \<noteq> CHR '':'') data;
               colonPos = length lengthBytes in
        if lengthBytes = [] then SplitErr EmptyLength
        else if length lengthBytes > 1 \<and> hd lengthBytes = CHR ''0'' then SplitErr LeadingZero
        else (case split_length lengthBytes 0 of
                Inl e \<Rightarrow> SplitErr e
              | Inr len \<Rightarrow>
                  let payloadStart = colonPos + 1 in
                  if len \<ge> length data - payloadStart
                  then (if atEOF then SplitErr UnexpectedEOF else SplitMore)
                  else let commaPos = payloadStart + len in
                    if data ! commaPos \<noteq> CHR '','' then SplitErr MissingComma
                    else SplitToken (commaPos + 1)
                           (take (commaPos - (colonPos + 1)) (drop (colonPos + 1) data))))"

definition Marshal :: "string \<Rightarrow> string" where
  "Marshal s = Itoa (length s) @ '':'' @ s @ '',''"

section \<open>The length prefix\<close>

definition dec_acc :: "nat \<Rightarrow> string \<Rightarrow> nat" where
  "dec_acc n ds = foldl (\<lambda>n c. n * 10 + digit_val c) n ds"

lemma dec_acc_simps [simp]:
  "dec_acc n [] = n" "dec_acc n (d # ds) = dec_acc (n * 10 + digit_val d) ds"
  by (simp_all add: dec_acc_def)

lemma dec_acc_0: "dec_acc 0 ds = dec_val ds"
  by (simp add: dec_acc_def dec_val_def mult.commute)

lemma dec_acc_ge: "n \<le> dec_acc n ds"
proof (induction ds arbitrary: n)
  case (Cons d ds)
  have "n \<le> n * 10 + digit_val d" by simp
  also have "\<dots> \<le> dec_acc (n * 10 + digit_val d) ds" by (rule Cons.IH)
  finally show ?case by simp
qed simp

lemma overflow_guard: "is_digit c \<Longrightarrow> len \<le> (maxInt - digit_val c) div 10 \<longleftrightarrow> len * 10 + digit_val c \<le> maxInt"
proof -
  assume "is_digit c"
  then have "digit_val c < 10" by simp
  then have "digit_val c \<le> maxInt" by (simp add: maxInt_def)
  then show ?thesis by (auto simp: less_eq_div_iff_mult_less_eq)
qed

definition length_prefix :: "nat \<Rightarrow> nat \<Rightarrow> string \<Rightarrow> bool" where
  "length_prefix len digits ds \<longleftrightarrow>
     list_all is_digit ds \<and> (digits = 0 \<longrightarrow> ds \<noteq> []) \<and> (digits = 1 \<and> len = 0 \<longrightarrow> ds = [])
     \<and> (digits = 0 \<longrightarrow> length ds = 1 \<or> hd ds \<noteq> CHR ''0'')"

lemma length_prefix_Cons:
  assumes "digits = 0 \<longrightarrow> len = 0" "is_digit d" "\<not> (digits = 1 \<and> len = 0)"
  shows "length_prefix len digits (d # ds) \<longleftrightarrow> length_prefix (len * 10 + digit_val d) (digits + 1) ds"
  using assms digit_val_eq_0_iff [of d] by (auto simp: length_prefix_def)

lemma colon_not_digit [simp]: "\<not> is_digit (CHR '':'')"
  by (simp add: is_digit_def)

lemma Read_length_Inr_iff:
  "digits = 0 \<longrightarrow> len = 0 \<Longrightarrow>
   Read_length m bs e len digits = (Inr n, rest) \<longleftrightarrow>
     (\<exists>ds. bs = ds @ CHR '':'' # rest \<and> length_prefix len digits ds \<and> n = dec_acc len ds
           \<and> (ds \<noteq> [] \<longrightarrow> int n \<le> m \<and> n \<le> maxInt))"
proof (induction m bs e len digits rule: Read_length.induct)
  case (1 m e len digits)
  then show ?case by auto
next
  case (2 m b bs e len digits)
  let ?l = "len * 10 + digit_val b"
  show ?case
  proof (cases "b = CHR '':'' \<or> (digits = 1 \<and> len = 0) \<or> \<not> is_digit b")
    case True
    then show ?thesis
      by (auto simp: length_prefix_def Cons_eq_append_conv split: if_splits)
  next
    case False
    then have b: "b \<noteq> CHR '':''" "is_digit b" "\<not> (digits = 1 \<and> len = 0)" by auto
    show ?thesis
    proof (cases "?l \<le> maxInt \<and> int ?l \<le> m")
      case True
      then have guard: "\<not> len > (maxInt - digit_val b) div 10"
        using overflow_guard [OF b(2), of len] by simp
      have step: "Read_length m (b # bs) e len digits = Read_length m bs e ?l (digits + 1)"
        using b True guard by (auto simp: Let_def)
      have "Read_length m bs e ?l (digits + 1) = (Inr n, rest) \<longleftrightarrow>
        (\<exists>ds. bs = ds @ CHR '':'' # rest \<and> length_prefix ?l (digits + 1) ds \<and> n = dec_acc ?l ds
           \<and> (ds \<noteq> [] \<longrightarrow> int n \<le> m \<and> n \<le> maxInt))"
        using 2 b True guard by auto
      also have "\<dots> \<longleftrightarrow> (\<exists>ds. b # bs = (b # ds) @ CHR '':'' # rest \<and> length_prefix len digits (b # ds)
           \<and> n = dec_acc len (b # ds) \<and> int n \<le> m \<and> n \<le> maxInt)"
        using length_prefix_Cons [OF "2.prems" b(2,3)] True by auto
      also have "\<dots> \<longleftrightarrow> (\<exists>ds. b # bs = ds @ CHR '':'' # rest \<and> length_prefix len digits ds
           \<and> n = dec_acc len ds \<and> (ds \<noteq> [] \<longrightarrow> int n \<le> m \<and> n \<le> maxInt))"
        using b by (auto simp: Cons_eq_append_conv)
      finally show ?thesis using step by simp
    next
      case False
      have "\<not> (dec_acc len (b # ds) \<le> maxInt \<and> int (dec_acc len (b # ds)) \<le> m)" for ds
        using False dec_acc_ge [of ?l ds] by auto
      then have "\<not> (\<exists>ds. b # bs = ds @ CHR '':'' # rest \<and> length_prefix len digits ds
           \<and> n = dec_acc len ds \<and> (ds \<noteq> [] \<longrightarrow> int n \<le> m \<and> n \<le> maxInt))"
        using b by (auto simp: Cons_eq_append_conv)
      moreover have "Read_length m (b # bs) e len digits \<noteq> (Inr n, rest)"
        using b False overflow_guard [OF b(2), of len] by (auto simp: Let_def)
      ultimately show ?thesis by blast
    qed
  qed
qed

lemma length_prefix_Itoa [simp]: "length_prefix 0 0 (Itoa n)"
proof (cases "n = 0")
  case True
  then show ?thesis by (simp add: length_prefix_def is_digit_def)
next
  case False
  then show ?thesis using hd_Itoa [of n] Itoa_digits [of _ n]
    by (auto simp: length_prefix_def list_all_iff)
qed

lemma length_prefix_unique: "length_prefix 0 0 ds \<Longrightarrow> ds = Itoa (dec_val ds)"
  by (rule Itoa_dec_val [symmetric]) (auto simp: length_prefix_def)

lemma Read_length_start_iff:
  "Read_length m bs e 0 0 = (Inr n, rest) \<longleftrightarrow>
     bs = Itoa n @ CHR '':'' # rest \<and> int n \<le> m \<and> n \<le> maxInt"
proof -
  have "Read_length m bs e 0 0 = (Inr n, rest) \<longleftrightarrow>
     (\<exists>ds. bs = ds @ CHR '':'' # rest \<and> length_prefix 0 0 ds \<and> n = dec_val ds
           \<and> int n \<le> m \<and> n \<le> maxInt)"
    by (subst Read_length_Inr_iff) (auto simp: dec_acc_0 length_prefix_def)
  also have "\<dots> \<longleftrightarrow> bs = Itoa n @ CHR '':'' # rest \<and> int n \<le> m \<and> n \<le> maxInt"
    using length_prefix_unique by (auto intro: exI [of _ "Itoa n"])
  finally show ?thesis .
qed

section \<open>Read is the inverse of Marshal\<close>

lemma Read_Inr_iff:
  "Read r maxPayload = (Inr payload, r') \<longleftrightarrow>
     rbuf r = Marshal payload @ rbuf r' \<and> r' = r\<lparr>rbuf := rbuf r'\<rparr>
     \<and> int (length payload) \<le> maxPayload \<and> length payload \<le> maxInt"
proof
  assume *: "Read r maxPayload = (Inr payload, r')"
  then obtain len bs where len: "Read_length maxPayload (rbuf r) (rerr r) 0 0 = (Inr len, bs)"
    by (auto simp: Read_def split: prod.splits sum.splits)
  then have bs: "rbuf r = Itoa len @ CHR '':'' # bs" "int len \<le> maxPayload" "len \<le> maxInt"
    by (simp_all add: Read_length_start_iff)
  from * len have full: "len \<le> length bs" and pl: "payload = take len bs"
    and tail: "drop len bs = CHR '','' # rbuf r'" and r': "r' = r\<lparr>rbuf := rbuf r'\<rparr>"
    by (auto simp: Read_def ReadFull_def ReadByte_def split: if_splits list.splits)
  have "bs = payload @ CHR '','' # rbuf r'"
    using pl tail by (metis append_take_drop_id)
  moreover have "length payload = len" using pl full by simp
  ultimately show "rbuf r = Marshal payload @ rbuf r' \<and> r' = r\<lparr>rbuf := rbuf r'\<rparr>
     \<and> int (length payload) \<le> maxPayload \<and> length payload \<le> maxInt"
    using bs r' by (simp add: Marshal_def)
next
  assume *: "rbuf r = Marshal payload @ rbuf r' \<and> r' = r\<lparr>rbuf := rbuf r'\<rparr>
     \<and> int (length payload) \<le> maxPayload \<and> length payload \<le> maxInt"
  then have "Read_length maxPayload (rbuf r) (rerr r) 0 0 = (Inr (length payload), payload @ CHR '','' # rbuf r')"
    by (simp add: Read_length_start_iff Marshal_def)
  with * show "Read r maxPayload = (Inr payload, r')"
    by (simp add: Read_def ReadFull_def ReadByte_def)
qed


section \<open>The split function\<close>

lemma split_length_Inr_iff:
  "split_length ds n = Inr m \<longleftrightarrow>
     list_all is_digit ds \<and> m = dec_acc n ds \<and> (ds = [] \<or> m \<le> maxInt)"
proof (induction ds n rule: split_length.induct)
  case (1 len)
  then show ?case by auto
next
  case (2 c cs len)
  show ?case
  proof (cases "is_digit c \<and> len * 10 + digit_val c \<le> maxInt")
    case True
    with 2 overflow_guard [of c len] show ?thesis by auto
  next
    case False
    with overflow_guard [of c len] dec_acc_ge [of "len * 10 + digit_val c" cs] show ?thesis
      by auto
  qed
qed

lemma split_length_no_error:
  "list_all is_digit ds \<Longrightarrow> dec_acc n ds \<le> maxInt \<Longrightarrow> split_length ds n = Inr (dec_acc n ds)"
  by (simp add: split_length_Inr_iff)

lemma Itoa_no_colon [simp]: "CHR '':'' \<notin> set (Itoa n)"
  using Itoa_digits [of "CHR '':''" n] by auto

lemma Marshal_inj: "Marshal s = Marshal t \<Longrightarrow> s = t"
proof -
  assume "Marshal s = Marshal t"
  then have e: "Itoa (length s) @ '':'' @ s @ '','' = Itoa (length t) @ '':'' @ t @ '',''" by (simp add: Marshal_def)
  have tw: "takeWhile (\<lambda>c. c \<noteq> CHR '':'') (Itoa n @ '':'' @ r) = Itoa n" for n r by (simp add: takeWhile_append)
  have "Itoa (length s) = Itoa (length t)" using arg_cong [OF e, of "takeWhile (\<lambda>c. c \<noteq> CHR '':'')"] unfolding tw .
  with e show "s = t" by simp
qed

lemma split_length_Itoa: "n \<le> maxInt \<Longrightarrow> split_length (Itoa n) 0 = Inr n"
  using length_prefix_Itoa [of n] by (simp add: split_length_Inr_iff dec_acc_0 length_prefix_def)

lemma Itoa_leading: "length (Itoa n) > 1 \<Longrightarrow> hd (Itoa n) \<noteq> CHR ''0''"
  using length_prefix_Itoa [of n] by (auto simp: length_prefix_def)

lemma split_after_length:
  assumes "n \<le> maxInt"
  shows "splitNetstring (Itoa n @ CHR '':'' # bs) atEOF =
    (if n \<ge> length bs then (if atEOF then SplitErr UnexpectedEOF else SplitMore)
     else if bs ! n \<noteq> CHR '','' then SplitErr MissingComma
     else SplitToken (length (Itoa n) + 1 + n + 1) (take n bs))"
proof -
  have "\<forall>c \<in> set (Itoa n). c \<noteq> CHR '':''"
    by (metis Itoa_no_colon)
  then have "takeWhile (\<lambda>c. c \<noteq> CHR '':'') (Itoa n @ CHR '':'' # bs) = Itoa n"
    by (simp add: takeWhile_tail)
  then show ?thesis
    using assms Itoa_leading [of n]
    by (auto simp: splitNetstring_def Let_def split_length_Itoa nth_append)
qed

lemma splitNetstring_Token_iff:
  "splitNetstring data atEOF = SplitToken n token \<longleftrightarrow>
     n = length (Marshal token) \<and> length token \<le> maxInt \<and> take n data = Marshal token"
proof
  assume *: "splitNetstring data atEOF = SplitToken n token"
  let ?lb = "takeWhile (\<lambda>c. c \<noteq> CHR '':'') data"
  have colon: "CHR '':'' \<in> set data" and lb: "?lb \<noteq> []" "\<not> (length ?lb > 1 \<and> hd ?lb = CHR ''0'')"
    using * by (auto simp: splitNetstring_def Let_def split: if_splits sum.splits)
  obtain len where len: "split_length ?lb 0 = Inr len"
    using * by (auto simp: splitNetstring_def Let_def split: if_splits sum.splits)
  have digits: "list_all is_digit ?lb" "len = dec_val ?lb" "len \<le> maxInt"
    using len lb by (auto simp: split_length_Inr_iff dec_acc_0)
  have "?lb = Itoa len"
    unfolding digits(2) using lb digits(1) by (intro Itoa_dec_val [symmetric]) (auto simp: Suc_lessI)
  then obtain bs where data: "data = Itoa len @ CHR '':'' # bs"
    using Cut_found [of data "CHR '':''"] colon by (auto simp: Cut_def)
  from * have bs: "len < length bs" "bs ! len = CHR '',''" and tok: "token = take len bs"
    and n: "n = length (Itoa len) + 1 + len + 1"
    by (auto simp: data split_after_length [OF digits(3)] split: if_splits)
  then have tl: "length token = len" by simp
  have "take (Suc len) bs = token @ '',''"
    using bs tok by (simp add: take_Suc_conv_app_nth)
  then show "n = length (Marshal token) \<and> length token \<le> maxInt \<and> take n data = Marshal token"
    using tl digits(3) by (simp add: Marshal_def n data)
next
  assume *: "n = length (Marshal token) \<and> length token \<le> maxInt \<and> take n data = Marshal token"
  then have "data = Marshal token @ drop n data" by (metis append_take_drop_id)
  then have data: "data = Itoa (length token) @ CHR '':'' # (token @ CHR '','' # drop n data)"
    by (simp add: Marshal_def)
  show "splitNetstring data atEOF = SplitToken n token"
    using * by (subst data, subst split_after_length) (simp_all add: Marshal_def nth_append)
qed

lemma split_incomplete:
  assumes "length s \<le> maxInt" "Marshal s = data @ rest" "rest \<noteq> []"
  shows "splitNetstring data False = SplitMore"
proof (cases "CHR '':'' \<in> set data")
  case False
  then show ?thesis by (simp add: splitNetstring_def)
next
  case True
  let ?n = "length s"
  have "Itoa ?n @ CHR '':'' # (s @ '','') = data @ rest"
    using assms(2) by (simp add: Marshal_def)
  moreover have "\<not> (\<exists>us. Itoa ?n = data @ us)"
    using True Itoa_no_colon [of ?n] by (metis Un_iff set_append)
  ultimately obtain us where us: "data = Itoa ?n @ us" "us @ rest = CHR '':'' # s @ '',''"
    by (auto simp: append_eq_append_conv2)
  moreover have "us \<noteq> []" using us True Itoa_no_colon [of ?n] by auto
  ultimately obtain bs where bs: "data = Itoa ?n @ CHR '':'' # bs" "bs @ rest = s @ '',''"
    by (cases us) auto
  have "length bs + length rest = ?n + 1"
    using arg_cong [OF bs(2), of length] by simp
  moreover have "0 < length rest" using assms(3) by simp
  ultimately have "length bs \<le> ?n" by arith
  then show ?thesis by (simp add: bs(1) split_after_length [OF assms(1)])
qed

section \<open>Framing\<close>

text \<open>
  What the connection handler relies on: an encoder and a decoder of single frames over a byte
  stream. The client's lemmas are about streams of several frames: the framing is uniquely
  decodable, and a pipelined stream of frames is read back frame by frame.
\<close>

locale framing =
  fixes ok :: "string \<Rightarrow> bool"
    and enc :: "string \<Rightarrow> string"
    and dec :: "string \<Rightarrow> (string \<times> string) option"
  assumes dec_enc: "ok s \<Longrightarrow> dec (enc s @ rest) = Some (s, rest)"
    and dec_sound: "dec bs = Some (s, rest) \<Longrightarrow> ok s \<and> bs = enc s @ rest"
    and enc_nonempty: "enc s \<noteq> []"
begin

fun dec_list :: "nat \<Rightarrow> string \<Rightarrow> string list \<times> string" where
  "dec_list 0 bs = ([], bs)"
| "dec_list (Suc n) bs = (case dec bs of
     None \<Rightarrow> ([], bs)
   | Some (s, rest) \<Rightarrow> (let (ss, rest') = dec_list n rest in (s # ss, rest')))"

lemma prefix_free:
  assumes "ok s" "ok t" "enc s @ r = enc t @ r'"
  shows "s = t \<and> r = r'"
proof -
  have "Some (s, r) = Some (t, r')"
    using dec_enc [OF assms(1), of r] dec_enc [OF assms(2), of r'] unfolding assms(3) by (rule subst)
  then show ?thesis by simp
qed

lemma dec_list_concat:
  "list_all ok ss \<Longrightarrow> dec_list (length ss) (concat (map enc ss) @ rest) = (ss, rest)"
  by (induction ss) (simp_all add: dec_enc)

lemma dec_list_sound:
  "dec_list n bs = (ss, rest) \<Longrightarrow> list_all ok ss \<and> bs = concat (map enc ss) @ rest"
proof (induction n arbitrary: bs ss)
  case (Suc n)
  show ?case
  proof (cases "dec bs")
    case None
    with Suc.prems show ?thesis by simp
  next
    case (Some p)
    then obtain s r where p: "dec bs = Some (s, r)" by (cases p) auto
    with Suc.prems obtain ss' where "dec_list n r = (ss', rest)" "ss = s # ss'"
      by (auto split: prod.splits)
    with Suc.IH [of r ss'] dec_sound [OF p] show ?thesis by simp
  qed
qed simp

lemma concat_unique:
  assumes "list_all ok ss" "list_all ok ts" "concat (map enc ss) = concat (map enc ts)"
  shows "ss = ts"
  using assms
proof (induction ss arbitrary: ts)
  case Nil
  then show ?case using enc_nonempty by (cases ts) auto
next
  case (Cons s ss)
  show ?case
  proof (cases ts)
    case Nil
    with Cons.prems enc_nonempty show ?thesis by auto
  next
    case (Cons t ts')
    then have ok: "ok s" "ok t" "list_all ok ss" "list_all ok ts'"
      and eq: "enc s @ concat (map enc ss) = enc t @ concat (map enc ts')"
      using Cons.prems by simp_all
    from prefix_free [OF ok(1,2) eq] Cons.IH [OF ok(3,4)] Cons show ?thesis by simp
  qed
qed

end

definition read_frame :: "nat \<Rightarrow> string \<Rightarrow> (string \<times> string) option" where
  "read_frame maxPayload bs =
     (case Read \<lparr>rbuf = bs, rerr = EOF\<rparr> (int maxPayload) of
        (Inl _, _) \<Rightarrow> None | (Inr s, r) \<Rightarrow> Some (s, rbuf r))"

definition scan_frame :: "string \<Rightarrow> (string \<times> string) option" where
  "scan_frame bs = (case splitNetstring bs True of
     SplitToken n s \<Rightarrow> Some (s, drop n bs) | _ \<Rightarrow> None)"

lemma read_frame_Some_iff:
  "read_frame m bs = Some (s, rest) \<longleftrightarrow> bs = Marshal s @ rest \<and> length s \<le> m \<and> length s \<le> maxInt"
proof -
  have "read_frame m bs = Some (s, rest) \<Longrightarrow>
    \<exists>r. Read \<lparr>rbuf = bs, rerr = EOF\<rparr> (int m) = (Inr s, r) \<and> rbuf r = rest"
    by (auto simp: read_frame_def split: prod.splits sum.splits)
  moreover have "Read \<lparr>rbuf = bs, rerr = EOF\<rparr> (int m) = (Inr s, \<lparr>rbuf = rest, rerr = EOF\<rparr>) \<Longrightarrow>
    read_frame m bs = Some (s, rest)"
    by (simp add: read_frame_def)
  ultimately show ?thesis by (auto simp: Read_Inr_iff)
qed

lemma scan_frame_Some_iff:
  "scan_frame bs = Some (s, rest) \<longleftrightarrow> bs = Marshal s @ rest \<and> length s \<le> maxInt"
proof -
  have "scan_frame bs = Some (s, rest) \<Longrightarrow>
    \<exists>n. splitNetstring bs True = SplitToken n s \<and> rest = drop n bs"
    by (auto simp: scan_frame_def split: split_result.splits)
  then have "scan_frame bs = Some (s, rest) \<Longrightarrow> bs = Marshal s @ rest \<and> length s \<le> maxInt"
    by (metis append_take_drop_id splitNetstring_Token_iff)
  moreover have "bs = Marshal s @ rest \<Longrightarrow> length s \<le> maxInt \<Longrightarrow>
    splitNetstring bs True = SplitToken (length (Marshal s)) s"
    by (simp add: splitNetstring_Token_iff)
  ultimately show ?thesis by (auto simp: scan_frame_def)
qed

interpretation reader: framing "\<lambda>s. length s \<le> m \<and> length s \<le> maxInt" Marshal "read_frame m" for m
  by unfold_locales (simp_all add: read_frame_Some_iff, simp add: Marshal_def)

interpretation scanner: framing "\<lambda>s. length s \<le> maxInt" Marshal scan_frame
  by unfold_locales (simp_all add: scan_frame_Some_iff, simp add: Marshal_def)

section \<open>Properties\<close>

text \<open>C15: \<open>Read\<close> returns a payload exactly when the stream begins with the canonical netstring
  encoding (\<open>Marshal\<close>) of that payload and the payload is within the limit; the reader is then
  left right behind the terminating comma, with nothing beyond it consumed.\<close>

theorem Read_iff_Marshal:
  "Read r maxPayload = (Inr payload, r') \<longleftrightarrow>
     (\<exists>rest. rbuf r = Marshal payload @ rest \<and> r' = r\<lparr>rbuf := rest\<rparr>)
     \<and> int (length payload) \<le> maxPayload \<and> length payload \<le> maxInt"
  by (subst Read_Inr_iff) (auto intro: exI [of _ "rbuf r'"])

text \<open>C36: the scanner's split function yields a token exactly when the data begins with the
  canonical encoding of that token, and it advances by the length of that encoding; and on every proper prefix of an
  encoding, before the end of input, it asks for more data and reports no error.\<close>

theorem splitNetstring_iff_Marshal:
  "(splitNetstring data atEOF = SplitToken n token \<longleftrightarrow>
     (\<exists>rest. data = Marshal token @ rest) \<and> n = length (Marshal token) \<and> length token \<le> maxInt) \<and>
   (length s \<le> maxInt \<and> Marshal s = part @ rest \<and> rest \<noteq> [] \<longrightarrow> splitNetstring part False = SplitMore)"
proof (intro conjI impI)
  show "splitNetstring data atEOF = SplitToken n token \<longleftrightarrow>
     (\<exists>rest. data = Marshal token @ rest) \<and> n = length (Marshal token) \<and> length token \<le> maxInt"
    by (subst splitNetstring_Token_iff) (metis append_eq_conv_conj append_take_drop_id)
qed (blast intro: split_incomplete)

theorem splitNetstring_iff_Marshal_witness:
  "splitNetstring ''5:hel'' False = SplitMore"
proof -
  have "Marshal ''hello'' = ''5:hel'' @ ''lo,''"
    by (simp add: Marshal_def Itoa.simps digit_char_def char_of_eq_iff take_bit_eq_mod)
  with splitNetstring_iff_Marshal [of "[]" False 0 "[]" "''hello''" "''5:hel''" "''lo,''"] show ?thesis
    by (simp add: maxInt_def)
qed

text \<open>The framing is uniquely decodable: two lists of messages with the same wire bytes are
  the same list, so a peer can never make one pipelined stream mean two different query
  sequences.\<close>

theorem Marshal_streams_unique:
  "inj_on (\<lambda>ss. concat (map Marshal ss)) (lists {s. length s \<le> maxInt})"
  by (rule inj_onI, rule scanner.concat_unique) (auto simp: list_all_iff lists_eq_set)

end
