(* ===== verification/Go_Net.thy ===== *)
theory Go_Net
  imports Go_Strings
begin

text \<open>
  What the program uses of Go's packages \<^verbatim>\<open>net\<close> and \<^verbatim>\<open>net/netip\<close>: parsing of IP addresses
  (\<^verbatim>\<open>net.ParseIP\<close>), the loopback and unspecified tests, and \<^verbatim>\<open>net.SplitHostPort\<close>. An IP is
  its 16 bytes, an IPv4 address in the mapped form, as \<^verbatim>\<open>net.ParseIP\<close> returns it. The main
  lemma says which strings parse as IPv4 addresses: dotted quads of canonical numerals.
\<close>

section \<open>IPv4 and IPv6 literals\<close>

type_synonym ip = "nat list"

text \<open>\<^verbatim>\<open>netip.parseIPv4Fields\<close>: the state is the previous byte, the value and the number of digits
  of the current octet, and the finished octets.\<close>

fun parseIPv4Fields :: "string \<Rightarrow> char option \<Rightarrow> nat \<Rightarrow> nat \<Rightarrow> nat list \<Rightarrow> nat list option" where
  "parseIPv4Fields [] prev val digLen octets =
     (if length octets < 3 then None else Some (octets @ [val]))"
| "parseIPv4Fields (c # cs) prev val digLen octets =
     (if is_digit c then
        (if digLen = 1 \<and> val = 0 then None
         else let val' = val * 10 + digit_val c in
           if val' > 255 then None else parseIPv4Fields cs (Some c) val' (digLen + 1) octets)
      else if c = CHR ''.'' then
        (if prev = None \<or> cs = [] \<or> prev = Some (CHR ''.'') then None
         else if length octets = 3 then None
         else parseIPv4Fields cs (Some c) 0 0 (octets @ [val]))
      else None)"

definition parseIPv4 :: "string \<Rightarrow> nat list option" where
  "parseIPv4 s = parseIPv4Fields s None 0 0 []"

definition is_hex_digit :: "char \<Rightarrow> bool" where
  "is_hex_digit c \<longleftrightarrow> is_digit c \<or> (CHR ''a'' \<le> c \<and> c \<le> CHR ''f'') \<or> (CHR ''A'' \<le> c \<and> c \<le> CHR ''F'')"

definition hex_digit_val :: "char \<Rightarrow> nat" where
  "hex_digit_val c =
     (if is_digit c then byte c - byte (CHR ''0'')
      else if CHR ''a'' \<le> c \<and> c \<le> CHR ''f'' then byte c - byte (CHR ''a'') + 10
      else byte c - byte (CHR ''A'') + 10)"

definition hex_val :: "string \<Rightarrow> nat" where
  "hex_val s = foldl (\<lambda>n c. 16 * n + hex_digit_val c) 0 s"

definition v6_finish :: "string \<Rightarrow> nat list \<Rightarrow> nat option \<Rightarrow> nat list option" where
  "v6_finish s addr ellipsis =
     (if s \<noteq> [] then None
      else if length addr < 16 then
        (case ellipsis of
           None \<Rightarrow> None
         | Some e \<Rightarrow> Some (take e addr @ replicate (16 - length addr) 0 @ drop e addr))
      else if ellipsis \<noteq> None then None else Some addr)"

text \<open>The loop of \<^verbatim>\<open>netip.parseIPv6\<close> over the colon-separated groups.\<close>

function parseIPv6Loop :: "string \<Rightarrow> nat list \<Rightarrow> nat option \<Rightarrow> nat list option" where
  "parseIPv6Loop s addr ellipsis =
     (if length addr \<ge> 16 then v6_finish s addr ellipsis
      else let digs = takeWhile is_hex_digit s; rest = dropWhile is_hex_digit s in
        if length digs > 4 \<or> digs = [] then None
        else if rest \<noteq> [] \<and> hd rest = CHR ''.'' then
          (if (ellipsis = None \<and> length addr \<noteq> 12) \<or> length addr + 4 > 16 then None
           else (case parseIPv4 s of None \<Rightarrow> None | Some fs \<Rightarrow> v6_finish [] (addr @ fs) ellipsis))
        else let addr' = addr @ [hex_val digs div 256, hex_val digs mod 256] in
          (case rest of
             [] \<Rightarrow> v6_finish [] addr' ellipsis
           | c # s' \<Rightarrow>
               if c \<noteq> CHR '':'' \<or> s' = [] then None
               else if hd s' = CHR '':'' then
                 (if ellipsis \<noteq> None then None
                  else if tl s' = [] then v6_finish [] addr' (Some (length addr'))
                  else parseIPv6Loop (tl s') addr' (Some (length addr')))
               else parseIPv6Loop s' addr' ellipsis))"
  by pat_completeness auto
termination
  by (relation "measure (\<lambda>(s, addr, e). 16 - length addr)") auto

declare parseIPv6Loop.simps [simp del]

definition v4_mapped :: "nat list \<Rightarrow> ip" where
  "v4_mapped fs = replicate 10 0 @ [255, 255] @ fs"

text \<open>\<^verbatim>\<open>net.ParseIP\<close>: \<open>None\<close> is Go's nil; an address with a zone is refused.\<close>

definition ParseIP :: "string \<Rightarrow> ip option" where
  "ParseIP s =
     (case filter (\<lambda>c. c = CHR ''.'' \<or> c = CHR '':'' \<or> c = CHR ''%'') s of
        [] \<Rightarrow> None
      | c # _ \<Rightarrow>
          if c = CHR ''.'' then map_option v4_mapped (parseIPv4 s)
          else if c = CHR ''%'' then None
          else if CHR ''%'' \<in> set s then None
          else if take 2 s = ''::'' then
            (if drop 2 s = [] then Some (replicate 16 0) else parseIPv6Loop (drop 2 s) [] (Some 0))
          else parseIPv6Loop s [] None)"

definition To4 :: "ip \<Rightarrow> nat list option" where
  "To4 a = (if length a = 16 \<and> take 12 a = replicate 10 0 @ [255, 255] then Some (drop 12 a)
            else if length a = 4 then Some a else None)"

definition IP_IsLoopback :: "ip \<Rightarrow> bool" where
  "IP_IsLoopback a = (case To4 a of
     Some (b # _) \<Rightarrow> b = 127
   | _ \<Rightarrow> a = replicate 15 0 @ [1])"

definition IP_IsUnspecified :: "ip \<Rightarrow> bool" where
  "IP_IsUnspecified a \<longleftrightarrow> To4 a = Some [0, 0, 0, 0] \<or> a = replicate 16 0"

definition IP_Equal :: "ip \<Rightarrow> ip \<Rightarrow> bool" where
  "IP_Equal a b \<longleftrightarrow> a = b \<or> (To4 a \<noteq> None \<and> To4 a = To4 b)"

section \<open>Host and port\<close>

text \<open>\<^verbatim>\<open>net.SplitHostPort\<close>: host and port of \<^verbatim>\<open>host:port\<close> or \<^verbatim>\<open>[host]:port\<close>; every error of the
  source is \<open>None\<close>.\<close>

definition last_index :: "char \<Rightarrow> string \<Rightarrow> nat option" where
  "last_index c s = (if c \<in> set s then Some (length s - 1 - length (takeWhile (\<lambda>d. d \<noteq> c) (rev s))) else None)"

definition first_index :: "char \<Rightarrow> string \<Rightarrow> nat option" where
  "first_index c s = (if c \<in> set s then Some (length (takeWhile (\<lambda>d. d \<noteq> c) s)) else None)"

definition SplitHostPort :: "string \<Rightarrow> (string \<times> string) option" where
  "SplitHostPort hp =
     (case last_index (CHR '':'') hp of
        None \<Rightarrow> None
      | Some i \<Rightarrow>
          if hd hp = CHR ''['' then
            (case first_index (CHR '']'') hp of
               None \<Rightarrow> None
             | Some e \<Rightarrow>
                 if e + 1 \<noteq> i then None
                 else let host = take (e - 1) (drop 1 hp) in
                   if CHR ''['' \<in> set (drop 1 hp) \<or> CHR '']'' \<in> set (drop (e + 1) hp) then None
                   else Some (host, drop (i + 1) hp))
          else let host = take i hp in
            if CHR '':'' \<in> set host then None
            else if CHR ''['' \<in> set hp \<or> CHR '']'' \<in> set hp then None
            else Some (host, drop (i + 1) hp))"

definition JoinHostPort :: "string \<Rightarrow> string \<Rightarrow> string" where
  "JoinHostPort host port =
     (if CHR '':'' \<in> set host \<or> CHR ''%'' \<in> set host then ''['' @ host @ '']:'' @ port
      else host @ '':'' @ port)"

section \<open>Which strings are IPv4 addresses\<close>

definition octet :: "string \<Rightarrow> bool" where
  "octet w \<longleftrightarrow> (\<exists>n \<le> 255. w = Itoa n)"

definition dotted_quad :: "string \<Rightarrow> bool" where
  "dotted_quad s \<longleftrightarrow> length (Split s (CHR ''.'')) = 4 \<and> list_all octet (Split s (CHR ''.''))"


lemma octet_iff:
  "octet w \<longleftrightarrow> w \<noteq> [] \<and> list_all is_digit w \<and> (length w = 1 \<or> hd w \<noteq> CHR ''0'') \<and> dec_val w \<le> 255"
proof
  assume "octet w"
  then obtain n where n: "n \<le> 255" "w = Itoa n" by (auto simp: octet_def)
  show "w \<noteq> [] \<and> list_all is_digit w \<and> (length w = 1 \<or> hd w \<noteq> CHR ''0'') \<and> dec_val w \<le> 255"
  proof (cases "n = 0")
    case True
    with n show ?thesis by (simp add: is_digit_def dec_val_def digit_val_def)
  next
    case False
    with n hd_Itoa [of n] Itoa_digits [of _ n] show ?thesis by (auto simp: list_all_iff)
  qed
next
  assume "w \<noteq> [] \<and> list_all is_digit w \<and> (length w = 1 \<or> hd w \<noteq> CHR ''0'') \<and> dec_val w \<le> 255"
  then show "octet w" using Itoa_dec_val [of w] by (auto simp: octet_def)
qed

lemma dec_val_append_ge: "dec_val w \<le> dec_val (w @ x)"
proof (induction x rule: rev_induct)
  case (snoc c x)
  have "dec_val w \<le> 10 * dec_val (w @ x) + digit_val c" using snoc.IH by simp
  then show ?case by (simp flip: append_assoc)
qed simp

lemma Split_append_head:
  "sep \<notin> set w \<Longrightarrow> Split (w @ s) sep = (w @ hd (Split s sep)) # tl (Split s sep)"
  by (induction w) auto

definition octet_prefix :: "string \<Rightarrow> bool" where
  "octet_prefix w \<longleftrightarrow> list_all is_digit w \<and> (length w \<le> 1 \<or> hd w \<noteq> CHR ''0'') \<and> dec_val w \<le> 255"

lemma dot_not_digit [simp]: "\<not> is_digit (CHR ''.'')"
  by (simp add: is_digit_def)

lemma octet_prefix_no_dot: "octet_prefix w \<Longrightarrow> CHR ''.'' \<notin> set w"
  by (auto simp: octet_prefix_def list_all_iff)

lemma octet_prefix_single_zero:
  "octet_prefix w \<Longrightarrow> length w = 1 \<and> dec_val w = 0 \<longleftrightarrow> w = ''0''"
proof -
  assume "octet_prefix w"
  then have "w = [c] \<Longrightarrow> dec_val w = 0 \<longleftrightarrow> c = CHR ''0''" for c
    using digit_val_eq_0_iff [of c] by (simp add: octet_prefix_def dec_val_def)
  then show ?thesis by (auto simp: length_Suc_conv)
qed

lemma octet_prefix_snoc:
  assumes "octet_prefix w" "is_digit c" "w \<noteq> ''0''"
  shows "octet_prefix (w @ [c]) \<longleftrightarrow> dec_val (w @ [c]) \<le> 255"
proof (cases w)
  case Nil
  with assms show ?thesis by (simp add: octet_prefix_def)
next
  case (Cons d w')
  with assms show ?thesis by (auto simp: octet_prefix_def)
qed

lemma octet_of_prefix: "octet w \<longleftrightarrow> w \<noteq> [] \<and> octet_prefix w"
  by (cases w) (auto simp: octet_iff octet_prefix_def le_Suc_eq)

lemma octet_append_prefix: "octet (w @ x) \<Longrightarrow> octet_prefix w"
  using dec_val_append_ge [of w x]
  by (cases w) (auto simp: octet_iff octet_prefix_def)

text \<open>One step of the parser, for a digit that continues the field, one that spoils it, and a dot.\<close>

lemma parse_digit:
  assumes "octet_prefix w" "is_digit c"
  shows "parseIPv4Fields (c # cs) prev (dec_val w) (length w) fs =
    (if octet_prefix (w @ [c]) then parseIPv4Fields cs (Some c) (dec_val (w @ [c])) (length (w @ [c])) fs else None)"
proof (cases "octet_prefix (w @ [c])")
  case True
  then have "w \<noteq> ''0''" "dec_val (w @ [c]) \<le> 255" by (auto simp: octet_prefix_def)
  with True assms octet_prefix_single_zero [OF assms(1)] show ?thesis by (auto simp: mult.commute)
next
  case False
  with assms(2) octet_prefix_snoc [OF assms] octet_prefix_single_zero [OF assms(1)] show ?thesis by (auto simp: mult.commute)
qed

lemma parse_dot:
  assumes "w = [] \<longleftrightarrow> prev = None \<or> prev = Some (CHR ''.'')"
  shows "parseIPv4Fields (CHR ''.'' # cs) prev (dec_val w) (length w) fs =
    (if w = [] \<or> cs = [] \<or> length fs = 3 then None
     else parseIPv4Fields cs (Some (CHR ''.'')) (dec_val []) (length ([] :: string)) (fs @ [dec_val w]))"
  using assms by auto

lemma split_bad_head:
  assumes "CHR ''.'' \<notin> set v" "\<And>x. \<not> octet (v @ x)"
  shows "\<not> list_all octet (Split (v @ cs) (CHR ''.''))"
  using Split_append_head [OF assms(1), of cs] assms(2) by auto

lemma parseIPv4Fields_Some_iff:
  assumes "octet_prefix w" "length fs \<le> 3" "w = [] \<longleftrightarrow> prev = None \<or> prev = Some (CHR ''.'')"
    and "cs = [] \<and> w = [] \<longrightarrow> length fs < 3"
  shows "parseIPv4Fields cs prev (dec_val w) (length w) fs \<noteq> None \<longleftrightarrow>
    length (Split (w @ cs) (CHR ''.'')) + length fs = 4 \<and> list_all octet (Split (w @ cs) (CHR ''.''))"
  using assms
proof (induction cs arbitrary: w prev fs)
  case Nil
  then show ?case
    using octet_prefix_no_dot [of w] by (auto simp: Split_single octet_of_prefix)
next
  case (Cons c cs)
  note no_dot = octet_prefix_no_dot [OF Cons.prems(1)]
  consider (good) "is_digit c" "octet_prefix (w @ [c])" | (dot) "c = CHR ''.''"
    | (bad) "c \<noteq> CHR ''.''" "is_digit c \<longrightarrow> \<not> octet_prefix (w @ [c])" by blast
  then show ?case
  proof cases
    case good
    have "parseIPv4Fields cs (Some c) (dec_val (w @ [c])) (length (w @ [c])) fs \<noteq> None \<longleftrightarrow>
      length (Split ((w @ [c]) @ cs) (CHR ''.'')) + length fs = 4 \<and> list_all octet (Split ((w @ [c]) @ cs) (CHR ''.''))"
      by (rule Cons.IH) (use good Cons.prems in auto)
    then show ?thesis unfolding parse_digit [OF Cons.prems(1) good(1)] using good(2) by simp
  next
    case bad
    have "\<not> octet ((w @ [c]) @ x)" for x
    proof (cases "is_digit c")
      case True
      with bad(2) octet_append_prefix [of "w @ [c]" x] show ?thesis by blast
    qed (auto simp: octet_iff)
    then have "\<not> list_all octet (Split ((w @ [c]) @ cs) (CHR ''.''))" using bad(1) no_dot by (intro split_bad_head) auto
    moreover have "parseIPv4Fields (c # cs) prev (dec_val w) (length w) fs = None"
      using bad parse_digit [OF Cons.prems(1), of c cs prev fs] by (cases "is_digit c") auto
    ultimately show ?thesis by simp
  next
    case dot
    have sp: "Split (w @ c # cs) (CHR ''.'') = w # Split cs (CHR ''.'')" using dot no_dot by (simp add: Split_snoc_sep)
    show ?thesis
    proof (cases "w = [] \<or> cs = [] \<or> length fs = 3")
      case True
      then have "\<not> (length (w # Split cs (CHR ''.'')) + length fs = 4 \<and> list_all octet (w # Split cs (CHR ''.'')))"
        by (cases "Split cs (CHR ''.'')") (auto simp: octet_iff)
      with True sp dot parse_dot [OF Cons.prems(3), of cs fs] show ?thesis by simp
    next
      case False
      have "parseIPv4Fields cs (Some c) (dec_val []) (length ([] :: string)) (fs @ [dec_val w]) \<noteq> None \<longleftrightarrow>
        length (Split ([] @ cs) (CHR ''.'')) + length (fs @ [dec_val w]) = 4 \<and> list_all octet (Split ([] @ cs) (CHR ''.''))"
        by (rule Cons.IH) (use False Cons.prems dot in \<open>auto simp: octet_prefix_def\<close>)
      moreover have "octet w" using False Cons.prems(1) by (simp add: octet_of_prefix)
      ultimately show ?thesis
        using sp False dot parse_dot [OF Cons.prems(3), of cs fs] by (simp del: parseIPv4Fields.simps)
    qed
  qed
qed

lemma parseIPv4_iff_dotted_quad: "parseIPv4 s \<noteq> None \<longleftrightarrow> dotted_quad s"
proof -
  have "parseIPv4Fields s None (dec_val []) (length ([] :: string)) [] \<noteq> None \<longleftrightarrow>
    length (Split ([] @ s) (CHR ''.'')) + length ([] :: nat list) = 4 \<and> list_all octet (Split ([] @ s) (CHR ''.''))"
    by (rule parseIPv4Fields_Some_iff) (simp_all add: octet_prefix_def)
  then show ?thesis by (simp add: parseIPv4_def dotted_quad_def)
qed

lemma dotted_quad_has_dot: "dotted_quad s \<Longrightarrow> CHR ''.'' \<in> set s"
  using Split_single [of "CHR ''.''" s] by (cases "CHR ''.'' \<in> set s") (simp_all add: dotted_quad_def)

lemma filter_Cons_member: "filter P s = c # cs \<Longrightarrow> P c \<and> c \<in> set s"
  by (auto simp: filter_eq_Cons_iff)

text \<open>Without a colon or a percent sign, only a dotted quad parses as an address.\<close>

lemma ParseIP_plain:
  assumes "CHR '':'' \<notin> set s" "CHR ''%'' \<notin> set s"
  shows "ParseIP s \<noteq> None \<longleftrightarrow> dotted_quad s"
proof -
  let ?f = "filter (\<lambda>c. c = CHR ''.'' \<or> c = CHR '':'' \<or> c = CHR ''%'') s"
  show ?thesis
  proof (cases ?f)
    case Nil
    then have "CHR ''.'' \<notin> set s" by (auto simp: filter_empty_conv)
    with Nil dotted_quad_has_dot [of s] show ?thesis by (auto simp: ParseIP_def)
  next
    case (Cons c cs)
    with filter_Cons_member [OF Cons] assms have "c = CHR ''.''" by auto
    with Cons parseIPv4_iff_dotted_quad [of s] show ?thesis by (simp add: ParseIP_def)
  qed
qed

section \<open>Signed decimal numbers\<close>

text \<open>\<^verbatim>\<open>strconv.Atoi\<close>: an optional sign and decimal digits, within the range of a 64-bit \<^verbatim>\<open>int\<close>.\<close>

definition Atoi :: "string \<Rightarrow> int option" where
  "Atoi s =
     (let signed = (s \<noteq> [] \<and> (hd s = CHR ''+'' \<or> hd s = CHR ''-''));
          digits = (if signed then tl s else s);
          v = (if signed \<and> hd s = CHR ''-'' then - int (dec_val digits) else int (dec_val digits)) in
      if digits = [] \<or> \<not> list_all is_digit digits \<or> v < - (2 ^ 63) \<or> 2 ^ 63 \<le> v then None else Some v)"

end
