(* ===== verification/Valid.thy ===== *)
theory Valid
  imports Go_Net
begin

unbundle bit_operations_syntax

text \<open>
  \<^verbatim>\<open>internal/utils/valid/valid.go\<close>: the syntactic validators. The byte loops are modelled as
  they are written; the theorems give their meaning: \<open>IsHex\<close> accepts exactly the non-empty
  strings of hexadecimal digits, and \<open>IsDNSName\<close> exactly the names made of well-formed labels
  that are not IPv4 addresses.
\<close>

section \<open>Hexadecimal strings\<close>

definition isHexByte :: "u8 \<Rightarrow> bool" where
  "isHexByte b \<longleftrightarrow> (of_char (CHR ''0'') \<le> b \<and> b \<le> of_char (CHR ''9'')) \<or>
     (of_char (CHR ''a'') \<le> b OR 0x20 \<and> b OR 0x20 \<le> of_char (CHR ''f''))"

fun IsHex_loop :: "string \<Rightarrow> bool" where
  "IsHex_loop [] = True"
| "IsHex_loop (c # cs) = (if \<not> isHexByte (u8_of_char c) then False else IsHex_loop cs)"

definition IsHex :: "string \<Rightarrow> bool" where
  "IsHex s = (if length s = 0 then False else IsHex_loop s)"

definition IsSHA224 :: "string \<Rightarrow> bool" where
  "IsSHA224 s \<longleftrightarrow> length s = 56 \<and> IsHex s"

definition IsSHA256 :: "string \<Rightarrow> bool" where
  "IsSHA256 s \<longleftrightarrow> length s = 64 \<and> IsHex s"

definition IsSHA384 :: "string \<Rightarrow> bool" where
  "IsSHA384 s \<longleftrightarrow> length s = 96 \<and> IsHex s"

definition IsSHA512 :: "string \<Rightarrow> bool" where
  "IsSHA512 s \<longleftrightarrow> length s = 128 \<and> IsHex s"

section \<open>Domain names\<close>

definition ldh :: "char \<Rightarrow> bool" where
  "ldh c \<longleftrightarrow> is_lower c \<or> is_upper c \<or> is_digit c \<or> c = CHR ''-''"

text \<open>The loop of \<^verbatim>\<open>IsDNSName\<close>. \<open>prev\<close> is the byte before the current one (\<^verbatim>\<open>s[i-1]\<close>); like the
  source, the loop looks at it only after a non-empty label.\<close>

fun IsDNSName_loop :: "string \<Rightarrow> char \<Rightarrow> nat \<Rightarrow> bool \<Rightarrow> bool" where
  "IsDNSName_loop [] prev labelLen startOfLabel =
     (if labelLen = 0 \<or> labelLen > 63 \<or> prev = CHR ''-'' then False else True)"
| "IsDNSName_loop (c # cs) prev labelLen startOfLabel =
     (if c = CHR ''.'' then
        (if labelLen = 0 \<or> labelLen > 63 \<or> prev = CHR ''-'' then False
         else IsDNSName_loop cs c 0 True)
      else if \<not> ldh c \<or> (startOfLabel \<and> c = CHR ''-'') then False
      else IsDNSName_loop cs c (labelLen + 1) False)"

definition IsDNSName :: "string \<Rightarrow> bool" where
  "IsDNSName s0 =
     (if s0 = [] then False
      else let s = (if last s0 = CHR ''.'' then butlast s0 else s0) in
        if s = [] \<or> length s > 253 then False
        else if ParseIP s \<noteq> None then False
        else IsDNSName_loop s (hd s) 0 True)"

section \<open>Character sets and IP literals\<close>

fun IsPrintableASCII :: "string \<Rightarrow> bool" where
  "IsPrintableASCII [] = True"
| "IsPrintableASCII (c # cs) =
     (if byte c < 0x20 \<or> byte c > 0x7e then False else IsPrintableASCII cs)"

definition IsUTFLetterNumeric :: "unicode_tables \<Rightarrow> string \<Rightarrow> bool" where
  "IsUTFLetterNumeric u s =
     (if \<not> ValidString s then False
      else list_all (\<lambda>r. \<not> (\<not> u_letter u r \<and> \<not> u_number u r)) (runes s))"

definition IsUTF8 :: "string \<Rightarrow> bool" where
  "IsUTF8 s = ValidString s"

definition IsIP4 :: "string \<Rightarrow> bool" where
  "IsIP4 s = (case ParseIP s of None \<Rightarrow> False | Some a \<Rightarrow> To4 a \<noteq> None)"

definition IsIP6 :: "string \<Rightarrow> bool" where
  "IsIP6 s = (case ParseIP s of None \<Rightarrow> False | Some a \<Rightarrow> To4 a = None \<and> length a = 16)"

definition IsIP :: "string \<Rightarrow> bool" where
  "IsIP s \<longleftrightarrow> ParseIP s \<noteq> None"

section \<open>What the validators accept\<close>

lemma isHexByte_table:
  "list_all (\<lambda>n. isHexByte (word_of_nat n) \<longleftrightarrow>
     (48 \<le> n \<and> n \<le> 57) \<or> (65 \<le> n \<and> n \<le> 70) \<or> (97 \<le> n \<and> n \<le> 102)) [0..<256]"
  by code_simp


lemma isHexByte_iff: "isHexByte (u8_of_char c) \<longleftrightarrow> is_hex_digit c"
proof -
  have "byte c \<in> set [0..<256]" using byte_bound [of c] by simp
  then have "isHexByte (word_of_nat (byte c)) \<longleftrightarrow>
     (48 \<le> byte c \<and> byte c \<le> 57) \<or> (65 \<le> byte c \<and> byte c \<le> 70) \<or> (97 \<le> byte c \<and> byte c \<le> 102)"
    using isHexByte_table unfolding list_all_iff by blast
  then show ?thesis
    by (auto simp: u8_of_char_def is_hex_digit_def is_digit_def less_eq_char_def)
qed

lemma IsHex_iff: "IsHex s \<longleftrightarrow> s \<noteq> [] \<and> list_all is_hex_digit s"
proof -
  have "IsHex_loop s \<longleftrightarrow> list_all is_hex_digit s"
    by (induction s) (simp_all add: isHexByte_iff)
  then show ?thesis by (simp add: IsHex_def)
qed

definition dns_label :: "string \<Rightarrow> bool" where
  "dns_label l \<longleftrightarrow> l \<noteq> [] \<and> length l \<le> 63 \<and> list_all ldh l
     \<and> hd l \<noteq> CHR ''-'' \<and> last l \<noteq> CHR ''-''"

definition root_trimmed :: "string \<Rightarrow> string" where
  "root_trimmed s = (if s \<noteq> [] \<and> last s = CHR ''.'' then butlast s else s)"

lemma dot_not_ldh [simp]: "\<not> ldh (CHR ''.'')"
  by (simp add: ldh_def is_lower_def is_upper_def is_digit_def)

lemma colon_not_ldh [simp]: "\<not> ldh (CHR '':'')" "\<not> ldh (CHR ''%'')" "\<not> ldh (CHR '' '')"
  by (simp_all add: ldh_def is_lower_def is_upper_def is_digit_def)

lemma IsDNSName_loop_iff:
  assumes "list_all ldh w" "w \<noteq> [] \<longrightarrow> hd w \<noteq> CHR ''-'' \<and> prev = last w"
  shows "IsDNSName_loop s prev (length w) (w = []) \<longleftrightarrow> list_all dns_label (Split (w @ s) (CHR ''.''))"
  using assms
proof (induction s arbitrary: w prev)
  case Nil
  then have "CHR ''.'' \<notin> set w" by (auto simp: list_all_iff)
  with Nil show ?case by (auto simp: Split_single dns_label_def)
next
  case (Cons c s)
  then have no_dot: "CHR ''.'' \<notin> set w" by (auto simp: list_all_iff)
  show ?case
  proof (cases "c = CHR ''.''")
    case True
    have "IsDNSName_loop s c (length ([] :: string)) True \<longleftrightarrow> list_all dns_label (Split ([] @ s) (CHR ''.''))"
      using Cons.IH [of "[]" c] by simp
    moreover have "Split (w @ c # s) (CHR ''.'') = w # Split s (CHR ''.'')"
      using True no_dot by (simp add: Split_snoc_sep)
    moreover have "dns_label w \<longleftrightarrow> \<not> (length w = 0 \<or> length w > 63 \<or> prev = CHR ''-'')"
      using Cons.prems by (auto simp: dns_label_def)
    ultimately show ?thesis using True by simp
  next
    case False
    with no_dot have "CHR ''.'' \<notin> set (w @ [c])" by auto
    from Split_append_head [OF this, of s] obtain x ls
      where ls: "Split (w @ c # s) (CHR ''.'') = (w @ c # x) # ls" by simp
    show ?thesis
    proof (cases "ldh c \<and> \<not> (w = [] \<and> c = CHR ''-'')")
      case True
      have "IsDNSName_loop s c (length (w @ [c])) (w @ [c] = []) \<longleftrightarrow>
        list_all dns_label (Split ((w @ [c]) @ s) (CHR ''.''))"
        by (rule Cons.IH) (use True Cons.prems in \<open>auto simp: hd_append\<close>)
      with True False show ?thesis by auto
    next
      case bad: False
      then have "\<not> dns_label (w @ c # x)" by (auto simp: dns_label_def)
      with bad False ls show ?thesis by auto
    qed
  qed
qed

lemma IsDNSName_loop_start: "IsDNSName_loop s p 0 True \<longleftrightarrow> list_all dns_label (Split s (CHR ''.''))"
  using IsDNSName_loop_iff [of "[]" p s] by simp

lemma set_Split: "set s \<subseteq> insert sep (\<Union> (set ` set (Split s sep)))"
proof (induction s)
  case (Cons c s)
  then show ?case by (cases "Split s sep") (auto split: if_splits)
qed simp

lemma dns_labels_chars:
  assumes "list_all dns_label (Split s (CHR ''.''))" "c \<in> set s"
  shows "ldh c \<or> c = CHR ''.''"
  using assms set_Split [of s "CHR ''.''"] by (auto simp: list_all_iff dns_label_def subset_iff)

lemma IsDNSName_iff:
  "IsDNSName s \<longleftrightarrow> root_trimmed s \<noteq> [] \<and> length (root_trimmed s) \<le> 253
     \<and> list_all dns_label (Split (root_trimmed s) (CHR ''.'')) \<and> \<not> dotted_quad (root_trimmed s)"
proof -
  let ?t = "root_trimmed s"
  have "IsDNSName s \<longleftrightarrow> ?t \<noteq> [] \<and> length ?t \<le> 253 \<and> ParseIP ?t = None
     \<and> list_all dns_label (Split ?t (CHR ''.''))"
    by (auto simp: IsDNSName_def root_trimmed_def Let_def IsDNSName_loop_start)
  moreover have "ParseIP ?t = None \<longleftrightarrow> \<not> dotted_quad ?t" if "list_all dns_label (Split ?t (CHR ''.''))"
  proof -
    have "CHR '':'' \<notin> set ?t" "CHR ''%'' \<notin> set ?t"
      using dns_labels_chars [OF that] by fastforce+
    then show ?thesis using ParseIP_plain [of ?t] by blast
  qed
  ultimately show ?thesis by blast
qed

lemma IsDNSName_chars: "IsDNSName s \<Longrightarrow> c \<in> set s \<Longrightarrow> ldh c \<or> c = CHR ''.''"
proof -
  assume s: "IsDNSName s" and c: "c \<in> set s"
  have "s = root_trimmed s \<or> s = root_trimmed s @ ''.''"
    by (auto simp: root_trimmed_def) (metis append_butlast_last_id)
  then have "set s \<subseteq> insert (CHR ''.'') (set (root_trimmed s))"
    by (metis Un_insert_right empty_set list.simps(15) set_append subset_insertI sup_bot.right_neutral order_refl)
  with c have "c \<in> set (root_trimmed s) \<or> c = CHR ''.''" by auto
  with s dns_labels_chars [of "root_trimmed s" c] show ?thesis by (auto simp: IsDNSName_iff)
qed

lemma ldh_ascii: "ldh c \<Longrightarrow> is_ascii c"
  by (auto simp: ldh_def is_lower_def is_upper_def is_digit_def is_ascii_def)

lemma dot_ascii: "is_ascii (CHR ''.'')"
  by (simp add: is_ascii_def)

lemma IsDNSName_ascii: "IsDNSName s \<Longrightarrow> list_all is_ascii s"
  using IsDNSName_chars [of s] ldh_ascii dot_ascii by (fastforce simp: list_all_iff)

lemma IsDNSName_hd_not_dot: "IsDNSName s \<Longrightarrow> hd s \<noteq> CHR ''.''"
proof
  assume s: "IsDNSName s" and dot: "hd s = CHR ''.''"
  then obtain t where t: "s = CHR ''.'' # t" by (cases s) (auto simp: IsDNSName_def)
  with s have ne: "t \<noteq> []" by (auto simp: IsDNSName_iff root_trimmed_def)
  then have "\<exists>t'. root_trimmed s = CHR ''.'' # t'" using t by (auto simp: root_trimmed_def)
  with s show False by (auto simp: IsDNSName_iff dns_label_def)
qed

text \<open>Lower-casing a name keeps it valid.\<close>

lemma ascii_lower_classes:
  "ldh (ascii_lower c) \<longleftrightarrow> ldh c" "is_digit (ascii_lower c) \<longleftrightarrow> is_digit c"
  "ascii_lower c = CHR ''.'' \<longleftrightarrow> c = CHR ''.''" "ascii_lower c = CHR ''-'' \<longleftrightarrow> c = CHR ''-''"
proof -
  have u: "is_lower (ascii_lower c) \<and> \<not> is_digit c" if "is_upper c"
    using that by (auto simp: ascii_lower_def is_upper_def is_lower_def is_digit_def)
  have l: "\<not> is_digit d" "d \<noteq> CHR ''.''" "d \<noteq> CHR ''-''" if "is_lower d \<or> is_upper d" for d
    using that by (auto simp: is_upper_def is_lower_def is_digit_def)
  show "ldh (ascii_lower c) \<longleftrightarrow> ldh c" "is_digit (ascii_lower c) \<longleftrightarrow> is_digit c"
    "ascii_lower c = CHR ''.'' \<longleftrightarrow> c = CHR ''.''" "ascii_lower c = CHR ''-'' \<longleftrightarrow> c = CHR ''-''"
    using u l [of c] l [of "ascii_lower c"] ascii_lower_id [of c] by (cases "is_upper c"; auto simp: ldh_def)+
qed

lemma Split_lower: "Split (map ascii_lower s) (CHR ''.'') = map (map ascii_lower) (Split s (CHR ''.''))"
  by (induction s) (auto simp: ascii_lower_classes split: list.splits)

lemma dns_label_lower: "dns_label (map ascii_lower l) \<longleftrightarrow> dns_label l"
  by (auto simp: dns_label_def list_all_iff ascii_lower_classes hd_map last_map)

lemma dotted_quad_chars: "dotted_quad s \<Longrightarrow> c \<in> set s \<Longrightarrow> is_digit c \<or> c = CHR ''.''"
  using set_Split [of s "CHR ''.''"] by (fastforce simp: dotted_quad_def octet_iff list_all_iff subset_iff)

lemma dotted_quad_lower: "dotted_quad (map ascii_lower s) \<longleftrightarrow> dotted_quad s"
proof -
  have "map ascii_lower s = s" if "\<And>c. c \<in> set s \<Longrightarrow> is_digit c \<or> c = CHR ''.''"
    using that by (intro map_idI ascii_lower_id) (fastforce simp: is_upper_def is_digit_def)
  then show ?thesis
    using dotted_quad_chars [of s] dotted_quad_chars [of "map ascii_lower s"]
    by (metis (no_types, lifting) ascii_lower_classes(2,3) imageI set_map)
qed

lemma IsDNSName_lower: "IsDNSName (map ascii_lower s) \<longleftrightarrow> IsDNSName s"
proof -
  have "root_trimmed (map ascii_lower s) = map ascii_lower (root_trimmed s)"
    by (auto simp: root_trimmed_def last_map ascii_lower_classes map_butlast)
  then show ?thesis
    by (simp add: IsDNSName_iff Split_lower dotted_quad_lower list_all_length dns_label_lower)
qed

section \<open>Properties\<close>

text \<open>C37: \<open>IsDNSName\<close> accepts a string exactly when, after dropping one trailing dot, it is
  non-empty, at most 253 bytes long, made of dot-separated labels of 1 to 63 letters, digits and
  hyphens that neither start nor end with a hyphen, and not an IPv4 address in dotted-quad form.\<close>

theorem IsDNSName_spec:
  "IsDNSName s \<longleftrightarrow>
     (let t = (if s \<noteq> [] \<and> last s = CHR ''.'' then butlast s else s) in
        t \<noteq> [] \<and> length t \<le> 253 \<and> list_all dns_label (Split t (CHR ''.'')) \<and> \<not> dotted_quad t)"
  by (simp add: IsDNSName_iff root_trimmed_def Let_def)

text \<open>The validators of certificate digests accept exactly the strings of the right length
  whose bytes are all hexadecimal digits (the byte test works by setting the case bit).\<close>

theorem digest_validators:
  "IsSHA224 s = (length s = 56 \<and> list_all is_hex_digit s) \<and>
   IsSHA256 s = (length s = 64 \<and> list_all is_hex_digit s) \<and>
   IsSHA384 s = (length s = 96 \<and> list_all is_hex_digit s) \<and>
   IsSHA512 s = (length s = 128 \<and> list_all is_hex_digit s)"
  by (auto simp: IsSHA224_def IsSHA256_def IsSHA384_def IsSHA512_def IsHex_iff)

end
