(* ===== verification/Cache.thy ===== *)
theory Cache
  imports Prelude "HOL-Library.AList"
begin

text \<open>
  \<^verbatim>\<open>internal/utils/cache/cache.go\<close>: the in-memory map with expiring values, and its persistence.

  \<^item> The Go map \<^verbatim>\<open>data\<close> is an association list with distinct keys; its order stands for the
    unspecified iteration order of the map, and no theorem depends on it.
  \<^item> The file system is a map from paths to contents; \<open>writeSnapshot\<close> is the sequence of system
    calls of the source, any of which may fail (the argument \<open>env\<close> says which one does, the name
    the operating system gives the temporary file, and whether the clean-up removal succeeds).
    The gob/gzip encoding is not modelled byte by byte: a file either decodes to a snapshot or it
    does not.
  \<^item> \<open>save\<close> runs in three critical sections in the source (snapshot under the read lock, write
    under \<^verbatim>\<open>persistMu\<close>, mark clean under the lock); each is a function here, and the step
    relation \<open>cstep\<close> interleaves any number of savers with the mutating operations.
\<close>

section \<open>Expiring values\<close>

record Expirable =
  ex_ExpiresAt :: time

text \<open>Both methods take the current time; the source's variadic argument only replaces the clock.\<close>

definition Expirable_Age :: "Expirable \<Rightarrow> time \<Rightarrow> u32" where
  "Expirable_Age e now =
     (let age = time_Sub now (ex_ExpiresAt e) in seconds_u32 (if age < 0 then 0 else age))"

definition Expirable_RemainingTTL :: "Expirable \<Rightarrow> time \<Rightarrow> u32" where
  "Expirable_RemainingTTL e now =
     (let ttl = time_Sub (ex_ExpiresAt e) now in seconds_u32 (if ttl < 0 then 0 else ttl))"

section \<open>The cache and its operations\<close>

type_synonym 'v cdata = "(string \<times> 'v) list"

datatype cache_error = WriteFailed string | LoadFailed string

record 'v Cache =
  data :: "'v cdata"
  filePath :: string
  generation :: u64
  persistedGeneration :: u64
  dirty :: bool
  hasPersistedGeneration :: bool
  closed :: bool
  closeErr :: "cache_error option"

datatype 'v content = Snapshot "'v cdata" | Garbage string

type_synonym 'v files = "string \<Rightarrow> 'v content option"

text \<open>Every mutation sets the dirty flag and bumps the generation.\<close>

definition touch :: "'v Cache \<Rightarrow> 'v Cache" where
  "touch c = c\<lparr>dirty := True, generation := generation c + 1\<rparr>"

definition Cache_Set :: "string \<Rightarrow> 'v \<Rightarrow> 'v Cache \<Rightarrow> 'v Cache" where
  "Cache_Set key v c = touch (c\<lparr>data := AList.update key v (data c)\<rparr>)"

definition Cache_Update :: "string \<Rightarrow> ('v option \<Rightarrow> 'v option) \<Rightarrow> 'v Cache \<Rightarrow> 'v Cache" where
  "Cache_Update key fn c =
     (case fn (map_of (data c) key) of
        None \<Rightarrow> c
      | Some next \<Rightarrow> touch (c\<lparr>data := AList.update key next (data c)\<rparr>))"

definition Cache_Get :: "string \<Rightarrow> 'v Cache \<Rightarrow> 'v option" where
  "Cache_Get key c = map_of (data c) key"

definition Cache_Remove :: "string \<Rightarrow> 'v Cache \<Rightarrow> 'v Cache" where
  "Cache_Remove key c =
     (case map_of (data c) key of
        None \<Rightarrow> c
      | Some _ \<Rightarrow> touch (c\<lparr>data := AList.delete key (data c)\<rparr>))"

definition Cache_Clear :: "'v Cache \<Rightarrow> 'v Cache" where
  "Cache_Clear c = touch (c\<lparr>data := []\<rparr>)"

definition Cache_Items :: "'v Cache \<Rightarrow> (string \<times> 'v) list" where
  "Cache_Items c = data c"

definition Cache_Len :: "'v Cache \<Rightarrow> nat" where
  "Cache_Len c = length (data c)"

section \<open>Persistence\<close>

datatype write_stage =
    MkdirAll | CreateTemp | NewGzipWriter | Encode | GzipClose | TmpSync | TmpClose | Rename
  | SyncDirectory

record write_env =
  fails_at :: "write_stage option"
  tmp_name :: string
  remove_ok :: bool

definition fails :: "write_env \<Rightarrow> write_stage \<Rightarrow> bool" where
  "fails env st \<longleftrightarrow> fails_at env = Some st"

text \<open>The stage \<open>MkdirAll\<close> is only reached for a path with a directory (\<^verbatim>\<open>dir != "."\<close>), so an
  environment that fails there describes such a path.\<close>

text \<open>The deferred clean-up that runs on every exit before the rename succeeded.\<close>

definition removeTmp :: "write_env \<Rightarrow> 'v files \<Rightarrow> 'v files" where
  "removeTmp env fs = (if remove_ok env then fs(tmp_name env := None) else fs)"

definition writeSnapshot :: "write_env \<Rightarrow> string \<Rightarrow> 'v cdata \<Rightarrow> 'v files \<Rightarrow> cache_error option \<times> 'v files" where
  "writeSnapshot env path snap fs =
     (if fails env MkdirAll then (Some (WriteFailed ''mkdir''), fs)
      else if fails env CreateTemp then (Some (WriteFailed ''create''), fs)
      else let fs1 = fs(tmp_name env \<mapsto> Garbage ''empty'') in
        if fails env NewGzipWriter then (Some (WriteFailed ''gzip''), removeTmp env fs1)
        else if fails env Encode then (Some (WriteFailed ''encode''), removeTmp env fs1)
        else if fails env GzipClose then (Some (WriteFailed ''flush''), removeTmp env fs1)
        else let fs2 = fs1(tmp_name env \<mapsto> Snapshot snap) in
          if fails env TmpSync then (Some (WriteFailed ''sync''), removeTmp env fs2)
          else if fails env TmpClose then (Some (WriteFailed ''close''), removeTmp env fs2)
          else if fails env Rename then (Some (WriteFailed ''rename''), removeTmp env fs2)
          else let fs3 = (fs2(tmp_name env := None))(path \<mapsto> Snapshot snap) in
            if fails env SyncDirectory then (Some (WriteFailed ''syncdir''), fs3)
            else (None, fs3))"

text \<open>The three critical sections of \<^verbatim>\<open>save\<close>. The first yields the snapshot and its generation,
  or nothing when there is nothing to do.\<close>

definition save_snapshot :: "bool \<Rightarrow> 'v Cache \<Rightarrow> ('v cdata \<times> u64) option" where
  "save_snapshot force c =
     (if \<not> force \<and> \<not> dirty c then None else Some (data c, generation c))"

definition persistSnapshot ::
    "write_env \<Rightarrow> 'v cdata \<Rightarrow> u64 \<Rightarrow> bool \<Rightarrow> 'v Cache \<Rightarrow> 'v files
      \<Rightarrow> cache_error option \<times> 'v Cache \<times> 'v files" where
  "persistSnapshot env snap gen force c fs =
     (if hasPersistedGeneration c
         \<and> (gen < persistedGeneration c \<or> gen = persistedGeneration c \<and> \<not> force)
      then (None, c, fs)
      else (case writeSnapshot env (filePath c) snap fs of
              (Some e, fs') \<Rightarrow> (Some e, c, fs')
            | (None, fs') \<Rightarrow>
                (None, c\<lparr>persistedGeneration := gen, hasPersistedGeneration := True\<rparr>, fs')))"

definition save_mark :: "u64 \<Rightarrow> 'v Cache \<Rightarrow> 'v Cache" where
  "save_mark gen c = (if generation c = gen then c\<lparr>dirty := False\<rparr> else c)"

definition save ::
    "write_env \<Rightarrow> bool \<Rightarrow> 'v Cache \<Rightarrow> 'v files \<Rightarrow> cache_error option \<times> 'v Cache \<times> 'v files" where
  "save env force c fs =
     (case save_snapshot force c of
        None \<Rightarrow> (None, c, fs)
      | Some (snap, gen) \<Rightarrow>
          (case persistSnapshot env snap gen force c fs of
             (Some e, c', fs') \<Rightarrow> (Some e, c', fs')
           | (None, c', fs') \<Rightarrow> (None, save_mark gen c', fs')))"

definition Cache_Save ::
    "write_env \<Rightarrow> 'v Cache \<Rightarrow> 'v files \<Rightarrow> cache_error option \<times> 'v Cache \<times> 'v files" where
  "Cache_Save env c fs = save env False c fs"

definition Cache_ForceSave ::
    "write_env \<Rightarrow> 'v Cache \<Rightarrow> 'v files \<Rightarrow> cache_error option \<times> 'v Cache \<times> 'v files" where
  "Cache_ForceSave env c fs = save env True c fs"

definition Cache_Purge ::
    "write_env \<Rightarrow> 'v Cache \<Rightarrow> 'v files \<Rightarrow> cache_error option \<times> 'v Cache \<times> 'v files" where
  "Cache_Purge env c fs = Cache_Save env (Cache_Clear c) fs"

text \<open>\<^verbatim>\<open>CloseWithError\<close>: the final save runs once; later calls return its recorded result.\<close>

definition CloseWithError ::
    "write_env \<Rightarrow> 'v Cache \<Rightarrow> 'v files \<Rightarrow> cache_error option \<times> 'v Cache \<times> 'v files" where
  "CloseWithError env c fs =
     (if closed c then (closeErr c, c, fs)
      else (case Cache_Save env c fs of
              (e, c', fs') \<Rightarrow> (e, c'\<lparr>closed := True, closeErr := e\<rparr>, fs')))"

text \<open>\<^verbatim>\<open>Close\<close> only logs the error. \<^verbatim>\<open>periodicSave\<close> saves at every tick until it is told to quit, and logs errors: one environment
  per tick.\<close>

definition Cache_Close :: "write_env \<Rightarrow> 'v Cache \<Rightarrow> 'v files \<Rightarrow> 'v Cache \<times> 'v files" where
  "Cache_Close env c fs = snd (CloseWithError env c fs)"

fun periodicSave :: "write_env list \<Rightarrow> 'v Cache \<Rightarrow> 'v files \<Rightarrow> 'v Cache \<times> 'v files" where
  "periodicSave [] c fs = (c, fs)"
| "periodicSave (tick # ticks) c fs =
     (case Cache_Save tick c fs of (err, c', fs') \<Rightarrow> periodicSave ticks c' fs')"

text \<open>\<^verbatim>\<open>load\<close>: a missing file leaves the fresh cache as it is.\<close>

definition load :: "'v files \<Rightarrow> 'v Cache \<Rightarrow> cache_error option \<times> 'v Cache" where
  "load fs c =
     (case fs (filePath c) of
        None \<Rightarrow> (None, c)
      | Some (Garbage e) \<Rightarrow> (Some (LoadFailed e), c)
      | Some (Snapshot stored) \<Rightarrow>
          (None, c\<lparr>data := stored, dirty := False, hasPersistedGeneration := True\<rparr>))"

definition Cache_New :: "string \<Rightarrow> 'v files \<Rightarrow> 'v Cache" where
  "Cache_New path fs =
     (let c = \<lparr>data = [], filePath = path, generation = 0, persistedGeneration = 0, dirty = False,
               hasPersistedGeneration = False, closed = False, closeErr = None\<rparr> in
      case load fs c of
        (None, c') \<Rightarrow> c'
      | (Some _, c') \<Rightarrow> touch c')"


section \<open>The cache as a keyed store\<close>

text \<open>
  What the policy server relies on: a finite map with point updates and point deletions whose
  entries can be listed without repetition. The lemmas on deleting many keys are what the
  clean-up and eviction passes of the server need.
\<close>

locale keyed_store =
  fixes lookup :: "'m \<Rightarrow> string \<Rightarrow> 'v option"
    and put :: "string \<Rightarrow> 'v \<Rightarrow> 'm \<Rightarrow> 'm"
    and del :: "string \<Rightarrow> 'm \<Rightarrow> 'm"
    and entries :: "'m \<Rightarrow> (string \<times> 'v) list"
    and invar :: "'m \<Rightarrow> bool"
  assumes lookup_put: "invar m \<Longrightarrow> lookup (put k v m) = (lookup m)(k \<mapsto> v)"
    and lookup_del: "invar m \<Longrightarrow> lookup (del k m) = (lookup m)(k := None)"
    and lookup_entries: "invar m \<Longrightarrow> lookup m = map_of (entries m)"
    and distinct_entries: "invar m \<Longrightarrow> distinct (map fst (entries m))"
    and invar_put: "invar m \<Longrightarrow> invar (put k v m)"
    and invar_del: "invar m \<Longrightarrow> invar (del k m)"
begin

lemma in_entries_iff: "invar m \<Longrightarrow> (k, v) \<in> set (entries m) \<longleftrightarrow> lookup m k = Some v"
  by (simp add: lookup_entries distinct_entries)

lemma length_entries: "invar m \<Longrightarrow> length (entries m) = card (dom (lookup m))"
  using distinct_card [OF distinct_entries, of m]
  by (simp add: lookup_entries dom_map_of_conv_image_fst)

lemma finite_dom_lookup: "invar m \<Longrightarrow> finite (dom (lookup m))"
  by (simp add: lookup_entries finite_dom_map_of)

lemma invar_fold_del: "invar m \<Longrightarrow> invar (fold del ks m)"
  by (induction ks arbitrary: m) (simp_all add: invar_del)

lemma lookup_fold_del:
  "invar m \<Longrightarrow> lookup (fold del ks m) k = (if k \<in> set ks then None else lookup m k)"
  by (induction ks arbitrary: m) (simp_all add: invar_del lookup_del)

lemma length_fold_del:
  assumes "invar m" "distinct ks" "set ks \<subseteq> dom (lookup m)"
  shows "length (entries (fold del ks m)) = length (entries m) - length ks"
proof -
  have "dom (lookup (fold del ks m)) = dom (lookup m) - set ks"
    using lookup_fold_del [OF assms(1)] by (auto simp: dom_def)
  then have "length (entries (fold del ks m)) = card (dom (lookup m) - set ks)"
    by (simp add: length_entries invar_fold_del assms(1))
  also have "\<dots> = card (dom (lookup m)) - card (set ks)"
    using assms(3) by (intro card_Diff_subset) simp_all
  also have "\<dots> = length (entries m) - length ks"
    by (simp add: length_entries assms(1) distinct_card [OF assms(2)])
  finally show ?thesis .
qed

lemma length_put_bounds:
  assumes "invar m"
  shows "length (entries m) \<le> length (entries (put k v m))"
    and "length (entries (put k v m)) \<le> Suc (length (entries m))"
proof -
  have dom: "dom (lookup (put k v m)) = insert k (dom (lookup m))"
    by (simp add: lookup_put assms)
  have fin: "finite (dom (lookup m))"
    using assms by (rule finite_dom_lookup)
  have len: "length (entries (put k v m)) = card (insert k (dom (lookup m)))"
    by (simp add: length_entries invar_put assms flip: dom)
  show "length (entries m) \<le> length (entries (put k v m))"
    unfolding len length_entries [OF assms] using fin by (intro card_mono) auto
  show "length (entries (put k v m)) \<le> Suc (length (entries m))"
    unfolding len length_entries [OF assms] using fin by (simp add: card_insert_if)
qed

end

definition cache_wf :: "'v Cache \<Rightarrow> bool" where
  "cache_wf c \<longleftrightarrow> distinct (map fst (data c))"

lemma touch_simps [simp]:
  "data (touch c) = data c" "filePath (touch c) = filePath c" "dirty (touch c)"
  "generation (touch c) = generation c + 1" "persistedGeneration (touch c) = persistedGeneration c"
  "hasPersistedGeneration (touch c) = hasPersistedGeneration c" "closed (touch c) = closed c"
  by (simp_all add: touch_def)

lemma delete_not_key: "map_of xs k = None \<Longrightarrow> AList.delete k xs = xs"
  by (induction xs) (auto split: if_splits)

lemma Cache_Remove_data [simp]: "data (Cache_Remove k c) = AList.delete k (data c)"
  by (auto simp: Cache_Remove_def delete_not_key split: option.splits)

interpretation store: keyed_store "\<lambda>c k. Cache_Get k c" Cache_Set Cache_Remove Cache_Items cache_wf
proof
  fix m :: "'v Cache" and k v
  show "(\<lambda>j. Cache_Get j (Cache_Set k v m)) = (\<lambda>j. Cache_Get j m)(k \<mapsto> v)"
    by (simp add: fun_eq_iff Cache_Get_def Cache_Set_def update_conv')
  show "(\<lambda>j. Cache_Get j (Cache_Remove k m)) = (\<lambda>j. Cache_Get j m)(k := None)"
    by (simp add: fun_eq_iff Cache_Get_def delete_conv')
  show "(\<lambda>j. Cache_Get j m) = map_of (Cache_Items m)"
    by (simp add: fun_eq_iff Cache_Get_def Cache_Items_def)
  assume "cache_wf m"
  then show "distinct (map fst (Cache_Items m))" "cache_wf (Cache_Set k v m)" "cache_wf (Cache_Remove k m)"
    by (simp_all add: cache_wf_def Cache_Items_def Cache_Set_def distinct_update distinct_delete)
qed

lemma cache_wf_Update: "cache_wf c \<Longrightarrow> cache_wf (Cache_Update k fn c)"
  by (auto simp: cache_wf_def Cache_Update_def distinct_update split: option.splits)

lemma cache_wf_Clear [simp]: "cache_wf (Cache_Clear c)"
  by (simp add: cache_wf_def Cache_Clear_def)

lemma Cache_Get_Update:
  "Cache_Get j (Cache_Update k fn c) =
     (case fn (Cache_Get k c) of None \<Rightarrow> Cache_Get j c
      | Some v \<Rightarrow> if j = k then Some v else Cache_Get j c)"
  by (auto simp: Cache_Get_def Cache_Update_def update_conv' split: option.splits)

lemma Cache_Len_dom: "cache_wf c \<Longrightarrow> Cache_Len c = card (dom (\<lambda>k. Cache_Get k c))"
  using store.length_entries [of c] by (simp add: Cache_Len_def Cache_Items_def)


section \<open>Atomic replacement of the file\<close>

lemma writeSnapshot_path:
  assumes "tmp_name env \<noteq> path" "writeSnapshot env path snap fs = (r, fs')"
  shows "fs' path = (if r = None \<or> fails env SyncDirectory then Some (Snapshot snap) else fs path)"
  using assms
  by (auto simp: writeSnapshot_def Let_def fails_def removeTmp_def split: if_splits)

lemma writeSnapshot_frame:
  assumes "writeSnapshot env path snap fs = (r, fs')" "p \<noteq> path" "p \<noteq> tmp_name env"
  shows "fs' p = fs p"
  using assms
  by (auto simp: writeSnapshot_def Let_def fails_def removeTmp_def split: if_splits)

section \<open>Concurrent savers\<close>

datatype 'v saver = Idle | Snapped "'v cdata" u64 bool | Written u64

text \<open>\<open>hist\<close> and \<open>muts\<close> are ghost state: the data at each generation and the number of mutations
  so far.\<close>

record 'v csys =
  cache :: "'v Cache"
  disk :: "'v files"
  savers :: "nat \<Rightarrow> 'v saver"
  hist :: "u64 \<Rightarrow> 'v cdata"
  muts :: nat

definition mutation :: "'v Cache \<Rightarrow> 'v Cache \<Rightarrow> bool" where
  "mutation c c' \<longleftrightarrow> (\<exists>k v. c' = Cache_Set k v c) \<or> (\<exists>k fn. c' = Cache_Update k fn c)
     \<or> (\<exists>k. c' = Cache_Remove k c) \<or> c' = Cache_Clear c"

lemma mutation_cases:
  assumes "mutation c c'"
  obtains "c' = c" | d where "c' = touch (c\<lparr>data := d\<rparr>)"
  using assms
  by (auto simp: mutation_def Cache_Set_def Cache_Update_def Cache_Remove_def Cache_Clear_def
      split: option.splits)

inductive cstep :: "'v csys \<Rightarrow> 'v csys \<Rightarrow> bool" where
  mutate: "mutation (cache s) c' \<Longrightarrow>
     cstep s (s\<lparr>cache := c', hist := (hist s)(generation c' := data c'),
                muts := muts s + (if generation c' = generation (cache s) then 0 else 1)\<rparr>)"
| snap: "savers s i = Idle \<Longrightarrow> save_snapshot force (cache s) = Some (d, g) \<Longrightarrow>
     cstep s (s\<lparr>savers := (savers s)(i := Snapped d g force)\<rparr>)"
| persist: "savers s i = Snapped d g force \<Longrightarrow> tmp_name env \<noteq> filePath (cache s) \<Longrightarrow>
     persistSnapshot env d g force (cache s) (disk s) = (None, c', fs') \<Longrightarrow>
     cstep s (s\<lparr>cache := c', disk := fs', savers := (savers s)(i := Written g)\<rparr>)"
| persist_fail: "savers s i = Snapped d g force \<Longrightarrow> tmp_name env \<noteq> filePath (cache s) \<Longrightarrow>
     persistSnapshot env d g force (cache s) (disk s) = (Some e, c', fs') \<Longrightarrow>
     cstep s (s\<lparr>cache := c', disk := fs', savers := (savers s)(i := Idle)\<rparr>)"
| mark: "savers s i = Written g \<Longrightarrow>
     cstep s (s\<lparr>cache := save_mark g (cache s), savers := (savers s)(i := Idle)\<rparr>)"

definition cinit :: "string \<Rightarrow> 'v files \<Rightarrow> 'v csys" where
  "cinit path fs = (let c = Cache_New path fs in
     \<lparr>cache = c, disk = fs, savers = (\<lambda>_. Idle), hist = (\<lambda>_. data c), muts = unat (generation c)\<rparr>)"

text \<open>What a restart would load from the file system.\<close>

definition readback :: "string \<Rightarrow> 'v files \<Rightarrow> 'v cdata option" where
  "readback path fs = (case fs path of
     None \<Rightarrow> Some [] | Some (Snapshot d) \<Rightarrow> Some d | Some (Garbage _) \<Rightarrow> None)"

definition on_disk :: "'v csys \<Rightarrow> u64 \<Rightarrow> bool" where
  "on_disk s g \<longleftrightarrow> g \<le> generation (cache s)
     \<and> disk s (filePath (cache s)) = Some (Snapshot (hist s g))"

definition cinv :: "'v csys \<Rightarrow> bool" where
  "cinv s \<longleftrightarrow>
     unat (generation (cache s)) = muts s
     \<and> hist s (generation (cache s)) = data (cache s)
     \<and> (\<forall>i d g f. savers s i = Snapped d g f \<longrightarrow> d = hist s g \<and> g \<le> generation (cache s))
     \<and> (\<forall>i g. savers s i = Written g \<longrightarrow> hasPersistedGeneration (cache s) \<and> g \<le> persistedGeneration (cache s))
     \<and> persistedGeneration (cache s) \<le> generation (cache s)
     \<and> (hasPersistedGeneration (cache s) \<longrightarrow> (\<exists>g \<ge> persistedGeneration (cache s). on_disk s g))
     \<and> (\<not> dirty (cache s) \<longrightarrow>
          (if hasPersistedGeneration (cache s) then persistedGeneration (cache s) = generation (cache s)
           else generation (cache s) = 0)
          \<and> readback (filePath (cache s)) (disk s) = Some (data (cache s)))"

lemma cinvI:
  assumes "unat (generation (cache s)) = muts s"
    and "hist s (generation (cache s)) = data (cache s)"
    and "\<And>i d g f. savers s i = Snapped d g f \<Longrightarrow> d = hist s g \<and> g \<le> generation (cache s)"
    and "\<And>i g. savers s i = Written g \<Longrightarrow> hasPersistedGeneration (cache s) \<and> g \<le> persistedGeneration (cache s)"
    and "persistedGeneration (cache s) \<le> generation (cache s)"
    and "hasPersistedGeneration (cache s) \<Longrightarrow> \<exists>g \<ge> persistedGeneration (cache s). on_disk s g"
    and "\<not> dirty (cache s) \<Longrightarrow>
          (if hasPersistedGeneration (cache s) then persistedGeneration (cache s) = generation (cache s)
           else generation (cache s) = 0)
          \<and> readback (filePath (cache s)) (disk s) = Some (data (cache s))"
  shows "cinv s"
  using assms unfolding cinv_def by blast

lemma cinv_snapD:
  "cinv s \<Longrightarrow> savers s i = Snapped d g f \<Longrightarrow> d = hist s g \<and> g \<le> generation (cache s)"
  by (auto simp: cinv_def)

lemma cinv_writtenD:
  "cinv s \<Longrightarrow> savers s i = Written g \<Longrightarrow> hasPersistedGeneration (cache s) \<and> g \<le> persistedGeneration (cache s)"
  by (auto simp: cinv_def)

lemma cinv_diskD:
  "cinv s \<Longrightarrow> hasPersistedGeneration (cache s) \<Longrightarrow> \<exists>g \<ge> persistedGeneration (cache s). on_disk s g"
  by (auto simp: cinv_def)

lemma cinv_cleanD:
  "cinv s \<Longrightarrow> \<not> dirty (cache s) \<Longrightarrow>
     (if hasPersistedGeneration (cache s) then persistedGeneration (cache s) = generation (cache s)
      else generation (cache s) = 0)
     \<and> readback (filePath (cache s)) (disk s) = Some (data (cache s))"
  by (auto simp: cinv_def)

lemmas cinv_dests = cinv_snapD cinv_writtenD cinv_diskD cinv_cleanD

lemma cinv_basic:
  "cinv s \<Longrightarrow> unat (generation (cache s)) = muts s"
  "cinv s \<Longrightarrow> hist s (generation (cache s)) = data (cache s)"
  "cinv s \<Longrightarrow> persistedGeneration (cache s) \<le> generation (cache s)"
  by (auto simp: cinv_def)

lemma cinv_init: "cinv (cinit path fs)"
proof (cases "fs path")
  case None
  then show ?thesis
    by (intro cinvI) (simp_all add: cinit_def Cache_New_def load_def Let_def readback_def)
next
  case (Some ct)
  then show ?thesis
    by (cases ct; intro cinvI)
      (auto simp: cinit_def Cache_New_def load_def Let_def readback_def touch_def on_disk_def)
qed

lemma generation_step: "unat (g :: u64) + 1 < 2 ^ 64 \<Longrightarrow> g < g + 1 \<and> unat (g + 1) = unat g + 1"
  by (simp add: unat_word_ariths word_less_nat_alt)

lemma cinv_mutate:
  assumes inv: "cinv s" and m: "mutation (cache s) c'"
    and s': "s' = s\<lparr>cache := c', hist := (hist s)(generation c' := data c'),
                muts := muts s + (if generation c' = generation (cache s) then 0 else 1)\<rparr>"
    and bound: "muts s' < 2 ^ 64"
  shows "cinv s'"
  using m
proof (cases rule: mutation_cases)
  case 1
  then have "s' = s" using s' cinv_basic(2) [OF inv] by (auto simp: fun_upd_idem)
  with inv show ?thesis by simp
next
  case (2 d)
  let ?g = "generation (cache s)"
  have gen: "generation c' = ?g + 1" by (simp add: 2)
  have "unat ?g + 1 < 2 ^ 64" using bound s' gen cinv_basic(1) [OF inv] by simp
  from generation_step [OF this] have lt: "?g < ?g + 1" and un: "unat (?g + 1) = unat ?g + 1" by auto
  have old: "hist s' g = hist s g \<and> g \<le> generation (cache s')" if "g \<le> ?g" for g
    using that lt s' gen by auto
  show ?thesis
  proof (rule cinvI)
    show "unat (generation (cache s')) = muts s'" "hist s' (generation (cache s')) = data (cache s')"
      using un cinv_basic(1) [OF inv] by (simp_all add: s' 2)
    show "d' = hist s' g \<and> g \<le> generation (cache s')" if "savers s' i = Snapped d' g f" for i d' g f
      using cinv_snapD [OF inv, of i d' g f] old [of g] that by (simp add: s')
    show "hasPersistedGeneration (cache s') \<and> g \<le> persistedGeneration (cache s')"
      if "savers s' i = Written g" for i g
      using cinv_writtenD [OF inv, of i g] that by (simp add: s' 2)
    show "persistedGeneration (cache s') \<le> generation (cache s')"
      using cinv_basic(3) [OF inv] lt by (simp add: s' 2)
    show "\<exists>g \<ge> persistedGeneration (cache s'). on_disk s' g" if "hasPersistedGeneration (cache s')"
    proof -
      have "hasPersistedGeneration (cache s)" using that by (simp add: s' 2)
      from cinv_diskD [OF inv this]
      obtain g where g: "g \<ge> persistedGeneration (cache s)" "on_disk s g" by blast
      then have "on_disk s' g" using old [of g] by (auto simp: on_disk_def s' 2)
      with g show ?thesis by (auto simp: s' 2)
    qed
  qed (simp add: s' 2)
qed

text \<open>A write either leaves the file alone or replaces it by the snapshot.\<close>

lemma persistSnapshot_cases:
  assumes "persistSnapshot env d g force c fs = (r, c', fs')" "tmp_name env \<noteq> filePath c"
  obtains (skipped) "r = None" "c' = c" "fs' = fs" "hasPersistedGeneration c" "g \<le> persistedGeneration c"
  | (written) "r = None" "c' = c\<lparr>persistedGeneration := g, hasPersistedGeneration := True\<rparr>"
      "fs' (filePath c) = Some (Snapshot d)" "hasPersistedGeneration c \<longrightarrow> persistedGeneration c \<le> g"
  | (failed) e where "r = Some e" "c' = c" "fs' (filePath c) = fs (filePath c)"
  | (renamed) e where "r = Some e" "c' = c" "fs' (filePath c) = Some (Snapshot d)"
      "hasPersistedGeneration c \<longrightarrow> persistedGeneration c \<le> g"
proof (cases "hasPersistedGeneration c \<and> (g < persistedGeneration c \<or> g = persistedGeneration c \<and> \<not> force)")
  case True
  with assms show ?thesis by (intro skipped) (auto simp: persistSnapshot_def)
next
  case False
  obtain r' f where w: "writeSnapshot env (filePath c) d fs = (r', f)" by fastforce
  with False assms writeSnapshot_path [OF assms(2) w] show ?thesis
    by (cases r'; cases "fails env SyncDirectory")
      (auto simp: persistSnapshot_def intro: written failed renamed)
qed

lemma cinv_persist:
  assumes inv: "cinv s" and snapped: "savers s i = Snapped d g force"
    and tmp: "tmp_name env \<noteq> filePath (cache s)"
    and p: "persistSnapshot env d g force (cache s) (disk s) = (r, c', fs')"
    and s': "s' = s\<lparr>cache := c', disk := fs',
                     savers := (savers s)(i := if r = None then Written g else Idle)\<rparr>"
  shows "cinv s'"
proof -
  let ?c = "cache s"
  have dg: "d = hist s g" "g \<le> generation ?c" using cinv_snapD [OF inv snapped] by auto
  note base = cinv_basic [OF inv]
  have sv: "savers s' j = Snapped d' g' f \<Longrightarrow> savers s j = Snapped d' g' f" for j d' g' f
    by (auto simp: s' split: if_splits)
  have clean_eq: "g = generation ?c" if "\<not> dirty ?c" "hasPersistedGeneration ?c \<longrightarrow> persistedGeneration ?c \<le> g"
    using cinv_cleanD [OF inv that(1)] that(2) dg(2) by (auto split: if_splits)
  from p tmp show ?thesis
  proof (cases rule: persistSnapshot_cases)
    case skipped
    show ?thesis
      by (intro cinvI)
        (use skipped base cinv_dests [OF inv] in \<open>auto simp: s' on_disk_def split: if_splits\<close>)
  next
    case written
    have "on_disk s' g" using dg written by (simp add: on_disk_def s')
    moreover have "g' \<le> g" if "savers s j = Written g'" for j g'
      using cinv_writtenD [OF inv that] written(4) by auto
    ultimately show ?thesis
      using written base clean_eq dg cinv_snapD [OF inv]
      by (intro cinvI) (auto simp: s' readback_def split: if_splits)
  next
    case failed
    show ?thesis
      by (intro cinvI)
        (use failed base cinv_dests [OF inv] in \<open>auto simp: s' on_disk_def readback_def split: if_splits\<close>)
  next
    case renamed
    have "on_disk s' g" using dg renamed by (simp add: on_disk_def s')
    then show ?thesis
      using renamed base clean_eq dg cinv_snapD [OF inv] cinv_writtenD [OF inv] cinv_cleanD [OF inv]
      by (intro cinvI) (auto simp: s' readback_def split: if_splits)
  qed
qed

lemma cinv_mark:
  assumes inv: "cinv s" and w: "savers s i = Written g"
    and s': "s' = s\<lparr>cache := save_mark g (cache s), savers := (savers s)(i := Idle)\<rparr>"
  shows "cinv s'"
proof -
  let ?c = "cache s"
  have p: "hasPersistedGeneration ?c" "g \<le> persistedGeneration ?c"
    using cinv_writtenD [OF inv w] by auto
  note base = cinv_basic [OF inv] p(1)
  have top: "persistedGeneration ?c = generation ?c \<and> readback (filePath ?c) (disk s) = Some (data ?c)"
    if "generation ?c = g"
  proof -
    have eq: "persistedGeneration ?c = generation ?c" using p base that by auto
    obtain h where "h \<ge> persistedGeneration ?c" "on_disk s h" using cinv_diskD [OF inv p(1)] by auto
    then have "on_disk s (generation ?c)" using eq by (auto simp: on_disk_def)
    with base eq show ?thesis by (simp add: on_disk_def readback_def)
  qed
  show ?thesis
    by (intro cinvI)
      (use base top cinv_dests [OF inv] in \<open>auto simp: s' save_mark_def on_disk_def split: if_splits\<close>)
qed

lemma cinv_step: "cstep s s' \<Longrightarrow> cinv s \<Longrightarrow> muts s' < 2 ^ 64 \<Longrightarrow> cinv s'"
proof (induction rule: cstep.induct)
  case (mutate s c')
  then show ?case by (blast intro: cinv_mutate)
next
  case (snap s i force d g)
  then show ?case
    by (intro cinvI)
      (use cinv_basic [OF snap(3)] cinv_dests [OF snap(3)] in
        \<open>auto simp: save_snapshot_def on_disk_def split: if_splits\<close>)
next
  case (persist s i d g force env c' fs')
  then show ?case by (auto intro: cinv_persist [OF _ persist(1-3)])
next
  case (persist_fail s i d g force env e c' fs')
  then show ?case by (auto intro: cinv_persist [OF _ persist_fail(1-3)])
next
  case (mark s i g)
  then show ?case by (blast intro: cinv_mark)
qed

lemma muts_step: "cstep s s' \<Longrightarrow> muts s \<le> muts s'"
  by (induction rule: cstep.induct) auto

lemma muts_steps: "cstep\<^sup>*\<^sup>* s s' \<Longrightarrow> muts s \<le> muts s'"
  by (induction rule: rtranclp_induct) (auto dest: muts_step)

lemma cinv_steps: "cstep\<^sup>*\<^sup>* s s' \<Longrightarrow> cinv s \<Longrightarrow> muts s' < 2 ^ 64 \<Longrightarrow> cinv s'"
proof (induction rule: rtranclp_induct)
  case (step t u)
  then have "muts t < 2 ^ 64" using muts_step [OF step(2)] by simp
  with step show ?case by (blast intro: cinv_step)
qed simp


text \<open>Along a run the persisted generation never decreases, and what is on disk never falls
  behind it.\<close>

lemma persisted_step:
  assumes "cstep s s'" "hasPersistedGeneration (cache s)"
  shows "hasPersistedGeneration (cache s') \<and> persistedGeneration (cache s) \<le> persistedGeneration (cache s')
     \<and> filePath (cache s') = filePath (cache s)"
  using assms
proof (induction rule: cstep.induct)
  case (mutate s c')
  from mutate(1) show ?case by (cases rule: mutation_cases) (use mutate in auto)
next
  case (persist s i d g force env c' fs')
  from persist(3,2) show ?case by (cases rule: persistSnapshot_cases) (use persist in auto)
next
  case (persist_fail s i d g force env e c' fs')
  from persist_fail(3,2) show ?case by (cases rule: persistSnapshot_cases) (use persist_fail in auto)
qed (auto simp: save_mark_def)

lemma persisted_steps:
  assumes "cstep\<^sup>*\<^sup>* s s'" "hasPersistedGeneration (cache s)"
  shows "hasPersistedGeneration (cache s') \<and> persistedGeneration (cache s) \<le> persistedGeneration (cache s')"
  using assms
proof (induction rule: rtranclp_induct)
  case (step t u)
  then show ?case using persisted_step [OF step(2)] by auto
qed simp

lemma data_Cache_New: "readback path fs = Some d \<Longrightarrow> data (Cache_New path fs) = d"
  by (auto simp: readback_def Cache_New_def load_def Let_def split: option.splits content.splits)

text \<open>A concrete run for the witnesses: one entry is stored and saved.\<close>

lemma demo_run:
  "\<exists>s. cstep\<^sup>*\<^sup>* (cinit ''c.db'' (\<lambda>_. None :: nat content option)) s \<and> muts s = 1
     \<and> \<not> dirty (cache s) \<and> hasPersistedGeneration (cache s) \<and> persistedGeneration (cache s) = 1
     \<and> data (cache s) = [(''example.org'', 7)]"
proof -
  let ?s0 = "cinit ''c.db'' (\<lambda>_. None :: nat content option)"
  let ?env = "\<lparr>fails_at = None, tmp_name = ''c.db.tmp-1'', remove_ok = True\<rparr>"
  define c1 where "c1 = Cache_Set ''example.org'' 7 (cache ?s0)"
  define s1 where "s1 = ?s0\<lparr>cache := c1, hist := (hist ?s0)(generation c1 := data c1),
    muts := muts ?s0 + (if generation c1 = generation (cache ?s0) then 0 else 1)\<rparr>"
  define s2 where "s2 = s1\<lparr>savers := (savers s1)(0 := Snapped (data c1) (generation c1) False)\<rparr>"
  define c3 where "c3 = c1\<lparr>persistedGeneration := generation c1, hasPersistedGeneration := True\<rparr>"
  define f3 where "f3 = snd (writeSnapshot ?env ''c.db'' (data c1) (disk s2))"
  define s3 where "s3 = s2\<lparr>cache := c3, disk := f3, savers := (savers s2)(0 := Written (generation c1))\<rparr>"
  define s4 where "s4 = s3\<lparr>cache := save_mark (generation c1) (cache s3), savers := (savers s3)(0 := Idle)\<rparr>"
  note defs = c1_def s1_def s2_def c3_def f3_def s3_def s4_def cinit_def Cache_New_def load_def
    Cache_Set_def touch_def save_mark_def
  have r1: "cstep ?s0 s1" unfolding s1_def
    by (rule cstep.mutate) (auto simp: mutation_def c1_def)
  have r2: "cstep s1 s2" unfolding s2_def
    by (rule cstep.snap) (simp_all add: defs save_snapshot_def)
  have r3: "cstep s2 s3" unfolding s3_def
    by (rule cstep.persist [where env = ?env and force = False])
      (simp_all add: defs persistSnapshot_def writeSnapshot_def fails_def)
  have r4: "cstep s3 s4" unfolding s4_def
    by (rule cstep.mark) (simp add: defs)
  have "cstep\<^sup>*\<^sup>* ?s0 s4" using r1 r2 r3 r4
    by (meson converse_rtranclp_into_rtranclp rtranclp.rtrancl_refl)
  moreover have "muts s4 = 1 \<and> \<not> dirty (cache s4) \<and> hasPersistedGeneration (cache s4)
     \<and> persistedGeneration (cache s4) = 1 \<and> data (cache s4) = [(''example.org'', 7)]"
    by (simp add: defs)
  ultimately show ?thesis by blast
qed

section \<open>Properties\<close>

text \<open>C8: under any interleaving of mutations and concurrent saves (including saves that fail at any
  system call), whenever the dirty flag is clear the file on disk holds exactly the current data:
  a restart would load it back. And a generation that was persisted is never overwritten by an older one: at any later
  moment of the run, the file holds the data of some generation at least as recent as the one recorded as
  persisted earlier. The run is bounded by the 64-bit generation counter.\<close>

theorem clean_cache_is_durable:
  assumes "cstep\<^sup>*\<^sup>* (cinit path fs) s" "cstep\<^sup>*\<^sup>* s s'" "muts s' < 2 ^ 64"
  shows "(\<not> dirty (cache s') \<longrightarrow> data (Cache_New (filePath (cache s')) (disk s')) = data (cache s')) \<and>
    (hasPersistedGeneration (cache s) \<longrightarrow> (\<exists>g. persistedGeneration (cache s) \<le> g \<and> on_disk s' g))"
proof -
  have inv: "cinv s'" using assms by (blast intro: cinv_steps [OF _ cinv_init] rtranclp_trans)
  have "data (Cache_New (filePath (cache s')) (disk s')) = data (cache s')" if "\<not> dirty (cache s')"
    using cinv_cleanD [OF inv that] by (intro data_Cache_New) simp
  moreover have "\<exists>g. persistedGeneration (cache s) \<le> g \<and> on_disk s' g" if "hasPersistedGeneration (cache s)"
    using persisted_steps [OF assms(2) that] cinv_diskD [OF inv] by (meson order_trans)
  ultimately show ?thesis by blast
qed

theorem clean_cache_is_durable_witness:
  "\<exists>(s :: nat csys) g. \<not> dirty (cache s) \<and> data (Cache_New (filePath (cache s)) (disk s)) = [(''example.org'', 7)] \<and>
     1 \<le> g \<and> on_disk s g"
proof -
  obtain s where s: "cstep\<^sup>*\<^sup>* (cinit ''c.db'' (\<lambda>_. None :: nat content option)) s" "muts s = 1"
    "\<not> dirty (cache s)" "hasPersistedGeneration (cache s)" "persistedGeneration (cache s) = 1"
    "data (cache s) = [(''example.org'', 7)]"
    using demo_run by blast
  from clean_cache_is_durable [OF s(1) rtranclp.rtrancl_refl] s show ?thesis by auto
qed

text \<open>C35: replacing the cache file is atomic: whatever system call fails, the file holds either its
  old content or the complete new snapshot; on success it holds the new snapshot, and no other
  file but the temporary one is touched.\<close>

theorem writeSnapshot_atomic:
  assumes "tmp_name env \<noteq> path" "writeSnapshot env path snap fs = (r, fs')"
  shows "(fs' path = fs path \<or> fs' path = Some (Snapshot snap))
    \<and> (r = None \<longrightarrow> fs' path = Some (Snapshot snap))
    \<and> (\<forall>p. p \<noteq> path \<and> p \<noteq> tmp_name env \<longrightarrow> fs' p = fs p)
    \<and> (r = None \<or> remove_ok env \<longrightarrow> fs (tmp_name env) = None \<longrightarrow> fs' (tmp_name env) = None)"
proof -
  have "r = None \<or> remove_ok env \<longrightarrow> fs (tmp_name env) = None \<longrightarrow> fs' (tmp_name env) = None"
    using assms by (auto simp: writeSnapshot_def Let_def fails_def removeTmp_def split: if_splits)
  then show ?thesis
    using writeSnapshot_path [OF assms] writeSnapshot_frame [OF assms(2)] by auto
qed


theorem writeSnapshot_atomic_witness:
  "let env = \<lparr>fails_at = Some SyncDirectory, tmp_name = ''c.db.tmp-1'', remove_ok = True\<rparr>;
       fs = (\<lambda>_. None)(''c.db'' := Some (Snapshot [(''a'', 1 :: nat)])) in
   fst (writeSnapshot env ''c.db'' [] fs) \<noteq> None \<and>
   (snd (writeSnapshot env ''c.db'' [] fs) ''c.db'' = Some (Snapshot [(''a'', 1)])
    \<or> snd (writeSnapshot env ''c.db'' [] fs) ''c.db'' = Some (Snapshot []))"
proof -
  let ?env = "\<lparr>fails_at = Some SyncDirectory, tmp_name = ''c.db.tmp-1'', remove_ok = True\<rparr>"
  let ?fs = "(\<lambda>_. None)(''c.db'' := Some (Snapshot [(''a'', 1 :: nat)]))"
  have "writeSnapshot ?env ''c.db'' [] ?fs =
    (fst (writeSnapshot ?env ''c.db'' [] ?fs), snd (writeSnapshot ?env ''c.db'' [] ?fs))" by simp
  from writeSnapshot_atomic [OF _ this]
  have "snd (writeSnapshot ?env ''c.db'' [] ?fs) ''c.db'' = ?fs ''c.db''
    \<or> snd (writeSnapshot ?env ''c.db'' [] ?fs) ''c.db'' = Some (Snapshot [])" by simp
  moreover have "fst (writeSnapshot ?env ''c.db'' [] ?fs) \<noteq> None"
    by (simp add: writeSnapshot_def fails_def Let_def)
  ultimately show ?thesis by (simp add: Let_def)
qed

end
