(* ===== verification/Policy.thy ===== *)
theory Policy
  imports Cache Go_Strings
begin

text \<open>
  The policy state of \<^verbatim>\<open>internal/server.go\<close>: the two cached branches of a domain (DANE and
  MTA-STS), which policy is served from them, how lookup results are merged into them and when a
  branch is looked up again.

  A \<^verbatim>\<open>*CacheStruct\<close> is a \<open>CacheStruct option\<close> (\<open>None\<close> is nil). Methods take the current time as
  an argument; the random expiry jitter \<^verbatim>\<open>rand.Uint32N(20)\<close> is the argument \<open>jitter\<close>. The lookups
  \<^verbatim>\<open>checkDanePolicy\<close> and \<^verbatim>\<open>checkMtaStsPolicy\<close>, function variables in the source, are arguments.
\<close>

section \<open>Constants\<close>

definition CACHE_NOTFOUND_TTL :: u32 where "CACHE_NOTFOUND_TTL = 1800"
definition CACHE_MIN_TTL :: u32 where "CACHE_MIN_TTL = 180"
definition CACHE_MAX_TTL :: u32 where "CACHE_MAX_TTL = 2592000"
definition CACHE_MAX_AGE :: u32 where "CACHE_MAX_AGE = 1800"
definition POLICY_BRANCH_RECHECK :: duration where
  "POLICY_BRANCH_RECHECK = 24 * 60 * 60 * nanos_per_second"
definition MTA_STS_FETCH_RETRY_INTERVAL :: duration where
  "MTA_STS_FETCH_RETRY_INTERVAL = 5 * 60 * nanos_per_second"

lemmas policy_consts = CACHE_NOTFOUND_TTL_def CACHE_MIN_TTL_def CACHE_MAX_TTL_def CACHE_MAX_AGE_def
  POLICY_BRANCH_RECHECK_def MTA_STS_FETCH_RETRY_INTERVAL_def PREFETCH_INTERVAL_def

section \<open>Branches and cache entries\<close>

record PolicyBranch =
  pb_ExpiresAt :: time
  pb_Policy :: string
  pb_Report :: string
  pb_TTL :: u32

definition emptyBranch :: PolicyBranch where
  "emptyBranch = \<lparr>pb_ExpiresAt = 0, pb_Policy = [], pb_Report = [], pb_TTL = 0\<rparr>"

record CacheStruct =
  cs_DaneLastAttempt :: time
  cs_MtaStsLastAttempt :: time
  cs_Expirable :: "Expirable option"
  cs_Policy :: string
  cs_Report :: string
  cs_Dane :: PolicyBranch
  cs_MtaSts :: PolicyBranch
  cs_TTL :: u32
  cs_Counter :: u32

definition HasData :: "PolicyBranch \<Rightarrow> bool" where
  "HasData p \<longleftrightarrow> pb_TTL p \<noteq> 0 \<or> \<not> time_IsZero (pb_ExpiresAt p)"

definition branch_RemainingTTL :: "PolicyBranch \<Rightarrow> time \<Rightarrow> u32" where
  "branch_RemainingTTL p now =
     (if \<not> HasData p then 0
      else let ttl = time_Sub (pb_ExpiresAt p) now in
        if ttl < 0 then 0 else seconds_u32 ttl)"

definition branch_Age :: "PolicyBranch \<Rightarrow> time \<Rightarrow> u32" where
  "branch_Age p now =
     (if \<not> HasData p then 0
      else let age = time_Sub now (pb_ExpiresAt p) in
        if age < 0 then 0 else seconds_u32 age)"

definition hasBranches :: "CacheStruct option \<Rightarrow> bool" where
  "hasBranches c = (case c of None \<Rightarrow> False | Some e \<Rightarrow> HasData (cs_Dane e) \<or> HasData (cs_MtaSts e))"

definition cs_RemainingTTL :: "CacheStruct option \<Rightarrow> time \<Rightarrow> u32" where
  "cs_RemainingTTL c now = (case c of
     None \<Rightarrow> 0
   | Some e \<Rightarrow>
       if \<not> hasBranches c then
         (case cs_Expirable e of None \<Rightarrow> 0 | Some x \<Rightarrow> Expirable_RemainingTTL x now)
       else max (branch_RemainingTTL (cs_Dane e) now) (branch_RemainingTTL (cs_MtaSts e) now))"

definition cs_Age :: "CacheStruct option \<Rightarrow> time \<Rightarrow> u32" where
  "cs_Age c now = (case c of
     None \<Rightarrow> 0
   | Some e \<Rightarrow>
       if \<not> hasBranches c then
         (case cs_Expirable e of None \<Rightarrow> 0 | Some x \<Rightarrow> Expirable_Age x now)
       else let daneAge = branch_Age (cs_Dane e) now; mtaStsAge = branch_Age (cs_MtaSts e) now in
         if \<not> HasData (cs_Dane e) then mtaStsAge
         else if \<not> HasData (cs_MtaSts e) then daneAge
         else min daneAge mtaStsAge)"

definition noPolicyOnly :: "CacheStruct option \<Rightarrow> bool" where
  "noPolicyOnly c = (case c of
     None \<Rightarrow> False
   | Some e \<Rightarrow>
       if \<not> hasBranches c then cs_Policy e = []
       else if HasData (cs_Dane e) \<and> pb_Policy (cs_Dane e) \<noteq> [] then False
       else if HasData (cs_MtaSts e) \<and> pb_Policy (cs_MtaSts e) \<noteq> [] then False
       else HasData (cs_Dane e) \<or> HasData (cs_MtaSts e))"

definition policyStateEmpty :: "CacheStruct option \<Rightarrow> bool" where
  "policyStateEmpty c = (case c of
     None \<Rightarrow> False
   | Some e \<Rightarrow> cs_Policy e = [] \<and> cs_Report e = [] \<and> cs_TTL e = 0
                 \<and> \<not> HasData (cs_Dane e) \<and> \<not> HasData (cs_MtaSts e))"

definition zeroCacheStruct :: CacheStruct where
  "zeroCacheStruct = \<lparr>cs_DaneLastAttempt = 0, cs_MtaStsLastAttempt = 0, cs_Expirable = None,
     cs_Policy = [], cs_Report = [], cs_Dane = emptyBranch, cs_MtaSts = emptyBranch, cs_TTL = 0,
     cs_Counter = 0\<rparr>"

definition statsOnlyCacheEntry :: "u32 \<Rightarrow> CacheStruct" where
  "statsOnlyCacheEntry counter =
     zeroCacheStruct\<lparr>cs_Expirable := Some \<lparr>ex_ExpiresAt = 0\<rparr>, cs_Counter := counter\<rparr>"

definition cloneCacheStruct :: "CacheStruct option \<Rightarrow> CacheStruct" where
  "cloneCacheStruct c = (case c of
     None \<Rightarrow> zeroCacheStruct\<lparr>cs_Expirable := Some \<lparr>ex_ExpiresAt = 0\<rparr>\<rparr>
   | Some e \<Rightarrow>
       (case cs_Expirable e of
          None \<Rightarrow> e\<lparr>cs_Expirable := Some \<lparr>ex_ExpiresAt = 0\<rparr>\<rparr>
        | Some x \<Rightarrow> e\<lparr>cs_Expirable := Some x\<rparr>))"

definition cacheStructHasPolicy :: "CacheStruct option \<Rightarrow> bool" where
  "cacheStructHasPolicy c = (case c of
     None \<Rightarrow> False
   | Some e \<Rightarrow> cs_Policy e \<noteq> [] \<or> pb_Policy (cs_Dane e) \<noteq> [] \<or> pb_Policy (cs_MtaSts e) \<noteq> [])"

section \<open>Serving from the cache\<close>

definition minPositive :: "u32 \<Rightarrow> u32 \<Rightarrow> u32" where
  "minPositive a b = (if a = 0 then b else if b = 0 then a else min a b)"

text \<open>\<^verbatim>\<open>selectCachedPolicy\<close>: policy, report, lifetime and whether the entry can be served.\<close>

definition selectCachedPolicy :: "CacheStruct option \<Rightarrow> time \<Rightarrow> string \<times> string \<times> u32 \<times> bool" where
  "selectCachedPolicy c now = (case c of
     None \<Rightarrow> ([], [], 0, False)
   | Some e \<Rightarrow>
       if \<not> hasBranches c then
         (case cs_Expirable e of
            None \<Rightarrow> ([], [], 0, False)
          | Some x \<Rightarrow>
              if Expirable_RemainingTTL x now = 0 then ([], [], 0, False)
              else if cs_Policy e = ''dane'' \<or> cs_Policy e = ''dane-only''
              then (cs_Policy e, cs_Report e, Expirable_RemainingTTL x now, True)
              else ([], [], 0, False))
       else let daneTTL = branch_RemainingTTL (cs_Dane e) now;
                mtaStsTTL = branch_RemainingTTL (cs_MtaSts e) now in
         if daneTTL = 0 then ([], [], 0, False)
         else if pb_Policy (cs_Dane e) \<noteq> []
         then (pb_Policy (cs_Dane e), pb_Report (cs_Dane e), daneTTL, True)
         else if mtaStsTTL \<noteq> 0
         then (pb_Policy (cs_MtaSts e), pb_Report (cs_MtaSts e), minPositive daneTTL mtaStsTTL, True)
         else ([], [], 0, False))"

section \<open>Lookup results\<close>

definition normalizePolicyTTL :: "string \<Rightarrow> u32 \<Rightarrow> u32 \<times> bool" where
  "normalizePolicyTTL policy ttl0 =
     (if policy = ''TEMP'' then (0, False)
      else let ttl = (if policy = [] \<and> ttl0 = 0 then CACHE_NOTFOUND_TTL else ttl0) in
        (if ttl < CACHE_MIN_TTL then CACHE_MIN_TTL
         else if ttl > CACHE_MAX_TTL then CACHE_MAX_TTL else ttl, True))"

definition branchFromResult :: "string \<Rightarrow> string \<Rightarrow> u32 \<Rightarrow> PolicyBranch" where
  "branchFromResult policy report ttl0 =
     (case normalizePolicyTTL policy ttl0 of (ttl, ok) \<Rightarrow>
        if \<not> ok then emptyBranch
        else emptyBranch\<lparr>pb_Policy := policy, pb_Report := report, pb_TTL := ttl\<rparr>)"

definition mtaStsBranchFromResult :: "string \<Rightarrow> string \<Rightarrow> u32 \<Rightarrow> PolicyBranch" where
  "mtaStsBranchFromResult policy report ttl0 =
     (if policy = ''TEMP'' then emptyBranch
      else let ttl1 = (if policy = [] \<and> ttl0 = 0 then CACHE_NOTFOUND_TTL else ttl0);
               ttl = (if ttl1 > CACHE_MAX_TTL then CACHE_MAX_TTL else ttl1) in
        emptyBranch\<lparr>pb_Policy := policy, pb_Report := report, pb_TTL := ttl\<rparr>)"

definition expireBranch :: "u32 \<Rightarrow> PolicyBranch \<Rightarrow> time \<Rightarrow> PolicyBranch" where
  "expireBranch jitter branch now =
     (if \<not> HasData branch then branch
      else branch\<lparr>pb_ExpiresAt := time_Add now (secs (pb_TTL branch + jitter))\<rparr>)"

definition expireMtaStsBranch :: "PolicyBranch \<Rightarrow> time \<Rightarrow> PolicyBranch" where
  "expireMtaStsBranch branch now =
     (if \<not> HasData branch then branch
      else branch\<lparr>pb_ExpiresAt := time_Add now (secs (pb_TTL branch))\<rparr>)"

definition selectedPolicyFromBranches ::
    "PolicyBranch \<Rightarrow> PolicyBranch \<Rightarrow> bool \<Rightarrow> string \<times> string \<times> u32" where
  "selectedPolicyFromBranches dane mtaSts daneTemp =
     (if daneTemp then (''TEMP'', [], 0)
      else if HasData dane then
        (if pb_Policy dane \<noteq> [] then (pb_Policy dane, pb_Report dane, pb_TTL dane)
         else if HasData mtaSts
         then (pb_Policy mtaSts, pb_Report mtaSts, minPositive (pb_TTL dane) (pb_TTL mtaSts))
         else ([], [], 0))
      else (''TEMP'', [], 0))"

record domainResult =
  dr_Policy :: string
  dr_Report :: string
  dr_Dane :: PolicyBranch
  dr_MtaSts :: PolicyBranch
  dr_TTL :: u32
  dr_DaneTemp :: bool
  dr_DaneAttempted :: bool
  dr_MtaStsAttempted :: bool

definition policyBranchRecheckTTL :: u32 where
  "policyBranchRecheckTTL = word_of_int (POLICY_BRANCH_RECHECK div nanos_per_second)"

text \<open>\<^verbatim>\<open>mergeCacheResult\<close> in the four blocks of the source: the DANE branch, the MTA-STS branch, the
  attempt times, and the selected policy kept for old cache files and dumps.\<close>

definition mergeDane :: "u32 \<Rightarrow> domainResult \<Rightarrow> time \<Rightarrow> CacheStruct \<Rightarrow> CacheStruct" where
  "mergeDane jitter result now cs =
     (if HasData (dr_Dane result) then
        let mtaStsPolicy = (if HasData (dr_MtaSts result) then pb_Policy (dr_MtaSts result)
                            else pb_Policy (cs_MtaSts cs));
            dane = (if pb_Policy (dr_Dane result) = [] \<and> mtaStsPolicy \<noteq> []
                    then (dr_Dane result)\<lparr>pb_TTL := policyBranchRecheckTTL\<rparr> else dr_Dane result)
        in cs\<lparr>cs_Dane := expireBranch jitter dane now\<rparr>
      else cs)"

definition mergeMtaSts :: "domainResult \<Rightarrow> time \<Rightarrow> CacheStruct \<Rightarrow> CacheStruct" where
  "mergeMtaSts result now cs =
     (if HasData (dr_MtaSts result) then
        let danePolicy = (if HasData (dr_Dane result) then pb_Policy (dr_Dane result)
                          else pb_Policy (cs_Dane cs));
            mtaSts = (if pb_Policy (dr_MtaSts result) = [] \<and> danePolicy \<noteq> []
                      then (dr_MtaSts result)\<lparr>pb_TTL := policyBranchRecheckTTL\<rparr>
                      else dr_MtaSts result)
        in cs\<lparr>cs_MtaSts := expireMtaStsBranch mtaSts now\<rparr>
      else cs)"

definition mergeAttempts :: "domainResult \<Rightarrow> time \<Rightarrow> CacheStruct \<Rightarrow> CacheStruct" where
  "mergeAttempts result now cs0 =
     (let cs1 = (if dr_DaneAttempted result then cs0\<lparr>cs_DaneLastAttempt := now\<rparr> else cs0)
      in if dr_MtaStsAttempted result then cs1\<lparr>cs_MtaStsLastAttempt := now\<rparr> else cs1)"

definition mergeSelected :: "domainResult \<Rightarrow> time \<Rightarrow> CacheStruct \<Rightarrow> CacheStruct" where
  "mergeSelected result now cs =
     (case selectCachedPolicy (Some cs) now of (policy, report, ttl, ok) \<Rightarrow>
        if ok then
          cs\<lparr>cs_Policy := policy, cs_Report := report, cs_TTL := ttl,
             cs_Expirable := map_option (\<lambda>x. x\<lparr>ex_ExpiresAt := time_Add now (secs ttl)\<rparr>)
                               (cs_Expirable cs)\<rparr>
        else cs\<lparr>cs_Policy := dr_Policy result, cs_Report := dr_Report result,
                cs_TTL := dr_TTL result\<rparr>)"

definition mergeCacheResult ::
    "u32 \<Rightarrow> CacheStruct option \<Rightarrow> domainResult \<Rightarrow> time \<Rightarrow> CacheStruct" where
  "mergeCacheResult jitter c result now =
     mergeSelected result now (mergeAttempts result now (mergeMtaSts result now
       (mergeDane jitter result now (cloneCacheStruct c))))"

section \<open>Deciding what to look up\<close>

definition freshBranchForSelection :: "PolicyBranch \<Rightarrow> time \<Rightarrow> PolicyBranch \<times> bool" where
  "freshBranchForSelection branch now =
     (let ttl = branch_RemainingTTL branch now in
      if ttl = 0 then (emptyBranch, False) else (branch\<lparr>pb_TTL := ttl\<rparr>, True))"

definition daneBranchForSelection :: "CacheStruct \<Rightarrow> time \<Rightarrow> PolicyBranch \<times> bool" where
  "daneBranchForSelection c now =
     (case freshBranchForSelection (cs_Dane c) now of (branch, ok) \<Rightarrow>
        if ok then (branch, True)
        else if HasData (cs_Dane c) \<and> pb_Policy (cs_Dane c) = [] \<and> pb_Policy (cs_MtaSts c) \<noteq> []
                \<and> \<not> time_IsZero (cs_DaneLastAttempt c) then
          (let nextAttempt = time_Add (cs_DaneLastAttempt c) POLICY_BRANCH_RECHECK in
           if time_Before now nextAttempt
           then ((cs_Dane c)\<lparr>pb_TTL := seconds_u32 (time_Sub nextAttempt now),
                             pb_ExpiresAt := nextAttempt\<rparr>, True)
           else (emptyBranch, False))
        else (emptyBranch, False))"

definition branchForQuerySuppression :: "PolicyBranch \<Rightarrow> u32 \<Rightarrow> PolicyBranch" where
  "branchForQuerySuppression branch renewBefore =
     (if renewBefore \<noteq> 0 \<and> HasData branch \<and> pb_TTL branch \<le> renewBefore then emptyBranch else branch)"

definition beforeBranchRecheck :: "time \<Rightarrow> time \<Rightarrow> u32 \<Rightarrow> bool" where
  "beforeBranchRecheck lastAttempt now renewBefore =
     (if time_IsZero lastAttempt then False
      else let nextAttempt = time_Add lastAttempt POLICY_BRANCH_RECHECK in
        if renewBefore \<noteq> 0 then time_Before (time_Add now (secs renewBefore)) nextAttempt
        else time_Before now nextAttempt)"

definition shouldQueryDane ::
    "CacheStruct option \<Rightarrow> PolicyBranch \<Rightarrow> PolicyBranch \<Rightarrow> time \<Rightarrow> u32 \<Rightarrow> bool" where
  "shouldQueryDane c daneForSelection mtaStsForSelection now renewBefore =
     (if HasData daneForSelection then False
      else case c of
        None \<Rightarrow> True
      | Some e \<Rightarrow>
          if pb_Policy (cs_MtaSts e) \<noteq> [] \<and> HasData (cs_Dane e) \<and> pb_Policy (cs_Dane e) = []
             \<and> beforeBranchRecheck (cs_DaneLastAttempt e) now renewBefore
          then False else True)"

definition shouldQueryMtaSts ::
    "CacheStruct option \<Rightarrow> PolicyBranch \<Rightarrow> PolicyBranch \<Rightarrow> time \<Rightarrow> u32 \<Rightarrow> bool" where
  "shouldQueryMtaSts c daneForSelection mtaStsForSelection now renewBefore =
     (if HasData mtaStsForSelection then False
      else case c of
        None \<Rightarrow> True
      | Some e \<Rightarrow>
          if \<not> time_IsZero (cs_MtaStsLastAttempt e)
             \<and> time_Before now (time_Add (cs_MtaStsLastAttempt e) MTA_STS_FETCH_RETRY_INTERVAL)
          then False
          else if pb_Policy (cs_Dane e) \<noteq> []
                  \<and> beforeBranchRecheck (cs_MtaStsLastAttempt e) now renewBefore
          then False else True)"

record queryBranchOptions =
  renewBefore :: u32
  prefetch :: bool

type_synonym dane_check = "string \<Rightarrow> bool \<Rightarrow> string \<times> u32"
type_synonym mtasts_check = "string \<Rightarrow> bool \<Rightarrow> string \<times> string \<times> u32"

text \<open>The two lookups run concurrently and write disjoint variables, so running one after the other
  gives the same result.\<close>

definition queryDomainBranchesWithOptions ::
    "dane_check \<Rightarrow> mtasts_check \<Rightarrow> string \<Rightarrow> CacheStruct option \<Rightarrow> time \<Rightarrow> queryBranchOptions \<Rightarrow> domainResult" where
  "queryDomainBranchesWithOptions checkDanePolicy checkMtaStsPolicy domain c now opts =
     (let mtaStsForSelected0 = (case c of None \<Rightarrow> emptyBranch
                                | Some e \<Rightarrow> fst (freshBranchForSelection (cs_MtaSts e) now));
          daneForSelection0 = (case c of None \<Rightarrow> emptyBranch
                               | Some e \<Rightarrow> fst (daneBranchForSelection e now));
          mtaStsForQuery = (case c of None \<Rightarrow> emptyBranch
                            | Some e \<Rightarrow> branchForQuerySuppression mtaStsForSelected0 (renewBefore opts));
          daneForQuery = (case c of None \<Rightarrow> emptyBranch
                          | Some e \<Rightarrow> branchForQuerySuppression daneForSelection0 (renewBefore opts));
          queryDane = shouldQueryDane c daneForQuery mtaStsForQuery now (renewBefore opts);
          queryMtaSts = shouldQueryMtaSts c daneForQuery mtaStsForQuery now (renewBefore opts);
          dane = (if queryDane then checkDanePolicy domain True else ([], 0));
          danePolicy = fst dane;
          daneTTL = snd dane;
          mtaSts = (if queryMtaSts then checkMtaStsPolicy domain True else ([], [], 0));
          mtaStsPol = fst mtaSts;
          mtaStsRpt = fst (snd mtaSts);
          mtaStsTTL = snd (snd mtaSts);
          daneTemp = (danePolicy = ''TEMP'');
          refreshedDane = (if queryDane then branchFromResult danePolicy [] daneTTL else emptyBranch);
          daneForSelection = (if queryDane then refreshedDane else daneForSelection0);
          candidate = mtaStsBranchFromResult mtaStsPol mtaStsRpt mtaStsTTL;
          livePolicyUnavailable = (mtaStsPol = ''TEMP'' \<or> (mtaStsPol = [] \<and> mtaStsTTL = 0));
          takeCandidate = (queryMtaSts \<and> (\<not> livePolicyUnavailable \<or> \<not> HasData mtaStsForSelected0));
          refreshedMtaSts = (if takeCandidate then candidate else emptyBranch);
          mtaStsForSelected = (if takeCandidate then candidate else mtaStsForSelected0);
          selected = selectedPolicyFromBranches daneForSelection mtaStsForSelected daneTemp
      in \<lparr>dr_Policy = fst selected, dr_Report = fst (snd selected), dr_Dane = refreshedDane,
          dr_MtaSts = refreshedMtaSts, dr_TTL = snd (snd selected), dr_DaneTemp = daneTemp,
          dr_DaneAttempted = queryDane, dr_MtaStsAttempted = queryMtaSts\<rparr>)"

definition queryDomainBranches ::
    "dane_check \<Rightarrow> mtasts_check \<Rightarrow> string \<Rightarrow> CacheStruct option \<Rightarrow> time \<Rightarrow> domainResult" where
  "queryDomainBranches cd cm domain c now =
     queryDomainBranchesWithOptions cd cm domain c now \<lparr>renewBefore = 0, prefetch = False\<rparr>"

definition queryDomainOnceImpl :: "dane_check \<Rightarrow> mtasts_check \<Rightarrow> string \<Rightarrow> time \<Rightarrow> domainResult" where
  "queryDomainOnceImpl cd cm domain now = queryDomainBranches cd cm domain None now"

definition refreshDomainOnceImpl ::
    "dane_check \<Rightarrow> mtasts_check \<Rightarrow> string \<Rightarrow> CacheStruct option \<Rightarrow> time \<Rightarrow> domainResult" where
  "refreshDomainOnceImpl cd cm domain c now = queryDomainBranches cd cm domain c now"

definition prefetchDomainOnceImpl ::
    "dane_check \<Rightarrow> mtasts_check \<Rightarrow> string \<Rightarrow> CacheStruct option \<Rightarrow> time \<Rightarrow> domainResult" where
  "prefetchDomainOnceImpl cd cm domain c now =
     queryDomainBranchesWithOptions cd cm domain c now
       \<lparr>renewBefore = PREFETCH_INTERVAL, prefetch = True\<rparr>"


section \<open>Lifetimes\<close>

lemma seconds_u32_nonzero_ge: "0 \<le> d \<Longrightarrow> seconds_u32 d \<noteq> 0 \<Longrightarrow> nanos_per_second \<le> d"
  by (rule ccontr) (simp add: seconds_u32_def nanos_per_second_def zdiv_eq_0_iff)

lemma time_Sub_lower: "0 < d \<Longrightarrow> d \<le> time_Sub t u \<Longrightarrow> u + d \<le> t"
  by (auto simp: time_Sub_def)

lemma branch_RemainingTTL_nonzero:
  assumes "branch_RemainingTTL b now \<noteq> 0"
  shows "HasData b" "now + nanos_per_second \<le> pb_ExpiresAt b"
proof -
  let ?d = "time_Sub (pb_ExpiresAt b) now"
  from assms have *: "HasData b" "0 \<le> ?d" "seconds_u32 ?d \<noteq> 0"
    by (auto simp: branch_RemainingTTL_def Let_def split: if_splits)
  then show "HasData b" by simp
  from seconds_u32_nonzero_ge [OF *(2,3)] show "now + nanos_per_second \<le> pb_ExpiresAt b"
    by (rule time_Sub_lower [rotated]) (simp add: nanos_per_second_def)
qed

text \<open>The longest lifetime that a 32-bit number of seconds can tell from zero.\<close>

definition horizon :: duration where
  "horizon = 4294967296 * nanos_per_second"

lemma branch_RemainingTTL_uint:
  assumes "HasData b" "now \<le> pb_ExpiresAt b" "pb_ExpiresAt b < now + horizon"
  shows "uint (branch_RemainingTTL b now) = (pb_ExpiresAt b - now) div nanos_per_second"
proof -
  have d: "time_Sub (pb_ExpiresAt b) now = pb_ExpiresAt b - now"
    using assms by (intro time_Sub_exact) (simp_all add: horizon_def nanos_per_second_def)
  have "branch_RemainingTTL b now = seconds_u32 (pb_ExpiresAt b - now)"
    using assms by (simp add: branch_RemainingTTL_def d)
  also have "uint \<dots> = (pb_ExpiresAt b - now) div nanos_per_second"
    using assms by (intro uint_seconds_u32) (simp_all add: horizon_def)
  finally show ?thesis .
qed

lemma branch_RemainingTTL_expired: "pb_ExpiresAt b < now + nanos_per_second \<Longrightarrow> branch_RemainingTTL b now = 0"
  using branch_RemainingTTL_nonzero(2) [of b now] by fastforce

lemma branch_RemainingTTL_eq_0_iff:
  assumes "HasData b" "pb_ExpiresAt b < now + horizon"
  shows "branch_RemainingTTL b now = 0 \<longleftrightarrow> pb_ExpiresAt b < now + nanos_per_second"
proof
  assume z: "branch_RemainingTTL b now = 0"
  show "pb_ExpiresAt b < now + nanos_per_second"
  proof (rule ccontr)
    assume n: "\<not> pb_ExpiresAt b < now + nanos_per_second"
    then have "now \<le> pb_ExpiresAt b" by (simp add: nanos_per_second_def)
    with assms branch_RemainingTTL_uint [of b now] z
    have "(pb_ExpiresAt b - now) div nanos_per_second = 0" by simp
    with n \<open>now \<le> pb_ExpiresAt b\<close> show False by (simp add: nanos_per_second_def zdiv_eq_0_iff)
  qed
qed (rule branch_RemainingTTL_expired)

lemma HasData_emptyBranch [simp]: "\<not> HasData emptyBranch"
  by (simp add: HasData_def emptyBranch_def time_IsZero_def)

lemma branch_RemainingTTL_empty [simp]: "branch_RemainingTTL emptyBranch now = 0"
  by (simp add: branch_RemainingTTL_def)

lemma branch_RemainingTTL_no_data: "\<not> HasData b \<Longrightarrow> branch_RemainingTTL b now = 0"
  by (simp add: branch_RemainingTTL_def)

section \<open>The serving rule\<close>

text \<open>
  The abstract contract: each branch is unknown, known to have no policy, or a policy. A DANE
  policy is served as it is; MTA-STS is served only when DANE is known to have no policy; nothing
  is served while DANE is unknown.
\<close>

datatype branch_view = Unknown | NoPolicy | PolicyIs string string

fun serve :: "branch_view \<Rightarrow> branch_view \<Rightarrow> branch_view" where
  "serve Unknown mtaSts = Unknown"
| "serve NoPolicy mtaSts = mtaSts"
| "serve (PolicyIs p r) mtaSts = PolicyIs p r"

definition policy_view :: "string \<Rightarrow> string \<Rightarrow> branch_view" where
  "policy_view p r = (if p = [] then NoPolicy else PolicyIs p r)"

definition cached_view :: "PolicyBranch \<Rightarrow> time \<Rightarrow> branch_view" where
  "cached_view b now =
     (if branch_RemainingTTL b now = 0 then Unknown else policy_view (pb_Policy b) (pb_Report b))"

definition result_view :: "PolicyBranch \<Rightarrow> branch_view" where
  "result_view b = (if HasData b then policy_view (pb_Policy b) (pb_Report b) else Unknown)"

definition selection_view :: "string \<times> string \<times> u32 \<times> bool \<Rightarrow> branch_view" where
  "selection_view sel = (case sel of (p, r, ttl, ok) \<Rightarrow> if ok then policy_view p r else Unknown)"

lemma selection_view_cached:
  "hasBranches (Some e) \<Longrightarrow>
   selection_view (selectCachedPolicy (Some e) now) =
     serve (cached_view (cs_Dane e) now) (cached_view (cs_MtaSts e) now)"
  by (simp add: selectCachedPolicy_def selection_view_def cached_view_def policy_view_def Let_def)

lemma minPositive_pos: "a \<noteq> 0 \<Longrightarrow> minPositive a b \<noteq> 0"
  by (simp add: minPositive_def min_def)

lemma minPositive_le: "a \<noteq> 0 \<Longrightarrow> b \<noteq> 0 \<Longrightarrow> minPositive a b \<le> a \<and> minPositive a b \<le> b"
  by (simp add: minPositive_def)

lemma selectCachedPolicy_served:
  assumes "hasBranches (Some e)" "selectCachedPolicy (Some e) now = (p, r, ttl, True)"
  shows "ttl \<noteq> 0" "ttl \<le> branch_RemainingTTL (cs_Dane e) now"
    and "pb_Policy (cs_Dane e) = [] \<Longrightarrow>
      branch_RemainingTTL (cs_MtaSts e) now \<noteq> 0 \<and> ttl \<le> branch_RemainingTTL (cs_MtaSts e) now"
  using assms minPositive_pos minPositive_le
  by (auto simp: selectCachedPolicy_def Let_def split: if_splits)

lemma not_hasBranches_served:
  "\<not> hasBranches (Some e) \<Longrightarrow> selectCachedPolicy (Some e) now = (p, r, ttl, True) \<Longrightarrow>
   ttl \<noteq> 0 \<and> (p = ''dane'' \<or> p = ''dane-only'')"
  by (auto simp: selectCachedPolicy_def split: if_splits option.splits)

lemma selectedPolicyFromBranches_view:
  "selectedPolicyFromBranches dane mtaSts temp = (p, r, ttl) \<Longrightarrow>
   (if temp then Unknown else serve (result_view dane) (result_view mtaSts)) =
     (if temp \<or> \<not> HasData dane then Unknown
      else if pb_Policy dane = [] \<and> \<not> HasData mtaSts then Unknown else policy_view p r)"
  by (auto simp: selectedPolicyFromBranches_def result_view_def policy_view_def split: if_splits)

section \<open>Bounds on lookup results\<close>

lemma normalizePolicyTTL_bounds:
  "normalizePolicyTTL policy ttl0 = (ttl, True) \<Longrightarrow> CACHE_MIN_TTL \<le> ttl \<and> ttl \<le> CACHE_MAX_TTL"
  by (auto simp: normalizePolicyTTL_def Let_def policy_consts split: if_splits)

lemma normalizePolicyTTL_ok: "snd (normalizePolicyTTL policy ttl0) \<longleftrightarrow> policy \<noteq> ''TEMP''"
  by (simp add: normalizePolicyTTL_def Let_def)

lemma branchFromResult_simps:
  "policy = ''TEMP'' \<Longrightarrow> branchFromResult policy report ttl = emptyBranch"
  "policy \<noteq> ''TEMP'' \<Longrightarrow> HasData (branchFromResult policy report ttl)"
  "policy \<noteq> ''TEMP'' \<Longrightarrow> pb_Policy (branchFromResult policy report ttl) = policy"
  "policy \<noteq> ''TEMP'' \<Longrightarrow> pb_Report (branchFromResult policy report ttl) = report"
  "pb_ExpiresAt (branchFromResult policy report ttl) = 0"
  by (auto simp: branchFromResult_def normalizePolicyTTL_def HasData_def emptyBranch_def Let_def
      policy_consts)

lemma branchFromResult_TTL:
  "policy \<noteq> ''TEMP'' \<Longrightarrow> CACHE_MIN_TTL \<le> pb_TTL (branchFromResult policy report ttl)
     \<and> pb_TTL (branchFromResult policy report ttl) \<le> CACHE_MAX_TTL"
  by (auto simp: branchFromResult_def normalizePolicyTTL_def emptyBranch_def Let_def policy_consts)

lemma mtaStsBranchFromResult_simps:
  "policy = ''TEMP'' \<Longrightarrow> mtaStsBranchFromResult policy report ttl = emptyBranch"
  "policy \<noteq> ''TEMP'' \<Longrightarrow> pb_Policy (mtaStsBranchFromResult policy report ttl) = policy"
  "policy \<noteq> ''TEMP'' \<Longrightarrow> pb_Report (mtaStsBranchFromResult policy report ttl) = report"
  "pb_ExpiresAt (mtaStsBranchFromResult policy report ttl) = 0"
  "HasData (mtaStsBranchFromResult policy report ttl) \<longleftrightarrow> policy \<noteq> ''TEMP'' \<and> (policy = [] \<or> ttl \<noteq> 0)"
  by (auto simp: mtaStsBranchFromResult_def HasData_def emptyBranch_def Let_def policy_consts
      time_IsZero_def)

lemma mtaStsBranchFromResult_TTL:
  "pb_TTL (mtaStsBranchFromResult policy report ttl) \<le> CACHE_MAX_TTL"
  "policy \<noteq> [] \<Longrightarrow> pb_TTL (mtaStsBranchFromResult policy report ttl) \<le> ttl"
  by (auto simp: mtaStsBranchFromResult_def emptyBranch_def Let_def policy_consts)

lemma policyBranchRecheckTTL_val: "policyBranchRecheckTTL = 86400"
  by (simp add: policyBranchRecheckTTL_def POLICY_BRANCH_RECHECK_def nanos_per_second_def)


section \<open>What a lookup returns\<close>

definition cachedMtaSts :: "CacheStruct option \<Rightarrow> time \<Rightarrow> PolicyBranch" where
  "cachedMtaSts c now = (case c of None \<Rightarrow> emptyBranch
     | Some e \<Rightarrow> fst (freshBranchForSelection (cs_MtaSts e) now))"

definition cachedDane :: "CacheStruct option \<Rightarrow> time \<Rightarrow> PolicyBranch" where
  "cachedDane c now = (case c of None \<Rightarrow> emptyBranch
     | Some e \<Rightarrow> fst (daneBranchForSelection e now))"

definition unavailable :: "string \<times> string \<times> u32 \<Rightarrow> bool" where
  "unavailable m \<longleftrightarrow> fst m = ''TEMP'' \<or> (fst m = [] \<and> snd (snd m) = 0)"

definition mtaStsCandidate :: "string \<times> string \<times> u32 \<Rightarrow> PolicyBranch" where
  "mtaStsCandidate m = mtaStsBranchFromResult (fst m) (fst (snd m)) (snd (snd m))"

lemma query_fields:
  fixes cd cm domain c now opts
  defines "R \<equiv> queryDomainBranchesWithOptions cd cm domain c now opts"
  defines "m \<equiv> cm domain True"
  defines "taken \<equiv> dr_MtaStsAttempted R \<and> (\<not> unavailable m \<or> \<not> HasData (cachedMtaSts c now))"
  shows "dr_Dane R = (if dr_DaneAttempted R
           then branchFromResult (fst (cd domain True)) [] (snd (cd domain True)) else emptyBranch)"
    and "dr_DaneTemp R \<longleftrightarrow> dr_DaneAttempted R \<and> fst (cd domain True) = ''TEMP''"
    and "dr_MtaSts R = (if taken then mtaStsCandidate m else emptyBranch)"
    and "(dr_Policy R, dr_Report R, dr_TTL R) =
           selectedPolicyFromBranches (if dr_DaneAttempted R then dr_Dane R else cachedDane c now)
             (if taken then mtaStsCandidate m else cachedMtaSts c now) (dr_DaneTemp R)"
  unfolding R_def m_def taken_def queryDomainBranchesWithOptions_def
  by (auto simp: Let_def unavailable_def mtaStsCandidate_def simp flip: cachedMtaSts_def cachedDane_def)

lemma suppression_empty [simp]: "branchForQuerySuppression emptyBranch t = emptyBranch"
  by (simp add: branchForQuerySuppression_def)

lemma query_attempted:
  "dr_DaneAttempted (queryDomainBranchesWithOptions cd cm domain c now opts) =
     shouldQueryDane c (branchForQuerySuppression (cachedDane c now) (renewBefore opts))
       (branchForQuerySuppression (cachedMtaSts c now) (renewBefore opts)) now (renewBefore opts)"
  "dr_MtaStsAttempted (queryDomainBranchesWithOptions cd cm domain c now opts) =
     shouldQueryMtaSts c (branchForQuerySuppression (cachedDane c now) (renewBefore opts))
       (branchForQuerySuppression (cachedMtaSts c now) (renewBefore opts)) now (renewBefore opts)"
  by (cases c; simp add: queryDomainBranchesWithOptions_def Let_def cachedMtaSts_def cachedDane_def
      suppression_empty)+

lemma fresh_view: "result_view (fst (freshBranchForSelection b now)) = cached_view b now"
proof (cases "branch_RemainingTTL b now = 0")
  case True
  then show ?thesis by (simp add: freshBranchForSelection_def result_view_def cached_view_def)
next
  case False
  then have "HasData (b\<lparr>pb_TTL := branch_RemainingTTL b now\<rparr>)" by (simp add: HasData_def)
  with False show ?thesis
    by (simp add: freshBranchForSelection_def result_view_def cached_view_def Let_def)
qed

lemma cachedDane_view:
  "branch_RemainingTTL (cs_Dane e) now \<noteq> 0 \<Longrightarrow>
   result_view (cachedDane (Some e) now) = cached_view (cs_Dane e) now"
  using fresh_view [of "cs_Dane e" now]
  by (simp add: cachedDane_def daneBranchForSelection_def freshBranchForSelection_def Let_def)

section \<open>What merging does to the branches\<close>

definition recheckTTL :: "bool \<Rightarrow> PolicyBranch \<Rightarrow> PolicyBranch" where
  "recheckTTL other b = (if pb_Policy b = [] \<and> other then b\<lparr>pb_TTL := policyBranchRecheckTTL\<rparr> else b)"

lemma merge_frame [simp]:
  "cs_Dane (mergeSelected R now cs) = cs_Dane cs" "cs_MtaSts (mergeSelected R now cs) = cs_MtaSts cs"
  "cs_Dane (mergeAttempts R now cs) = cs_Dane cs" "cs_MtaSts (mergeAttempts R now cs) = cs_MtaSts cs"
  "cs_Dane (mergeMtaSts R now cs) = cs_Dane cs" "cs_MtaSts (mergeDane j R now cs) = cs_MtaSts cs"
  by (simp_all add: mergeSelected_def mergeAttempts_def mergeMtaSts_def mergeDane_def Let_def
      split: prod.split)

lemma merge_branches:
  "cs_Dane (mergeCacheResult j c R now) =
     (if HasData (dr_Dane R)
      then expireBranch j (recheckTTL ((if HasData (dr_MtaSts R) then pb_Policy (dr_MtaSts R)
             else pb_Policy (cs_MtaSts (cloneCacheStruct c))) \<noteq> []) (dr_Dane R)) now
      else cs_Dane (cloneCacheStruct c))"
  "cs_MtaSts (mergeCacheResult j c R now) =
     (if HasData (dr_MtaSts R)
      then expireMtaStsBranch (recheckTTL ((if HasData (dr_Dane R) then pb_Policy (dr_Dane R)
             else pb_Policy (cs_Dane (cloneCacheStruct c))) \<noteq> []) (dr_MtaSts R)) now
      else cs_MtaSts (cloneCacheStruct c))"
  by (auto simp: mergeCacheResult_def mergeMtaSts_def mergeDane_def recheckTTL_def Let_def)

lemma selectCachedPolicy_cong:
  "cs_Dane e = cs_Dane f \<Longrightarrow> cs_MtaSts e = cs_MtaSts f \<Longrightarrow> hasBranches (Some f) \<Longrightarrow>
   selectCachedPolicy (Some e) now = selectCachedPolicy (Some f) now"
  by (simp add: selectCachedPolicy_def hasBranches_def Let_def)

lemma clone_branches [simp]:
  "cs_Dane (cloneCacheStruct (Some e)) = cs_Dane e" "cs_MtaSts (cloneCacheStruct (Some e)) = cs_MtaSts e"
  "cs_Dane (cloneCacheStruct None) = emptyBranch" "cs_MtaSts (cloneCacheStruct None) = emptyBranch"
  by (simp_all add: cloneCacheStruct_def zeroCacheStruct_def split: option.splits)

lemma recheckTTL_simps [simp]:
  "pb_Policy (recheckTTL b p) = pb_Policy p" "pb_Report (recheckTTL b p) = pb_Report p"
  "pb_ExpiresAt (recheckTTL b p) = pb_ExpiresAt p"
  by (simp_all add: recheckTTL_def)

lemma recheckTTL_HasData: "HasData p \<Longrightarrow> HasData (recheckTTL b p)"
  by (simp add: recheckTTL_def HasData_def policyBranchRecheckTTL_val)

lemma recheckTTL_bound: "pb_TTL p \<le> CACHE_MAX_TTL \<Longrightarrow> pb_TTL (recheckTTL b p) \<le> CACHE_MAX_TTL"
  by (simp add: recheckTTL_def policyBranchRecheckTTL_val policy_consts)

lemma recheckTTL_nonzero: "pb_TTL p \<noteq> 0 \<Longrightarrow> pb_TTL (recheckTTL b p) \<noteq> 0"
  by (simp add: recheckTTL_def policyBranchRecheckTTL_val)

text \<open>A branch that was just stored has its full lifetime ahead of it.\<close>

lemma RemainingTTL_expireBranch:
  "pb_TTL b \<noteq> 0 \<Longrightarrow> branch_RemainingTTL (expireBranch j b now) now = pb_TTL b + j"
  by (simp add: branch_RemainingTTL_def expireBranch_def HasData_def Let_def)

lemma RemainingTTL_expireMtaStsBranch:
  "pb_TTL b \<noteq> 0 \<Longrightarrow> branch_RemainingTTL (expireMtaStsBranch b now) now = pb_TTL b"
  by (simp add: branch_RemainingTTL_def expireMtaStsBranch_def HasData_def Let_def)

lemma expire_policies [simp]:
  "pb_Policy (expireBranch j b now) = pb_Policy b" "pb_Report (expireBranch j b now) = pb_Report b"
  "pb_Policy (expireMtaStsBranch b now) = pb_Policy b" "pb_Report (expireMtaStsBranch b now) = pb_Report b"
  by (simp_all add: expireBranch_def expireMtaStsBranch_def)

lemma jitter_no_overflow:
  assumes "(t :: u32) \<noteq> 0" "t \<le> CACHE_MAX_TTL" "j < 20"
  shows "t + j \<noteq> 0" "uint (t + j) = uint t + uint j" "uint (t + j) \<le> 2592019"
proof -
  have u: "uint t \<le> 2592000" "uint j < 20"
    using assms(2,3) by (simp_all add: word_le_def word_less_def policy_consts)
  then show s: "uint (t + j) = uint t + uint j" by (simp add: uint_word_ariths)
  have "uint t \<noteq> 0" using assms(1) by (metis uint_0_iff)
  then have "0 < uint t" using uint_nonnegative [of t] by linarith
  then have "uint (t + j) \<noteq> 0" using s uint_nonnegative [of j] by linarith
  then show "t + j \<noteq> 0" by (metis unsigned_0)
  show "uint (t + j) \<le> 2592019" using s u by linarith
qed


section \<open>Replies and the cache agree\<close>

text \<open>The policy and report a lookup replies with: TEMP exactly while DANE is unknown.\<close>

definition reply_policy :: "branch_view \<Rightarrow> branch_view \<Rightarrow> string" where
  "reply_policy dane mtaSts = (case serve dane mtaSts of
     PolicyIs p r \<Rightarrow> p
   | NoPolicy \<Rightarrow> []
   | Unknown \<Rightarrow> if dane = Unknown then ''TEMP'' else [])"

lemma reply_policy_selected:
  "fst (selectedPolicyFromBranches dane mtaSts temp) =
     (if temp then ''TEMP'' else reply_policy (result_view dane) (result_view mtaSts))"
  by (simp add: selectedPolicyFromBranches_def reply_policy_def result_view_def policy_view_def)

lemma reply_policy_served: "serve dane mtaSts = policy_view p r \<Longrightarrow> reply_policy dane mtaSts = p"
  by (auto simp: reply_policy_def policy_view_def split: if_splits)

lemma result_view_branchFromResult:
  "result_view (branchFromResult p r ttl) = (if p = ''TEMP'' then Unknown else policy_view p r)"
  by (auto simp: result_view_def branchFromResult_simps)

lemma result_view_temp: "fst (cd domain True) = ''TEMP'' \<Longrightarrow>
    result_view (branchFromResult (fst (cd domain True)) [] (snd (cd domain True))) = Unknown"
  by (simp add: result_view_branchFromResult)

text \<open>The views of the two branches a lookup selects from.\<close>

definition dane_after :: "dane_check \<Rightarrow> string \<Rightarrow> CacheStruct option \<Rightarrow> time \<Rightarrow> domainResult \<Rightarrow> branch_view" where
  "dane_after cd domain c now R =
     (if dr_DaneAttempted R
      then result_view (branchFromResult (fst (cd domain True)) [] (snd (cd domain True)))
      else result_view (cachedDane c now))"

definition mtasts_after :: "mtasts_check \<Rightarrow> string \<Rightarrow> CacheStruct option \<Rightarrow> time \<Rightarrow> domainResult \<Rightarrow> branch_view" where
  "mtasts_after cm domain c now R =
     (if dr_MtaStsAttempted R \<and> (\<not> unavailable (cm domain True) \<or> \<not> HasData (cachedMtaSts c now))
      then result_view (mtaStsCandidate (cm domain True))
      else result_view (cachedMtaSts c now))"

lemma query_policy:
  fixes cd cm domain c now opts
  defines "R \<equiv> queryDomainBranchesWithOptions cd cm domain c now opts"
  shows "dr_Policy R = reply_policy (dane_after cd domain c now R) (mtasts_after cm domain c now R)"
proof -
  note q = query_fields [of cd cm domain c now opts, folded R_def]
  have "dr_Policy R = fst (dr_Policy R, dr_Report R, dr_TTL R)" by simp
  also have "\<dots> = (if dr_DaneTemp R then ''TEMP''
      else reply_policy (dane_after cd domain c now R) (mtasts_after cm domain c now R))"
    unfolding q(4) reply_policy_selected by (auto simp: dane_after_def mtasts_after_def q(1))
  finally show ?thesis
    using result_view_temp [of cd domain] by (auto simp: q(2) dane_after_def reply_policy_def)
qed

lemma mtaStsCandidate_TTL:
  "HasData (mtaStsCandidate m) \<Longrightarrow>
   pb_TTL (mtaStsCandidate m) \<noteq> 0 \<and> pb_TTL (mtaStsCandidate m) \<le> CACHE_MAX_TTL"
  using mtaStsBranchFromResult_TTL(1)
  by (cases "fst m = ''TEMP''")
    (auto simp: mtaStsCandidate_def HasData_def mtaStsBranchFromResult_simps time_IsZero_def
      emptyBranch_def split: if_splits)

lemma query_Dane_TTL:
  fixes cd cm domain c now opts
  defines "R \<equiv> queryDomainBranchesWithOptions cd cm domain c now opts"
  shows "HasData (dr_Dane R) \<Longrightarrow> pb_TTL (dr_Dane R) \<noteq> 0 \<and> pb_TTL (dr_Dane R) \<le> CACHE_MAX_TTL"
    and "HasData (dr_MtaSts R) \<Longrightarrow> pb_TTL (dr_MtaSts R) \<noteq> 0 \<and> pb_TTL (dr_MtaSts R) \<le> CACHE_MAX_TTL"
proof -
  note q = query_fields [of cd cm domain c now opts, folded R_def]
  show "HasData (dr_Dane R) \<Longrightarrow> pb_TTL (dr_Dane R) \<noteq> 0 \<and> pb_TTL (dr_Dane R) \<le> CACHE_MAX_TTL"
    using branchFromResult_TTL [of "fst (cd domain True)" "[]" "snd (cd domain True)"]
    by (cases "fst (cd domain True) = ''TEMP''")
      (auto simp: q(1) branchFromResult_simps policy_consts split: if_splits)
  show "HasData (dr_MtaSts R) \<Longrightarrow> pb_TTL (dr_MtaSts R) \<noteq> 0 \<and> pb_TTL (dr_MtaSts R) \<le> CACHE_MAX_TTL"
    using mtaStsCandidate_TTL [of "cm domain True"] by (auto simp: q(3) split: if_splits)
qed

lemma merged_Dane_view:
  assumes "j < 20" "pb_TTL (dr_Dane R) \<noteq> 0" "pb_TTL (dr_Dane R) \<le> CACHE_MAX_TTL"
  shows "cached_view (cs_Dane (mergeCacheResult j c R now)) now = result_view (dr_Dane R)"
proof -
  have h: "HasData (dr_Dane R)" using assms(2) by (simp add: HasData_def)
  let ?b = "recheckTTL ((if HasData (dr_MtaSts R) then pb_Policy (dr_MtaSts R)
             else pb_Policy (cs_MtaSts (cloneCacheStruct c))) \<noteq> []) (dr_Dane R)"
  have "pb_TTL ?b + j \<noteq> 0"
    using recheckTTL_nonzero [OF assms(2)] recheckTTL_bound [OF assms(3)] assms(1)
    by (intro jitter_no_overflow(1)) auto
  with h show ?thesis
    by (simp add: merge_branches cached_view_def result_view_def RemainingTTL_expireBranch
        recheckTTL_nonzero assms(2))
qed

lemma merged_MtaSts_view:
  assumes "pb_TTL (dr_MtaSts R) \<noteq> 0"
  shows "cached_view (cs_MtaSts (mergeCacheResult j c R now)) now = result_view (dr_MtaSts R)"
proof -
  have h: "HasData (dr_MtaSts R)" using assms by (simp add: HasData_def)
  then show ?thesis
    by (simp add: merge_branches cached_view_def result_view_def RemainingTTL_expireMtaStsBranch
        recheckTTL_nonzero assms)
qed

lemma cached_view_clone:
  "cached_view (cs_MtaSts (cloneCacheStruct c)) now = result_view (cachedMtaSts c now)"
  by (cases c) (simp_all add: cachedMtaSts_def fresh_view, simp add: cached_view_def result_view_def)

lemma cached_view_clone_Dane:
  assumes "cached_view (cs_Dane (cloneCacheStruct c)) now \<noteq> Unknown"
  shows "cached_view (cs_Dane (cloneCacheStruct c)) now = result_view (cachedDane c now)"
proof (cases c)
  case None
  with assms show ?thesis by (simp add: cached_view_def)
next
  case (Some e)
  with assms have "branch_RemainingTTL (cs_Dane e) now \<noteq> 0" by (auto simp: cached_view_def)
  with Some cachedDane_view [of e now] show ?thesis by simp
qed

lemma plain_query_mtasts:
  fixes cd cm domain c now
  defines "R \<equiv> queryDomainBranches cd cm domain c now"
  shows "dr_MtaStsAttempted R \<Longrightarrow> \<not> HasData (cachedMtaSts c now)"
  unfolding R_def queryDomainBranches_def query_attempted
  by (auto simp: branchForQuerySuppression_def shouldQueryMtaSts_def split: if_splits)

lemma plain_query_views:
  fixes cd cm domain c now
  assumes j: "j < 20"
  defines "R \<equiv> queryDomainBranches cd cm domain c now"
  defines "cs \<equiv> mergeCacheResult j c R now"
  shows "cached_view (cs_MtaSts cs) now = mtasts_after cm domain c now R"
    and "dr_Policy R \<noteq> ''TEMP'' \<Longrightarrow> cached_view (cs_Dane cs) now \<noteq> Unknown \<Longrightarrow>
      cached_view (cs_Dane cs) now = dane_after cd domain c now R"
proof -
  have R: "R = queryDomainBranchesWithOptions cd cm domain c now \<lparr>renewBefore = 0, prefetch = False\<rparr>"
    by (simp add: R_def queryDomainBranches_def)
  note q = query_fields [of cd cm domain c now "\<lparr>renewBefore = 0, prefetch = False\<rparr>", folded R]
  note ttl = query_Dane_TTL [of cd cm domain c now "\<lparr>renewBefore = 0, prefetch = False\<rparr>", folded R]
  show "cached_view (cs_MtaSts cs) now = mtasts_after cm domain c now R"
  proof (cases "HasData (dr_MtaSts R)")
    case True
    then have "cached_view (cs_MtaSts cs) now = result_view (dr_MtaSts R)"
      unfolding cs_def using ttl(2) by (intro merged_MtaSts_view) simp
    with True show ?thesis by (auto simp: q(3) mtasts_after_def split: if_splits)
  next
    case False
    then have "cached_view (cs_MtaSts cs) now = result_view (cachedMtaSts c now)"
      by (simp add: cs_def merge_branches cached_view_clone)
    moreover have "result_view (mtaStsCandidate (cm domain True)) = result_view (cachedMtaSts c now)"
      if "dr_MtaStsAttempted R"
      using that False plain_query_mtasts [of cd cm domain c now, folded R_def]
      by (auto simp: q(3) result_view_def split: if_splits)
    ultimately show ?thesis by (simp add: mtasts_after_def)
  qed
  assume notemp: "dr_Policy R \<noteq> ''TEMP''" and known: "cached_view (cs_Dane cs) now \<noteq> Unknown"
  show "cached_view (cs_Dane cs) now = dane_after cd domain c now R"
  proof (cases "HasData (dr_Dane R)")
    case True
    then have "cached_view (cs_Dane cs) now = result_view (dr_Dane R)"
      unfolding cs_def using ttl(1) j by (intro merged_Dane_view) simp_all
    with True show ?thesis by (auto simp: q(1) dane_after_def split: if_splits)
  next
    case False
    have notdane: "\<not> dr_DaneAttempted R"
    proof
      assume att: "dr_DaneAttempted R"
      with False have "\<not> HasData (branchFromResult (fst (cd domain True)) [] (snd (cd domain True)))"
        by (simp add: q(1))
      then have "fst (cd domain True) = ''TEMP''" using branchFromResult_simps(2) by blast
      with att have "dane_after cd domain c now R = Unknown"
        by (simp add: dane_after_def result_view_branchFromResult)
      with notemp query_policy [of cd cm domain c now "\<lparr>renewBefore = 0, prefetch = False\<rparr>", folded R]
      show False by (simp add: reply_policy_def)
    qed
    with False known cached_view_clone_Dane [of c now] show ?thesis
      by (simp add: cs_def merge_branches dane_after_def)
  qed
qed


lemma secs_mono: "a \<le> b \<Longrightarrow> secs a \<le> secs b"
  by (simp add: secs_def nanos_per_second_def word_le_def)

lemma secs_RemainingTTL_le:
  assumes "branch_RemainingTTL b now \<noteq> 0" "pb_ExpiresAt b < now + horizon"
  shows "now + secs (branch_RemainingTTL b now) \<le> pb_ExpiresAt b"
proof -
  note nz = branch_RemainingTTL_nonzero [OF assms(1)]
  then have "now \<le> pb_ExpiresAt b" by (simp add: nanos_per_second_def)
  from branch_RemainingTTL_uint [OF nz(1) this assms(2)]
  have "secs (branch_RemainingTTL b now) = (pb_ExpiresAt b - now) div nanos_per_second * nanos_per_second"
    by (simp add: secs_def)
  also have "\<dots> \<le> pb_ExpiresAt b - now"
    using \<open>now \<le> pb_ExpiresAt b\<close> by (simp add: nanos_per_second_def mult.commute times_div_less_eq_dividend)
  finally show ?thesis by simp
qed

lemma still_fresh:
  assumes "branch_RemainingTTL b now \<noteq> 0" "pb_ExpiresAt b < now + horizon"
    and "ttl \<le> branch_RemainingTTL b now" "now \<le> now'" "now' + nanos_per_second \<le> now + secs ttl"
  shows "branch_RemainingTTL b now' \<noteq> 0" "branch_RemainingTTL b now' \<le> branch_RemainingTTL b now"
proof -
  have d: "HasData b" and e: "now' + nanos_per_second \<le> pb_ExpiresAt b"
    using branch_RemainingTTL_nonzero(1) [OF assms(1)] secs_RemainingTTL_le [OF assms(1,2)]
      secs_mono [OF assms(3)] assms(5) by linarith+
  then show "branch_RemainingTTL b now' \<noteq> 0"
    using assms(2,4) by (simp add: branch_RemainingTTL_eq_0_iff)
  have le: "now' \<le> pb_ExpiresAt b" "now \<le> pb_ExpiresAt b"
    using e assms(4) by (simp_all add: nanos_per_second_def)
  show "branch_RemainingTTL b now' \<le> branch_RemainingTTL b now"
    unfolding word_le_def using d le assms(2,4)
    by (simp add: branch_RemainingTTL_uint zdiv_mono1 nanos_per_second_def)
qed

lemma HasData_cachedDane: "HasData (cachedDane (Some e) now) \<Longrightarrow> HasData (cs_Dane e)"
  using branch_RemainingTTL_nonzero(1) [of "cs_Dane e" now]
  by (auto simp: cachedDane_def daneBranchForSelection_def freshBranchForSelection_def Let_def
      split: if_splits)

lemma HasData_expireBranch: "pb_TTL b \<noteq> 0 \<Longrightarrow> HasData (expireBranch j b now)"
  by (simp add: expireBranch_def HasData_def)

lemma not_temp_hasBranches:
  assumes "dr_Policy (queryDomainBranches cd cm domain c now) \<noteq> ''TEMP''"
  shows "hasBranches (Some (mergeCacheResult j c (queryDomainBranches cd cm domain c now) now))"
proof -
  let ?o = "\<lparr>renewBefore = 0, prefetch = False\<rparr>"
  let ?R = "queryDomainBranches cd cm domain c now"
  note q = query_fields(1) [of cd cm domain c now ?o, folded queryDomainBranches_def]
  note ttl = query_Dane_TTL(1) [of cd cm domain c now ?o, folded queryDomainBranches_def]
  from assms query_policy [of cd cm domain c now ?o, folded queryDomainBranches_def]
  have k: "dane_after cd domain c now ?R \<noteq> Unknown" by (auto simp: reply_policy_def)
  have "HasData (cs_Dane (mergeCacheResult j c ?R now))"
  proof (cases "dr_DaneAttempted ?R")
    case True
    with k have "HasData (dr_Dane ?R)" using q by (auto simp: dane_after_def result_view_def split: if_splits)
    with ttl show ?thesis by (simp add: merge_branches HasData_expireBranch recheckTTL_nonzero)
  next
    case False
    with k have "HasData (cachedDane c now)" by (auto simp: dane_after_def result_view_def split: if_splits)
    with False q show ?thesis
      by (cases c) (simp_all add: merge_branches HasData_cachedDane, simp add: cachedDane_def)
  qed
  then show ?thesis by (simp add: hasBranches_def)
qed

lemma query_Dane_min_TTL:
  fixes cd cm domain c now opts
  defines "R \<equiv> queryDomainBranchesWithOptions cd cm domain c now opts"
  assumes "HasData (dr_Dane R)"
  shows "CACHE_MIN_TTL \<le> pb_TTL (dr_Dane R)"
proof -
  note q = query_fields(1) [of cd cm domain c now opts, folded R_def]
  with assms(2) have "fst (cd domain True) \<noteq> ''TEMP''"
    by (auto simp: branchFromResult_simps(1) split: if_splits)
  with assms(2) q show ?thesis by (auto simp: branchFromResult_TTL split: if_splits)
qed

lemma stored_Dane_expiry:
  assumes "j < 20" "HasData (dr_Dane R)" "CACHE_MIN_TTL \<le> pb_TTL (dr_Dane R)"
    and "pb_TTL (dr_Dane R) \<le> CACHE_MAX_TTL"
  shows "now + 180 * nanos_per_second \<le> pb_ExpiresAt (cs_Dane (mergeCacheResult j c R now))
    \<and> pb_ExpiresAt (cs_Dane (mergeCacheResult j c R now)) \<le> now + 2592019 * nanos_per_second"
proof -
  obtain b where e: "cs_Dane (mergeCacheResult j c R now) = expireBranch j (recheckTTL b (dr_Dane R)) now"
    using assms(2) by (simp add: merge_branches(1))
  let ?t = "pb_TTL (recheckTTL b (dr_Dane R))"
  have x: "pb_ExpiresAt (cs_Dane (mergeCacheResult j c R now)) = now + secs (?t + j)"
    using assms(2) by (simp add: e expireBranch_def recheckTTL_HasData time_Add_def)
  have u: "180 \<le> uint ?t"
    using assms(3) by (auto simp: recheckTTL_def policyBranchRecheckTTL_val policy_consts word_le_def)
  then have "?t \<noteq> 0" by auto
  note no = jitter_no_overflow [OF this recheckTTL_bound [OF assms(4)] assms(1)]
  have "180 \<le> uint (?t + j)" using no(2) u uint_nonnegative [of j] by linarith
  with no(3) show ?thesis by (simp add: x secs_def nanos_per_second_def)
qed

lemma stored_MtaSts_expiry:
  assumes "HasData (dr_MtaSts R)" "pb_TTL (dr_MtaSts R) \<le> CACHE_MAX_TTL"
  shows "pb_ExpiresAt (cs_MtaSts (mergeCacheResult j c R now)) \<le> now + 2592000 * nanos_per_second
    \<and> (pb_Policy (dr_MtaSts R) \<noteq> [] \<longrightarrow>
       pb_ExpiresAt (cs_MtaSts (mergeCacheResult j c R now)) = now + secs (pb_TTL (dr_MtaSts R)))"
proof -
  obtain b where e: "cs_MtaSts (mergeCacheResult j c R now) = expireMtaStsBranch (recheckTTL b (dr_MtaSts R)) now"
    using assms(1) by (simp add: merge_branches(2))
  then have x: "pb_ExpiresAt (cs_MtaSts (mergeCacheResult j c R now)) = now + secs (pb_TTL (recheckTTL b (dr_MtaSts R)))"
    using assms(1) by (simp add: expireMtaStsBranch_def recheckTTL_HasData time_Add_def)
  have "secs (pb_TTL (recheckTTL b (dr_MtaSts R))) \<le> secs CACHE_MAX_TTL"
    using recheckTTL_bound [OF assms(2)] by (rule secs_mono)
  then show ?thesis by (auto simp: x recheckTTL_def secs_def policy_consts)
qed

section \<open>Properties\<close>

text \<open>A concrete entry for the witnesses: no DANE for an hour, an MTA-STS policy for a day.\<close>

definition sample_entry :: CacheStruct where
  "sample_entry = zeroCacheStruct\<lparr>
     cs_Dane := \<lparr>pb_ExpiresAt = 3600 * nanos_per_second, pb_Policy = [], pb_Report = [], pb_TTL = 3600\<rparr>,
     cs_MtaSts := \<lparr>pb_ExpiresAt = 86400 * nanos_per_second, pb_Policy = ''secure match=mx.example.org'',
                   pb_Report = [], pb_TTL = 86400\<rparr>\<rparr>"

lemma sample_entry_facts:
  "hasBranches (Some sample_entry)"
  "selectCachedPolicy (Some sample_entry) 0 = (''secure match=mx.example.org'', [], 3600, True)"
  "pb_ExpiresAt (cs_Dane sample_entry) = 3600 * nanos_per_second"
  "pb_ExpiresAt (cs_MtaSts sample_entry) = 86400 * nanos_per_second"
  by code_simp+

text \<open>C3. The cached entry of a domain is served by the abstract rule over the two branches: nothing
  while the DANE branch is missing or expired, the DANE policy when there is one, and otherwise what
  the MTA-STS branch holds while that one is fresh.\<close>

theorem selectCachedPolicy_refines_serve:
  assumes "hasBranches (Some e)"
  shows "selection_view (selectCachedPolicy (Some e) now) =
    serve (cached_view (cs_Dane e) now) (cached_view (cs_MtaSts e) now)"
  using assms by (rule selection_view_cached)

theorem selectCachedPolicy_refines_serve_witness:
  "hasBranches (Some sample_entry) \<and> selection_view (selectCachedPolicy (Some sample_entry) 0) =
     serve (cached_view (cs_Dane sample_entry) 0) (cached_view (cs_MtaSts sample_entry) 0)"
  using selectCachedPolicy_refines_serve [OF sample_entry_facts(1)] sample_entry_facts(1) by blast

lemma served_lifetime:
  assumes "hasBranches (Some e)" "selectCachedPolicy (Some e) now = (p, r, ttl, True)"
    and "pb_ExpiresAt (cs_Dane e) < now + horizon" "pb_ExpiresAt (cs_MtaSts e) < now + horizon"
  shows "1 \<le> uint ttl \<and> now + secs ttl \<le> pb_ExpiresAt (cs_Dane e)
    \<and> (pb_Policy (cs_Dane e) = [] \<longrightarrow> now + secs ttl \<le> pb_ExpiresAt (cs_MtaSts e))"
proof -
  note s = selectCachedPolicy_served [OF assms(1,2)]
  have pos: "1 \<le> uint ttl" using s(1) uint_nonnegative [of ttl] uint_0_iff [of ttl] by linarith
  have d: "branch_RemainingTTL (cs_Dane e) now \<noteq> 0"
    using assms(1,2) by (auto simp: selectCachedPolicy_def Let_def split: if_splits)
  have "now + secs ttl \<le> pb_ExpiresAt (cs_Dane e)"
    using secs_RemainingTTL_le [OF d assms(3)] secs_mono [OF s(2)] by linarith
  moreover have "now + secs ttl \<le> pb_ExpiresAt (cs_MtaSts e)" if "pb_Policy (cs_Dane e) = []"
    using s(3) [OF that] secs_RemainingTTL_le [OF _ assms(4)]
      secs_mono [of ttl "branch_RemainingTTL (cs_MtaSts e) now"] by fastforce
  ultimately show ?thesis using pos by blast
qed

lemma served_stable:
  assumes "hasBranches (Some e)" "selectCachedPolicy (Some e) now = (p, r, ttl, True)"
    and "pb_ExpiresAt (cs_Dane e) < now + horizon" "pb_ExpiresAt (cs_MtaSts e) < now + horizon"
    and "now \<le> now'" "now' + nanos_per_second \<le> now + secs ttl"
  shows "\<exists>ttl'. selectCachedPolicy (Some e) now' = (p, r, ttl', True) \<and> ttl' \<noteq> 0 \<and> ttl' \<le> ttl"
proof -
  let ?d = "branch_RemainingTTL (cs_Dane e)" and ?m = "branch_RemainingTTL (cs_MtaSts e)"
  note s = selectCachedPolicy_served [OF assms(1,2)]
  have d0: "?d now \<noteq> 0"
    using assms(1,2) by (auto simp: selectCachedPolicy_def Let_def split: if_splits)
  note d = still_fresh [OF d0 assms(3) s(2) assms(5,6)]
  show ?thesis
  proof (cases "pb_Policy (cs_Dane e) = []")
    case False
    with assms(1,2) d d0 show ?thesis by (auto simp: selectCachedPolicy_def Let_def)
  next
    case True
    from s(3) [OF this] have m0: "?m now \<noteq> 0" "ttl \<le> ?m now" by auto
    note m = still_fresh [OF m0(1) assms(4) m0(2) assms(5,6)]
    have "minPositive (?d now') (?m now') \<le> minPositive (?d now) (?m now)"
      using d m d0 m0(1) by (auto simp: minPositive_def min_def)
    with True assms(1,2) d(1) m(1) d0 m0(1) minPositive_pos [of "?d now'" "?m now'"]
    show ?thesis by (auto simp: selectCachedPolicy_def Let_def)
  qed
qed

text \<open>C14. A policy that is served from the cache never outlives its evidence and does not change meanwhile: the announced lifetime
  is at least one second and does not reach beyond the expiry of the DANE branch, nor, when the
  policy comes from MTA-STS, beyond the expiry of the MTA-STS branch; and at every later time that
  leaves at least one second of it, the unchanged entry serves the same policy and report, with a
  lifetime that is positive and no longer than before.\<close>

theorem served_lifetime_backed_by_branches:
  assumes "hasBranches (Some e)" "selectCachedPolicy (Some e) now = (p, r, ttl, True)"
    and "pb_ExpiresAt (cs_Dane e) < now + horizon" "pb_ExpiresAt (cs_MtaSts e) < now + horizon"
    and "now \<le> now'" "now' + nanos_per_second \<le> now + secs ttl"
  shows "1 \<le> uint ttl \<and> now + secs ttl \<le> pb_ExpiresAt (cs_Dane e)
    \<and> (pb_Policy (cs_Dane e) = [] \<longrightarrow> now + secs ttl \<le> pb_ExpiresAt (cs_MtaSts e))
    \<and> (\<exists>ttl'. selectCachedPolicy (Some e) now' = (p, r, ttl', True) \<and> ttl' \<noteq> 0 \<and> ttl' \<le> ttl)"
  using served_lifetime [OF assms(1-4)] served_stable [OF assms] by blast

theorem served_lifetime_backed_by_branches_witness:
  "0 + secs 3600 \<le> pb_ExpiresAt (cs_Dane sample_entry) \<and> 0 + secs 3600 \<le> pb_ExpiresAt (cs_MtaSts sample_entry)
    \<and> (\<exists>ttl'. selectCachedPolicy (Some sample_entry) nanos_per_second =
        (''secure match=mx.example.org'', [], ttl', True) \<and> ttl' \<noteq> 0 \<and> ttl' \<le> 3600)"
  using served_lifetime_backed_by_branches [OF sample_entry_facts(1,2), of nanos_per_second]
  by (simp add: sample_entry_facts horizon_def nanos_per_second_def secs_def)

text \<open>C2. The reply of a lookup is the abstract rule applied to what is known after it: the fresh
  DANE answer if one was asked for and the cached branch otherwise, and likewise for MTA-STS, where
  an unavailable answer does not displace a fresh cached branch. While DANE stays unknown the reply
  is TEMP, so that mail is deferred and never sent under a weaker policy.\<close>

theorem query_replies_by_serve:
  "dr_Policy (queryDomainBranchesWithOptions cd cm domain c now opts) =
     reply_policy
       (dane_after cd domain c now (queryDomainBranchesWithOptions cd cm domain c now opts))
       (mtasts_after cm domain c now (queryDomainBranchesWithOptions cd cm domain c now opts))"
  by (rule query_policy)

text \<open>C13. A temporary DANE failure is never turned into a policy and never forgotten data: the reply
  is TEMP with lifetime zero whatever MTA-STS says, and storing the result leaves the cached DANE
  branch as it was.\<close>

theorem dane_failure_defers:
  assumes "dr_DaneAttempted (queryDomainBranchesWithOptions cd cm domain c now opts)"
    and "fst (cd domain True) = ''TEMP''"
  shows "dr_Policy (queryDomainBranchesWithOptions cd cm domain c now opts) = ''TEMP''
    \<and> dr_TTL (queryDomainBranchesWithOptions cd cm domain c now opts) = 0
    \<and> cs_Dane (mergeCacheResult j c (queryDomainBranchesWithOptions cd cm domain c now opts) now) =
        cs_Dane (cloneCacheStruct c)"
proof -
  note q = query_fields [of cd cm domain c now opts]
  have t: "dr_DaneTemp (queryDomainBranchesWithOptions cd cm domain c now opts)"
    using assms q(2) by simp
  have "\<not> HasData (dr_Dane (queryDomainBranchesWithOptions cd cm domain c now opts))"
    using assms q(1) by (simp add: branchFromResult_simps(1))
  then show ?thesis using q(4) t by (simp add: merge_branches selectedPolicyFromBranches_def)
qed

theorem dane_failure_defers_witness:
  "dr_Policy (queryDomainOnceImpl (\<lambda>_ _. (''TEMP'', 0)) (\<lambda>_ _. (''secure'', [], 600)) ''example.org'' 0) = ''TEMP''"
  using dane_failure_defers [of "\<lambda>_ _. (''TEMP'', 0)" "\<lambda>_ _. (''secure'', [], 600)" "''example.org''" None 0
      "\<lparr>renewBefore = 0, prefetch = False\<rparr>" 0]
  by (simp add: query_attempted shouldQueryDane_def cachedDane_def queryDomainOnceImpl_def
      queryDomainBranches_def)





text \<open>C21. How long lookup results are stored: a DANE answer for at least three minutes and at most
  thirty days plus the twenty seconds of jitter, an MTA-STS answer for at most thirty days, and a
  published MTA-STS policy never longer than its \<^verbatim>\<open>max_age\<close>. None of the sums wraps around.\<close>

theorem stored_lifetimes_bounded:
  assumes "j < 20" "R = queryDomainBranchesWithOptions cd cm domain c now opts"
  shows "(HasData (dr_Dane R) \<longrightarrow>
      now + 180 * nanos_per_second \<le> pb_ExpiresAt (cs_Dane (mergeCacheResult j c R now))
      \<and> pb_ExpiresAt (cs_Dane (mergeCacheResult j c R now)) \<le> now + 2592019 * nanos_per_second)
    \<and> (HasData (dr_MtaSts R) \<longrightarrow>
      pb_ExpiresAt (cs_MtaSts (mergeCacheResult j c R now)) \<le> now + 2592000 * nanos_per_second
      \<and> (fst (cm domain True) \<noteq> [] \<longrightarrow>
         pb_ExpiresAt (cs_MtaSts (mergeCacheResult j c R now)) \<le> now + secs (snd (snd (cm domain True)))))"
proof (intro conjI impI)
  let ?e = "mergeCacheResult j c R now"
  note ttl = query_Dane_TTL [of cd cm domain c now opts, folded assms(2)]
  {
    assume h: "HasData (dr_Dane R)"
    have m: "CACHE_MIN_TTL \<le> pb_TTL (dr_Dane R)" using h query_Dane_min_TTL assms(2) by simp
    note d = stored_Dane_expiry [OF assms(1) h m conjunct2 [OF ttl(1) [OF h]], of now c]
    from d show "now + 180 * nanos_per_second \<le> pb_ExpiresAt (cs_Dane ?e)" by simp
    from d show "pb_ExpiresAt (cs_Dane ?e) \<le> now + 2592019 * nanos_per_second" by simp
  next
    assume h: "HasData (dr_MtaSts R)"
    note e = stored_MtaSts_expiry [OF h conjunct2 [OF ttl(2) [OF h]], of j c now]
    from e show "pb_ExpiresAt (cs_MtaSts ?e) \<le> now + 2592000 * nanos_per_second" by simp
    assume p: "fst (cm domain True) \<noteq> []"
    from h have R: "dr_MtaSts R = mtaStsCandidate (cm domain True)"
      using query_fields(3) [of cd cm domain c now opts, folded assms(2)] by (auto split: if_splits)
    with h p have "pb_Policy (dr_MtaSts R) \<noteq> []" "pb_TTL (dr_MtaSts R) \<le> snd (snd (cm domain True))"
      by (auto simp: mtaStsCandidate_def mtaStsBranchFromResult_simps mtaStsBranchFromResult_TTL)
    with e secs_mono show "pb_ExpiresAt (cs_MtaSts ?e) \<le> now + secs (snd (snd (cm domain True)))"
      by fastforce
  }
qed

theorem stored_lifetimes_bounded_witness:
  "pb_ExpiresAt (cs_MtaSts (mergeCacheResult 7 None
     (queryDomainOnceImpl (\<lambda>_ _. ([], 0)) (\<lambda>_ _. (''secure'', [], 600)) ''example.org'' 5) 5))
   \<le> 5 + secs 600"
proof -
  let ?o = "\<lparr>renewBefore = 0, prefetch = False\<rparr>"
  let ?R = "queryDomainBranchesWithOptions (\<lambda>_ _. ([], 0)) (\<lambda>_ _. (''secure'', [], 600)) ''example.org'' None 5 ?o"
  have "HasData (dr_MtaSts ?R)" by code_simp
  then show ?thesis
    using stored_lifetimes_bounded [of 7 ?R "\<lambda>_ _. ([], 0)" "\<lambda>_ _. (''secure'', [], 600)" "''example.org''" None 5 ?o]
    by (simp add: queryDomainOnceImpl_def queryDomainBranches_def)
qed

end
