(* ===== verification/Dns.thy ===== *)
theory Dns
  imports Go_Strings
begin

text \<open>
  DNS queries of \<^verbatim>\<open>internal/dns.go\<close>, and what the policy lookups share.

  The types of the DNS library that the program reads are datatypes here: a record is one of the
  record types the program tells apart or \<open>OtherRR\<close>; a message has the response code, the truncation
  and authentication bits and the answer and authority sections. The network is a parameter
  \<open>client\<close> that maps a query, a transport and a resolver address to an error or a message
  (\<^verbatim>\<open>client.Exchange\<close> returns a message whenever it returns no error). Within one attempt no query
  is sent twice over the same transport, so a function describes any behaviour of the network;
  across attempts the parameter is indexed by the attempt.
\<close>

section \<open>Messages\<close>

record rr_header =
  rr_Name :: string
  rr_TTL :: u32

datatype rr =
    A_rr rr_header
  | AAAA_rr rr_header
  | MX_rr rr_header string
  | CNAME_rr rr_header string
  | TLSA_rr rr_header (tlsa_Usage: u8) (tlsa_Selector: u8) (tlsa_MatchingType: u8) (tlsa_Certificate: string)
  | TXT_rr rr_header "string list"
  | SOA_rr rr_header u32
  | OtherRR rr_header

datatype qtype = TypeA | TypeAAAA | TypeMX | TypeTLSA | TypeTXT

datatype proto = UDP | TCP

record Query =
  q_Name :: string
  q_Type :: qtype
  q_UDPSize :: nat
  q_Security :: bool

definition RcodeSuccess :: nat where "RcodeSuccess = 0"
definition RcodeNameError :: nat where "RcodeNameError = 3"

record Msg =
  m_Rcode :: nat
  m_Truncated :: bool
  m_AuthenticatedData :: bool
  m_Answer :: "rr list"
  m_Ns :: "rr list"

datatype net_error =
    Canceled
  | DeadlineExceeded
  | RcodeError nat
  | NetFailure string
  | LookupFailure string

type_synonym client = "Query \<Rightarrow> proto \<Rightarrow> string \<Rightarrow> net_error + Msg"

section \<open>Queries\<close>

definition DNS_UDP_PAYLOAD_SIZE :: nat where "DNS_UDP_PAYLOAD_SIZE = 1232"

definition newDNSQuery :: "string \<Rightarrow> qtype \<Rightarrow> bool \<Rightarrow> Query" where
  "newDNSQuery name qtype dnssecOK =
     \<lparr>q_Name = name, q_Type = qtype, q_UDPSize = DNS_UDP_PAYLOAD_SIZE, q_Security = dnssecOK\<rparr>"

definition exchangeDNS :: "client \<Rightarrow> Query \<Rightarrow> string \<Rightarrow> net_error + Msg" where
  "exchangeDNS client m resolverAddress =
     (case client m UDP resolverAddress of
        Inl err \<Rightarrow> Inl err
      | Inr r \<Rightarrow>
          if \<not> m_Truncated r then Inr r
          else (case client m TCP resolverAddress of Inl err \<Rightarrow> Inl err | Inr r' \<Rightarrow> Inr r'))"

text \<open>\<^verbatim>\<open>dnsutil.IsFqdn\<close> and \<^verbatim>\<open>dnsutil.Fqdn\<close> of the vendored DNS library.\<close>

definition IsFqdn :: "string \<Rightarrow> bool" where
  "IsFqdn s = HasSuffix s ''.''"

definition Fqdn :: "string \<Rightarrow> string" where
  "Fqdn s = (if IsFqdn s then s else s @ ''.'')"

section \<open>Attempts\<close>

text \<open>
  The retry loop of \<^verbatim>\<open>checkDane\<close> and \<^verbatim>\<open>checkMtaSts\<close>: \<open>once i\<close> is the outcome of attempt \<open>i\<close>,
  \<open>ctx_err i\<close> whether the context is done after it, \<open>wait i\<close> the result of \<^verbatim>\<open>waitPolicyRetry\<close>
  (true when the delay passed, false when the context ended first). \<open>temp\<close> is the TEMP result. The
  second component counts the attempts made.
\<close>

definition POLICY_ATTEMPTS :: nat where "POLICY_ATTEMPTS = 3"

function attempt_loop ::
    "(nat \<Rightarrow> net_error + 'a) \<Rightarrow> (nat \<Rightarrow> bool) \<Rightarrow> (nat \<Rightarrow> bool) \<Rightarrow> 'a \<Rightarrow> nat \<Rightarrow> nat \<Rightarrow> 'a \<times> nat" where
  "attempt_loop once ctx_err wait temp attempts i =
     (if i \<le> attempts then
        (case once i of
           Inr result \<Rightarrow> (result, i)
         | Inl err \<Rightarrow>
             if err = Canceled \<or> ctx_err i then (temp, i)
             else if i = attempts then (temp, i)
             else if \<not> wait i then (temp, i)
             else attempt_loop once ctx_err wait temp attempts (i + 1))
      else (temp, i - 1))"
  by pat_completeness auto

termination attempt_loop
  by (relation "measure (\<lambda>(_, _, _, _, attempts, i). attempts + 1 - i)") auto

declare attempt_loop.simps [simp del]

definition policy_attempts ::
    "(nat \<Rightarrow> net_error + 'a) \<Rightarrow> (nat \<Rightarrow> bool) \<Rightarrow> (nat \<Rightarrow> bool) \<Rightarrow> 'a \<Rightarrow> bool \<Rightarrow> 'a \<times> nat" where
  "policy_attempts once ctx_err wait temp mayRetry =
     attempt_loop once ctx_err wait temp (if mayRetry then POLICY_ATTEMPTS else 1) 1"

section \<open>Lemmas\<close>

lemma exchangeDNS_cases:
  assumes "exchangeDNS client m addr = Inr r"
  shows "(client m UDP addr = Inr r \<and> \<not> m_Truncated r) \<or> client m TCP addr = Inr r"
  using assms by (auto simp: exchangeDNS_def split: sum.splits if_splits)

lemma attempt_loop_count:
  "1 \<le> i \<Longrightarrow> i \<le> attempts \<Longrightarrow>
   i \<le> snd (attempt_loop once ctx_err wait temp attempts i)
   \<and> snd (attempt_loop once ctx_err wait temp attempts i) \<le> attempts"
proof (induction once ctx_err wait temp attempts i rule: attempt_loop.induct)
  case (1 once ctx_err wait temp attempts i)
  show ?case
    using "1.prems" "1.IH" by (subst (1 2) attempt_loop.simps) (fastforce split: sum.splits)
qed

lemma attempt_loop_result:
  assumes "attempt_loop once ctx_err wait temp attempts i = (x, n)"
  shows "x = temp \<or> (i \<le> n \<and> n \<le> attempts \<and> once n = Inr x)"
  using assms
proof (induction once ctx_err wait temp attempts i rule: attempt_loop.induct)
  case (1 once ctx_err wait temp attempts i)
  show ?case
    using "1.prems" [unfolded attempt_loop.simps [of once ctx_err wait temp attempts i]] "1.IH"
    by (fastforce split: sum.splits if_splits)
qed

text \<open>The loop gives up only when every attempt failed or the context ended.\<close>

lemma attempt_loop_succeeds:
  assumes "i \<le> k" "k \<le> attempts" "once k = Inr x"
    and "\<And>l. i \<le> l \<Longrightarrow> l < k \<Longrightarrow> (\<exists>e. once l = Inl e \<and> e \<noteq> Canceled) \<and> \<not> ctx_err l \<and> wait l"
  shows "attempt_loop once ctx_err wait temp attempts i = (x, k)"
  using assms
proof (induction once ctx_err wait temp attempts i rule: attempt_loop.induct)
  case (1 once ctx_err wait temp attempts i)
  show ?case
  proof (cases "i = k")
    case True
    with "1.prems" show ?thesis by (subst attempt_loop.simps) simp
  next
    case False
    with "1.prems" obtain e where e: "once i = Inl e" "e \<noteq> Canceled" "\<not> ctx_err i" "wait i"
      by (metis le_neq_implies_less order_refl)
    have "attempt_loop once ctx_err wait temp attempts (i + 1) = (x, k)"
      using "1.prems" False e by (intro "1.IH") auto
    with e False "1.prems" show ?thesis by (subst attempt_loop.simps) simp
  qed
qed

lemma Fqdn_ends [simp]: "HasSuffix (Fqdn s) ''.''"
  by (simp add: Fqdn_def IsFqdn_def)

lemma Fqdn_idem [simp]: "Fqdn (Fqdn s) = Fqdn s"
  by (simp add: Fqdn_def [of "Fqdn s"] IsFqdn_def)

end
