(* ===== verification/Go_Mime.thy ===== *)
theory Go_Mime
  imports Go_Strings
begin

text \<open>
  \<^verbatim>\<open>mime.ParseMediaType\<close> of the Go standard library, as far as the program uses it: the media type
  and whether parsing fails. The decoded parameters themselves are not used; they matter through the
  errors they cause. The library keeps parameters whose names contain an asterisk in a second map;
  since the name is the key in both, one association list decides the duplicate check alike.
\<close>

definition isTSpecial :: "char \<Rightarrow> bool" where
  "isTSpecial c \<longleftrightarrow> c \<in> set ''()<>@,;:/[]?='' \<or> c = CHR 0x22 \<or> c = CHR 0x5C"

definition isTokenChar :: "char \<Rightarrow> bool" where
  "isTokenChar c \<longleftrightarrow> 32 < byte c \<and> byte c < 127 \<and> \<not> isTSpecial c"

definition consumeToken :: "string \<Rightarrow> string \<times> string" where
  "consumeToken v = (takeWhile isTokenChar v, dropWhile isTokenChar v)"

text \<open>A quoted string after its opening quote: the value and the rest, or nothing when it is broken.\<close>

fun consumeQuoted :: "string \<Rightarrow> string \<Rightarrow> (string \<times> string) option" where
  "consumeQuoted [] buffer = None"
| "consumeQuoted (r # v) buffer =
     (if r = CHR 0x22 then Some (buffer, v)
      else if r = CHR 0x5C then
        (case v of
           e # v' \<Rightarrow> if isTSpecial e then consumeQuoted v' (buffer @ [e]) else consumeQuoted v (buffer @ [r])
         | [] \<Rightarrow> consumeQuoted v (buffer @ [r]))
      else if r = CHR 0x0D \<or> r = CHR 0x0A then None
      else consumeQuoted v (buffer @ [r]))"

definition consumeValue :: "string \<Rightarrow> string \<times> string" where
  "consumeValue v = (case v of
     [] \<Rightarrow> ([], [])
   | c # v' \<Rightarrow>
       if c \<noteq> CHR 0x22 then consumeToken v
       else (case consumeQuoted v' [] of Some (value, rest) \<Rightarrow> (value, rest) | None \<Rightarrow> ([], v)))"

definition consumeMediaParam :: "unicode_tables \<Rightarrow> string \<Rightarrow> string \<times> string \<times> string" where
  "consumeMediaParam u v =
     (let rest = TrimLeftSpace v in
      if \<not> HasPrefix rest '';'' then ([], [], v)
      else let tok = consumeToken (TrimLeftSpace (drop 1 rest));
               param = ToLower u (fst tok) in
        if param = [] then ([], [], v)
        else let rest2 = TrimLeftSpace (snd tok) in
          if \<not> HasPrefix rest2 ''='' then ([], [], v)
          else let rest3 = TrimLeftSpace (drop 1 rest2); val = consumeValue rest3 in
            if fst val = [] \<and> snd val = rest3 then ([], [], v)
            else (param, fst val, snd val))"

definition checkMediaTypeDisposition :: "string \<Rightarrow> bool" where
  "checkMediaTypeDisposition s =
     (let tok = consumeToken s in
      if fst tok = [] then False
      else if snd tok = [] then True
      else if \<not> HasPrefix (snd tok) ''/'' then False
      else let sub = consumeToken (drop 1 (snd tok)) in fst sub \<noteq> [] \<and> snd sub = [])"

lemma length_TrimLeftSpace: "length (TrimLeftSpace s) \<le> length s"
proof (induction s rule: TrimLeftSpace.induct)
  case (2 c s)
  obtain r n where d: "DecodeRune (c # s) = (r, n)" by fastforce
  show ?case
  proof (cases "unicode_IsSpace r")
    case True
    with "2.IH" [OF d [symmetric] refl True] d show ?thesis by simp
  qed (use d in simp)
qed simp

lemma length_consumeToken: "length (snd (consumeToken v)) \<le> length v"
  by (simp add: consumeToken_def length_dropWhile_le)

lemma length_consumeQuoted: "consumeQuoted v b = Some (x, rest) \<Longrightarrow> length rest < length v"
proof (induction v b rule: consumeQuoted.induct)
  case (2 r v b)
  then show ?case
    by (cases v; cases "r = CHR 0x22"; cases "r = CHR 0x5C"; cases "r = CHR 0x0D \<or> r = CHR 0x0A")
      (auto split: if_splits)
qed simp

lemma length_consumeValue: "length (snd (consumeValue v)) \<le> length v"
  using length_consumeToken [of v] length_consumeQuoted
  by (auto simp: consumeValue_def split: list.splits option.splits) (meson less_imp_le less_SucI)

lemma consumeMediaParam_shorter:
  assumes "fst (consumeMediaParam u v) \<noteq> []"
  shows "length (snd (snd (consumeMediaParam u v))) < length v"
proof -
  let ?r = "TrimLeftSpace v"
  let ?t = "snd (consumeToken (TrimLeftSpace (drop 1 ?r)))"
  let ?s = "TrimLeftSpace (drop 1 (TrimLeftSpace ?t))"
  have p: "HasPrefix ?r '';''" and e: "snd (snd (consumeMediaParam u v)) = snd (consumeValue ?s)"
    using assms by (auto simp: consumeMediaParam_def Let_def split: if_splits)
  from p have "0 < length ?r" by (auto simp: HasPrefix_def)
  moreover have "length ?s \<le> length (drop 1 ?r)"
    using length_TrimLeftSpace [of "drop 1 (TrimLeftSpace ?t)"] length_TrimLeftSpace [of ?t]
      length_consumeToken [of "TrimLeftSpace (drop 1 ?r)"] length_TrimLeftSpace [of "drop 1 ?r"]
    by simp
  ultimately have "length ?s < length ?r" by (metis length_drop diff_less le_less_trans zero_less_one)
  then show ?thesis
    using e length_consumeValue [of ?s] length_TrimLeftSpace [of v] by simp
qed

text \<open>The parameter loop: true when every parameter parses and no name is given two values.\<close>

function parse_params :: "unicode_tables \<Rightarrow> string \<Rightarrow> (string \<times> string) list \<Rightarrow> bool" where
  "parse_params u v params =
     (let v1 = TrimLeftSpace v in
      if v1 = [] then True
      else let m = consumeMediaParam u v1; key = fst m; value = fst (snd m); rest = snd (snd m) in
        if key = [] then TrimSpace rest = '';''
        else if (case map_of params key of Some w \<Rightarrow> w \<noteq> value | None \<Rightarrow> False) then False
        else parse_params u rest ((key, value) # params))"
  by pat_completeness auto
termination
  by (relation "measure (\<lambda>(u, v, params). length v)")
    (auto intro: less_le_trans [OF consumeMediaParam_shorter length_TrimLeftSpace])

declare parse_params.simps [simp del]

definition ParseMediaType :: "unicode_tables \<Rightarrow> string \<Rightarrow> string option" where
  "ParseMediaType u v =
     (let base = fst (Cut v (CHR '';'')); mediatype = TrimSpace (ToLower u base) in
      if \<not> checkMediaTypeDisposition mediatype then None
      else if parse_params u (drop (length base) v) [] then Some mediatype else None)"

end
