(* ===== verification/Mta_Sts.thy ===== *)
theory Mta_Sts
  imports Dns Valid Go_Mime
begin

text \<open>
  The MTA-STS lookup of \<^verbatim>\<open>internal/mta-sts.go\<close>: the TXT record that announces a policy, the policy
  file parser, and the lookup with its retries. The HTTPS client is the parameter \<open>http_get\<close>: it maps
  a URL and a user agent to an error or a response (\<^verbatim>\<open>http.NewRequestWithContext\<close> and
  \<^verbatim>\<open>httpClient.Do\<close> together; redirects are not followed, so a redirect is a response).
\<close>

section \<open>The TXT record\<close>

definition isMtaStsTXTVersionCandidate :: "string \<Rightarrow> bool" where
  "isMtaStsTXTVersionCandidate record =
     (if \<not> HasPrefix record ''v=STSv1'' then False
      else let rest = dropWhile (\<lambda>c. c = CHR '' '' \<or> c = CHR 0x09) (drop (length ''v=STSv1'') record) in
        rest \<noteq> [] \<and> rest ! 0 = CHR '';'')"

definition isMtaStsTXTASCII :: "string \<Rightarrow> bool" where
  "isMtaStsTXTASCII record = list_all (\<lambda>c. \<not> (c \<noteq> CHR 0x09 \<and> (byte c < 0x20 \<or> 0x7e < byte c))) record"

definition isMtaStsTXTExtensionValue :: "string \<Rightarrow> bool" where
  "isMtaStsTXTExtensionValue value =
     (if value = [] then False
      else list_all (\<lambda>c. (0x21 \<le> byte c \<and> byte c \<le> 0x3a) \<or> byte c = 0x3c
                          \<or> (0x3e \<le> byte c \<and> byte c \<le> 0x7e)) value)"

definition isMtaStsAlphanum :: "char \<Rightarrow> bool" where
  "isMtaStsAlphanum b \<longleftrightarrow> is_lower b \<or> is_upper b \<or> is_digit b"

definition isMtaStsExtensionName :: "string \<Rightarrow> bool" where
  "isMtaStsExtensionName s =
     (if length s = 0 \<or> 32 < length s then False
      else if \<not> isMtaStsAlphanum (s ! 0) then False
      else list_all (\<lambda>c. isMtaStsAlphanum c \<or> c = CHR ''_'' \<or> c = CHR ''-'' \<or> c = CHR ''.'') (drop 1 s))"

text \<open>The loop over the fields after the version, with the flag \<^verbatim>\<open>hasID\<close>; a field is the last one
  when none follows it.\<close>

fun txt_fields :: "string list \<Rightarrow> bool \<Rightarrow> bool" where
  "txt_fields [] hasID = hasID"
| "txt_fields (rawField # others) hasID =
     (let lastField = (others = []);
          field = (if lastField then TrimLeftBlank rawField else TrimRightBlank (TrimLeftBlank rawField)) in
      if field = [] then (if lastField then txt_fields others hasID else False)
      else (case SplitN2 field (CHR ''='') of
              [key, value] \<Rightarrow>
                if key = ''id'' then
                  (if hasID then txt_fields others hasID
                   else if length value = 0 \<or> 32 < length value then False
                   else if \<not> list_all isMtaStsAlphanum value then False
                   else txt_fields others True)
                else if \<not> isMtaStsExtensionName key \<or> \<not> isMtaStsTXTExtensionValue value then False
                else txt_fields others hasID
            | _ \<Rightarrow> False))"

definition isValidMtaStsTXTRecord :: "string \<Rightarrow> bool" where
  "isValidMtaStsTXTRecord record =
     (if \<not> isMtaStsTXTASCII record \<or> \<not> isMtaStsTXTVersionCandidate record then False
      else let fs = Split record (CHR '';'') in
        if TrimRightBlank (hd fs) \<noteq> ''v=STSv1'' then False else txt_fields (tl fs) False)"

fun txt_candidates :: "rr list \<Rightarrow> string list" where
  "txt_candidates [] = []"
| "txt_candidates (TXT_rr h txt # answers) =
     (let record = Join txt [] in
      if isMtaStsTXTVersionCandidate record then record # txt_candidates answers
      else txt_candidates answers)"
| "txt_candidates (_ # answers) = txt_candidates answers"

definition mtaStsRecordAvailable :: "Msg \<Rightarrow> net_error + bool" where
  "mtaStsRecordAvailable r =
     (if m_Rcode r = RcodeSuccess then
        let candidates = txt_candidates (m_Answer r) in
        Inr (length candidates = 1 \<and> isValidMtaStsTXTRecord (candidates ! 0))
      else if m_Rcode r = RcodeNameError then Inr False
      else Inl (RcodeError (m_Rcode r)))"

definition checkMtaStsRecord :: "client \<Rightarrow> string \<Rightarrow> string \<Rightarrow> net_error + bool" where
  "checkMtaStsRecord client domain resolverAddress =
     (case exchangeDNS client (newDNSQuery (''_mta-sts.'' @ domain) TypeTXT False) resolverAddress of
        Inl err \<Rightarrow> Inl err
      | Inr r \<Rightarrow> mtaStsRecordAvailable r)"

section \<open>The policy file\<close>

definition MTASTS_MAX_AGE :: u64 where "MTASTS_MAX_AGE = 31557600"
definition MTASTS_MAX_POLICY_SIZE :: nat where "MTASTS_MAX_POLICY_SIZE = 65536"

record mtaStsPolicyParser =
  existingKeys :: "string \<Rightarrow> bool"
  mode :: string
  report :: string
  mxHosts :: string
  mxServers :: "string list"
  maxAge :: u32
  hasMaxAge :: bool
  hasMode :: bool
  hasVersion :: bool

definition newMtaStsPolicyParser :: mtaStsPolicyParser where
  "newMtaStsPolicyParser = \<lparr>existingKeys = (\<lambda>_. False), mode = [], report = [], mxHosts = [],
     mxServers = [], maxAge = 0, hasMaxAge = False, hasMode = False, hasVersion = False\<rparr>"

definition isMtaStsExtensionValue :: "string \<Rightarrow> bool" where
  "isMtaStsExtensionValue s =
     (if length s = 0 \<or> \<not> ValidString s then False
      else list_all (\<lambda>r. r = 0x20 \<or> (0x21 \<le> r \<and> r \<le> 0x7e) \<or> (0x80 \<le> r \<and> \<not> unicode_IsControl r)) (runes s))"

definition isMtaStsDigits :: "string \<Rightarrow> bool" where
  "isMtaStsDigits s = (if length s = 0 \<or> 10 < length s then False else list_all is_digit s)"

text \<open>\<^verbatim>\<open>strconv.ParseUint(s, 10, 64)\<close>.\<close>

definition ParseUint64 :: "string \<Rightarrow> u64 option" where
  "ParseUint64 s =
     (if s \<noteq> [] \<and> list_all is_digit s \<and> dec_val s < 2 ^ 64 then Some (word_of_nat (dec_val s)) else None)"

definition writeReportField :: "string \<Rightarrow> string \<Rightarrow> mtaStsPolicyParser \<Rightarrow> mtaStsPolicyParser" where
  "writeReportField key val p =
     p\<lparr>report := report p @ '' { policy_string = '' @ key @ '': '' @ val @ '' }''\<rparr>"

text \<open>The cases of \<^verbatim>\<open>parseLine\<close>, each with the parser after it and whether the line is accepted.\<close>

definition parse_version :: "string \<Rightarrow> mtaStsPolicyParser \<Rightarrow> mtaStsPolicyParser \<times> bool" where
  "parse_version val p =
     (if val \<noteq> ''STSv1'' then (p, False)
      else (writeReportField ''version'' val (p\<lparr>hasVersion := True\<rparr>), True))"

definition parse_mx :: "unicode_tables \<Rightarrow> string \<Rightarrow> mtaStsPolicyParser \<Rightarrow> mtaStsPolicyParser \<times> bool" where
  "parse_mx u val p =
     (if (if HasPrefix val ''*.'' then \<not> IsDNSName (drop 2 val) else \<not> IsDNSName val) then (p, False)
      else let lval = ToLower u val;
               server = (if HasPrefix lval ''*.'' then drop 1 lval else lval) in
        (writeReportField ''mx'' val
           (p\<lparr>mxHosts := mxHosts p @ '' mx_host_pattern='' @ lval, mxServers := mxServers p @ [server]\<rparr>), True))"

definition parse_mode :: "string \<Rightarrow> mtaStsPolicyParser \<Rightarrow> mtaStsPolicyParser \<times> bool" where
  "parse_mode val p =
     (if val \<noteq> ''enforce'' \<and> val \<noteq> ''testing'' \<and> val \<noteq> ''none'' then (p, False)
      else (writeReportField ''mode'' val (p\<lparr>mode := val, hasMode := True\<rparr>), True))"

definition parse_max_age :: "string \<Rightarrow> mtaStsPolicyParser \<Rightarrow> mtaStsPolicyParser \<times> bool" where
  "parse_max_age val p =
     (if \<not> isMtaStsDigits val then (p, False)
      else (case ParseUint64 val of
              None \<Rightarrow> (p, False)
            | Some age \<Rightarrow>
                (writeReportField ''max_age'' val
                   (p\<lparr>maxAge := (if age > MTASTS_MAX_AGE then ucast MTASTS_MAX_AGE else ucast age),
                      hasMaxAge := True\<rparr>), True)))"

definition parse_extension :: "string \<Rightarrow> string \<Rightarrow> mtaStsPolicyParser \<Rightarrow> mtaStsPolicyParser \<times> bool" where
  "parse_extension key val p =
     (if \<not> isMtaStsExtensionValue val then (p, False)
      else if ContainsAny val ''{}'' then (p, True)
      else (writeReportField key val p, True))"

definition known_key :: "string \<Rightarrow> bool" where
  "known_key key \<longleftrightarrow> key = ''version'' \<or> key = ''mode'' \<or> key = ''mx'' \<or> key = ''max_age''"

definition parse_field :: "unicode_tables \<Rightarrow> string \<Rightarrow> string \<Rightarrow> mtaStsPolicyParser \<Rightarrow> mtaStsPolicyParser \<times> bool" where
  "parse_field u key val p =
     (if \<not> known_key key \<and> \<not> isMtaStsExtensionName key then (p, False)
      else if key \<noteq> ''mx'' \<and> existingKeys p key then (p, True)
      else let p1 = p\<lparr>existingKeys := (existingKeys p)(key := True)\<rparr> in
        if key = ''version'' then parse_version val p1
        else if key = ''mx'' then parse_mx u val p1
        else if key = ''mode'' then parse_mode val p1
        else if key = ''max_age'' then parse_max_age val p1
        else parse_extension key val p1)"

definition parseLine :: "unicode_tables \<Rightarrow> string \<Rightarrow> mtaStsPolicyParser \<Rightarrow> mtaStsPolicyParser \<times> bool" where
  "parseLine u line0 p =
     (let line = TrimRightBlank line0 in
      if length line = 0 then (p, False)
      else (case SplitN2 line (CHR '':'') of
              [key, v] \<Rightarrow> parse_field u key (TrimLeftBlank v) p
            | _ \<Rightarrow> (p, False)))"

definition reportFor :: "string \<Rightarrow> mtaStsPolicyParser \<Rightarrow> string" where
  "reportFor domain p = ''policy_type=sts policy_domain='' @ domain @ mxHosts p @ report p"

text \<open>A body reader delivers bytes and then ends or fails. \<^verbatim>\<open>io.ReadAll\<close> over \<^verbatim>\<open>io.LimitReader\<close> stops
  at the limit before it can see a later failure.\<close>

record body_reader =
  br_bytes :: string
  br_fails :: bool

definition ReadAll_limited :: "nat \<Rightarrow> body_reader \<Rightarrow> string option" where
  "ReadAll_limited n r =
     (if n \<le> length (br_bytes r) then Some (take n (br_bytes r))
      else if br_fails r then None else Some (br_bytes r))"

text \<open>\<^verbatim>\<open>bufio.Scanner\<close> with \<^verbatim>\<open>ScanLines\<close>: a line ends at a line feed or at the end of the data, and one
  carriage return before that is dropped. A pending line that fills the buffer of
  \<^verbatim>\<open>MaxScanTokenSize\<close> bytes is an error; the flag tells.\<close>

definition MaxScanTokenSize :: nat where "MaxScanTokenSize = 65536"

definition dropCR :: "string \<Rightarrow> string" where
  "dropCR s = (if s \<noteq> [] \<and> last s = CHR 0x0D then butlast s else s)"

fun scan_lines :: "string \<Rightarrow> string \<Rightarrow> string list \<times> bool" where
  "scan_lines [] pending =
     (if MaxScanTokenSize \<le> length pending then ([], True)
      else if pending = [] then ([], False) else ([dropCR pending], False))"
| "scan_lines (c # s) pending =
     (if MaxScanTokenSize \<le> length pending then ([], True)
      else if c = CHR 0x0A then (dropCR pending # fst (scan_lines s []), snd (scan_lines s []))
      else scan_lines s (pending @ [c]))"

fun parse_lines :: "unicode_tables \<Rightarrow> string list \<Rightarrow> mtaStsPolicyParser \<Rightarrow> mtaStsPolicyParser option" where
  "parse_lines u [] p = Some p"
| "parse_lines u (line # ls) p =
     (case parseLine u line p of (p', ok) \<Rightarrow> if \<not> ok then None else parse_lines u ls p')"

definition policy_result :: "string \<Rightarrow> mtaStsPolicyParser \<Rightarrow> string \<times> string \<times> u32" where
  "policy_result domain p =
     (if \<not> hasVersion p \<or> \<not> hasMode p \<or> \<not> hasMaxAge p \<or> (mode p \<noteq> ''none'' \<and> length (mxServers p) = 0)
      then ([], [], 0)
      else if mode p = ''enforce'' \<and> length (mxServers p) \<noteq> 0
      then (''secure match='' @ Join (mxServers p) '':'' @ '' servername=hostname'', reportFor domain p, maxAge p)
      else ([], [], maxAge p))"

definition parseMtaStsPolicy :: "unicode_tables \<Rightarrow> string \<Rightarrow> body_reader \<Rightarrow> string \<times> string \<times> u32" where
  "parseMtaStsPolicy u domain r =
     (case ReadAll_limited (MTASTS_MAX_POLICY_SIZE + 1) r of
        None \<Rightarrow> ([], [], 0)
      | Some body \<Rightarrow>
          if MTASTS_MAX_POLICY_SIZE < length body then ([], [], 0)
          else (case parse_lines u (fst (scan_lines body [])) newMtaStsPolicyParser of
                  None \<Rightarrow> ([], [], 0)
                | Some p \<Rightarrow> if snd (scan_lines body []) then ([], [], 0) else policy_result domain p))"

section \<open>The lookup\<close>

record http_response =
  h_StatusCode :: nat
  h_ContentType :: string
  h_Body :: body_reader

type_synonym http_get = "string \<Rightarrow> string \<Rightarrow> net_error + http_response"

definition isValidMtaStsPolicyMediaType :: "unicode_tables \<Rightarrow> string \<Rightarrow> bool" where
  "isValidMtaStsPolicyMediaType u contentType =
     (case ParseMediaType u contentType of
        None \<Rightarrow> False
      | Some mediaType \<Rightarrow> EqualFold u mediaType ''text/plain'')"

definition checkMtaStsOnce ::
    "unicode_tables \<Rightarrow> client \<Rightarrow> http_get \<Rightarrow> string \<Rightarrow> string \<Rightarrow> string \<Rightarrow> net_error + (string \<times> string \<times> u32)" where
  "checkMtaStsOnce u client http_get Version domain resolverAddress =
     (case checkMtaStsRecord client domain resolverAddress of
        Inl err \<Rightarrow> Inl err
      | Inr hasRecord \<Rightarrow>
          if \<not> hasRecord then Inr ([], [], 0)
          else (case http_get (''https://mta-sts.'' @ domain @ ''/.well-known/mta-sts.txt'')
                       (''postfix-tlspol/'' @ Version) of
                  Inl err \<Rightarrow> Inl err
                | Inr resp \<Rightarrow>
                    if h_StatusCode resp \<noteq> 200 then Inr ([], [], 0)
                    else if \<not> isValidMtaStsPolicyMediaType u (h_ContentType resp) then Inr ([], [], 0)
                    else Inr (parseMtaStsPolicy u domain (h_Body resp))))"

text \<open>\<open>resolver\<close> is the result of \<^verbatim>\<open>config.Dns.GetResolverAddress\<close>; the network and the context may
  behave differently in every attempt.\<close>

definition checkMtaSts ::
    "unicode_tables \<Rightarrow> (nat \<Rightarrow> client) \<Rightarrow> (nat \<Rightarrow> http_get) \<Rightarrow> string \<Rightarrow> (nat \<Rightarrow> bool) \<Rightarrow> (nat \<Rightarrow> bool) \<Rightarrow>
     string option \<Rightarrow> string \<Rightarrow> bool \<Rightarrow> string \<times> string \<times> u32" where
  "checkMtaSts u client http_get Version ctx_err wait resolver domain mayRetry =
     (case resolver of
        None \<Rightarrow> (''TEMP'', [], 0)
      | Some resolverAddress \<Rightarrow>
          fst (policy_attempts (\<lambda>i. checkMtaStsOnce u (client i) (http_get i) Version domain resolverAddress)
            ctx_err wait (''TEMP'', [], 0) mayRetry))"


section \<open>What the parser has seen\<close>

text \<open>The fields of a policy file as a list of keys and values, without the parser: the first value
  of a key counts, except that every \<^verbatim>\<open>mx\<close> counts.\<close>

definition line_field :: "string \<Rightarrow> (string \<times> string) option" where
  "line_field line =
     (case SplitN2 (TrimRightBlank line) (CHR '':'') of
        [key, v] \<Rightarrow> Some (key, TrimLeftBlank v)
      | _ \<Rightarrow> None)"

definition first_value :: "(string \<times> string) list \<Rightarrow> string \<Rightarrow> string option" where
  "first_value fs key = map_of fs key"

definition mx_values :: "(string \<times> string) list \<Rightarrow> string list" where
  "mx_values fs = map snd (filter (\<lambda>f. fst f = ''mx'') fs)"

definition valid_mx :: "string \<Rightarrow> bool" where
  "valid_mx val \<longleftrightarrow> (if HasPrefix val ''*.'' then IsDNSName (drop 2 val) else IsDNSName val)"

definition mx_server :: "string \<Rightarrow> string" where
  "mx_server val = (if HasPrefix val ''*.'' then drop 1 (map ascii_lower val) else map ascii_lower val)"

definition capped_age :: "string \<Rightarrow> nat" where
  "capped_age val = min (dec_val val) 31557600"

definition parser_inv :: "(string \<times> string) list \<Rightarrow> mtaStsPolicyParser \<Rightarrow> bool" where
  "parser_inv fs p \<longleftrightarrow>
     (\<forall>k. existingKeys p k \<longleftrightarrow> k \<in> fst ` set fs)
     \<and> (hasVersion p \<longrightarrow> first_value fs ''version'' = Some ''STSv1'')
     \<and> (hasMode p \<longrightarrow> first_value fs ''mode'' = Some (mode p))
     \<and> (hasMaxAge p \<longrightarrow> (\<exists>a. first_value fs ''max_age'' = Some a \<and> isMtaStsDigits a \<and> unat (maxAge p) = capped_age a))
     \<and> mxServers p = map mx_server (mx_values fs) \<and> list_all valid_mx (mx_values fs)"

lemma valid_mx_ascii: "valid_mx val \<Longrightarrow> list_all is_ascii val"
proof -
  assume v: "valid_mx val"
  have star: "list_all is_ascii ''*.''" by (simp add: is_ascii_def)
  show ?thesis
  proof (cases "HasPrefix val ''*.''")
    case True
    then obtain t where t: "val = ''*.'' @ t" by (rule HasPrefixE)
    with v True have "IsDNSName t" by (simp add: valid_mx_def)
    with t star show ?thesis by (simp add: IsDNSName_ascii)
  qed (use v in \<open>auto simp: valid_mx_def IsDNSName_ascii\<close>)
qed

lemma HasPrefix_lower: "HasPrefix (map ascii_lower val) ''*.'' \<longleftrightarrow> HasPrefix val ''*.''"
proof -
  have "ascii_lower c = CHR ''*'' \<longleftrightarrow> c = CHR ''*''" for c
    by (auto simp: ascii_lower_def is_upper_def dest: arg_cong [where f = byte])
  then show ?thesis by (cases val; cases "tl val"; simp add: HasPrefix_def ascii_lower_classes)
qed

lemma parse_mx_eq:
  "parse_mx u val p =
     (if valid_mx val
      then (writeReportField ''mx'' val
              (p\<lparr>mxHosts := mxHosts p @ '' mx_host_pattern='' @ map ascii_lower val,
                 mxServers := mxServers p @ [mx_server val]\<rparr>), True)
      else (p, False))"
proof (cases "valid_mx val")
  case True
  then have "ToLower u val = map ascii_lower val" by (simp add: ToLower_ascii valid_mx_ascii)
  with True show ?thesis
    by (auto simp: parse_mx_def valid_mx_def mx_server_def Let_def HasPrefix_lower)
next
  case False
  then show ?thesis by (auto simp: parse_mx_def valid_mx_def Let_def)
qed

lemma dec_val_bound: "list_all is_digit s \<Longrightarrow> dec_val s < 10 ^ length s"
proof (induction s rule: rev_induct)
  case (snoc c s)
  then have "dec_val s < 10 ^ length s" "digit_val c < 10" by simp_all
  then show ?case by simp
qed simp

lemma digits_small: "isMtaStsDigits val \<Longrightarrow> dec_val val < 10 ^ 10"
proof -
  assume d: "isMtaStsDigits val"
  then have "dec_val val < 10 ^ length val" by (auto simp: isMtaStsDigits_def dec_val_bound split: if_splits)
  also have "\<dots> \<le> (10 :: nat) ^ 10"
    using d by (intro power_increasing) (auto simp: isMtaStsDigits_def split: if_splits)
  finally show ?thesis .
qed

lemma parse_max_age_eq:
  "parse_max_age val p =
     (if isMtaStsDigits val
      then (writeReportField ''max_age'' val
              (p\<lparr>maxAge := word_of_nat (capped_age val), hasMaxAge := True\<rparr>), True)
      else (p, False))"
proof (cases "isMtaStsDigits val")
  case True
  from digits_small [OF this] have b: "dec_val val < 10000000000" by simp
  have P: "ParseUint64 val = Some (word_of_nat (dec_val val))"
    using True b by (auto simp: ParseUint64_def isMtaStsDigits_def split: if_splits)
  let ?a = "word_of_nat (dec_val val) :: u64"
  have u: "unat ?a = dec_val val" using b by (simp add: unat_of_nat)
  have "(if ?a > MTASTS_MAX_AGE then ucast MTASTS_MAX_AGE else ucast ?a :: u32) = word_of_nat (capped_age val)"
  proof (cases "?a > MTASTS_MAX_AGE")
    case True
    then have "31557600 < dec_val val" using u by (simp add: word_less_nat_alt MTASTS_MAX_AGE_def)
    with True show ?thesis by (simp add: capped_age_def MTASTS_MAX_AGE_def)
  next
    case False
    then have "dec_val val \<le> 31557600" using u by (simp add: word_less_nat_alt MTASTS_MAX_AGE_def)
    moreover have "(ucast ?a :: u32) = word_of_nat (unat ?a)" by simp
    ultimately show ?thesis using False u by (simp add: capped_age_def)
  qed
  with True P show ?thesis by (simp add: parse_max_age_def)
next
  case False
  then show ?thesis by (simp add: parse_max_age_def)
qed

lemma unat_capped_age: "unat (word_of_nat (capped_age val) :: u32) = capped_age val"
  by (simp add: unat_of_nat capped_age_def)


lemma first_value_snoc:
  "first_value (fs @ [(k, v)]) x = (if k = x \<and> first_value fs k = None then Some v else first_value fs x)"
  by (auto simp: first_value_def map_add_def split: option.splits)

lemma first_value_None: "first_value fs k = None \<longleftrightarrow> k \<notin> fst ` set fs"
  by (simp add: first_value_def map_of_eq_None_iff)

lemma mx_values_snoc: "mx_values (fs @ [(k, v)]) = mx_values fs @ (if k = ''mx'' then [v] else [])"
  by (simp add: mx_values_def)

lemma parser_inv_new: "parser_inv [] newMtaStsPolicyParser"
  by (simp add: parser_inv_def newMtaStsPolicyParser_def mx_values_def first_value_def)

lemma writeReportField_frame [simp]:
  "existingKeys (writeReportField k v p) = existingKeys p" "mode (writeReportField k v p) = mode p"
  "mxHosts (writeReportField k v p) = mxHosts p"
  "mxServers (writeReportField k v p) = mxServers p" "maxAge (writeReportField k v p) = maxAge p"
  "hasMaxAge (writeReportField k v p) = hasMaxAge p" "hasMode (writeReportField k v p) = hasMode p"
  "hasVersion (writeReportField k v p) = hasVersion p"
  by (simp_all add: writeReportField_def)

text \<open>A repeated key other than \<^verbatim>\<open>mx\<close> changes nothing.\<close>

lemma parser_inv_dup:
  assumes "parser_inv fs p" "existingKeys p k" "k \<noteq> ''mx''"
  shows "parser_inv (fs @ [(k, v)]) p"
proof -
  from assms have "first_value fs k \<noteq> None" by (simp add: parser_inv_def first_value_None)
  with assms show ?thesis by (auto simp: parser_inv_def mx_values_snoc first_value_snoc)
qed

lemma parser_inv_new_key:
  assumes "parser_inv fs p" "\<not> existingKeys p k \<or> k = ''mx''"
    and "p' = p\<lparr>existingKeys := (existingKeys p)(k := True)\<rparr>"
    and "(if k = ''version'' then parse_version v p' else if k = ''mx'' then parse_mx u v p'
      else if k = ''mode'' then parse_mode v p' else if k = ''max_age'' then parse_max_age v p'
      else parse_extension k v p') = (q, True)"
  shows "parser_inv (fs @ [(k, v)]) q"
proof -
  have none: "k = ''mx'' \<or> first_value fs k = None"
    using assms(1,2) by (auto simp: parser_inv_def first_value_None)
  consider "k = ''version''" | "k = ''mx''" | "k = ''mode''" | "k = ''max_age''" | "\<not> known_key k"
    by (auto simp: known_key_def)
  then show ?thesis
  proof cases
    case 1
    with assms(3,4) none have "v = ''STSv1''" "q = writeReportField ''version'' v (p'\<lparr>hasVersion := True\<rparr>)"
      by (auto simp: parse_version_def split: if_splits)
    with 1 assms(1,3) none show ?thesis by (simp add: parser_inv_def mx_values_snoc first_value_snoc)
  next
    case 2
    with assms(4) obtain h where "valid_mx v"
      "q = writeReportField ''mx'' v (p'\<lparr>mxHosts := h, mxServers := mxServers p' @ [mx_server v]\<rparr>)"
      by (auto simp: parse_mx_eq split: if_splits)
    with 2 assms(1,3) show ?thesis by (simp add: parser_inv_def mx_values_snoc first_value_snoc)
  next
    case 3
    with assms(3,4) have "q = writeReportField ''mode'' v (p'\<lparr>mode := v, hasMode := True\<rparr>)"
      by (auto simp: parse_mode_def split: if_splits)
    with 3 assms(1,3) none show ?thesis by (simp add: parser_inv_def mx_values_snoc first_value_snoc)
  next
    case 4
    with assms(3,4) have "isMtaStsDigits v"
      "q = writeReportField ''max_age'' v (p'\<lparr>maxAge := word_of_nat (capped_age v), hasMaxAge := True\<rparr>)"
      by (auto simp: parse_max_age_eq split: if_splits)
    with 4 assms(1,3) none show ?thesis
      by (simp add: parser_inv_def mx_values_snoc first_value_snoc unat_capped_age)
  next
    case 5
    with assms(4) have "q = p' \<or> q = writeReportField k v p'"
      by (auto simp: known_key_def parse_extension_def split: if_splits)
    with 5 assms(1,3) none show ?thesis
      by (elim disjE) (simp_all add: known_key_def parser_inv_def mx_values_snoc first_value_snoc)
  qed
qed

lemma parseLine_inv:
  assumes "parser_inv fs p" "parseLine u line p = (q, True)"
  shows "\<exists>f. line_field line = Some f \<and> parser_inv (fs @ [f]) q"
proof -
  from assms(2) obtain key v where kv: "SplitN2 (TrimRightBlank line) (CHR '':'') = [key, v]"
    and f: "parse_field u key (TrimLeftBlank v) p = (q, True)"
    by (auto simp: parseLine_def Let_def split: if_splits list.splits)
  have "parser_inv (fs @ [(key, TrimLeftBlank v)]) q"
  proof (cases "key \<noteq> ''mx'' \<and> existingKeys p key")
    case True
    with f have "q = p" by (auto simp: parse_field_def split: if_splits)
    with True assms(1) show ?thesis by (simp add: parser_inv_dup)
  next
    case False
    from f show ?thesis
      using False by (intro parser_inv_new_key [OF assms(1) _ refl, where u = u])
        (auto simp: parse_field_def Let_def split: if_splits)
  qed
  with kv show ?thesis by (simp add: line_field_def)
qed

lemma parse_lines_inv:
  assumes "parser_inv fs p" "parse_lines u ls p = Some q"
  shows "\<exists>gs. map line_field ls = map Some gs \<and> parser_inv (fs @ gs) q"
  using assms
proof (induction ls arbitrary: fs p)
  case (Cons l ls)
  then obtain p' where p': "parseLine u l p = (p', True)" "parse_lines u ls p' = Some q"
    by (auto split: prod.splits if_splits)
  from parseLine_inv [OF Cons.prems(1) p'(1)] obtain f where f: "line_field l = Some f" "parser_inv (fs @ [f]) p'"
    by blast
  from Cons.IH [OF f(2) p'(2)] obtain gs where "map line_field ls = map Some gs" "parser_inv ((fs @ [f]) @ gs) q"
    by blast
  with f(1) show ?case by (intro exI [of _ "f # gs"]) simp
qed simp


lemma parseMtaStsPolicy_parsed:
  assumes "parseMtaStsPolicy u domain r = (pol, rep, ttl)" "pol \<noteq> []"
  shows "\<exists>p fs. map line_field (fst (scan_lines (br_bytes r) [])) = map Some fs \<and> parser_inv fs p
    \<and> \<not> br_fails r \<and> length (br_bytes r) \<le> 65536
    \<and> hasVersion p \<and> hasMode p \<and> hasMaxAge p \<and> mode p = ''enforce'' \<and> mxServers p \<noteq> []
    \<and> pol = ''secure match='' @ Join (mxServers p) '':'' @ '' servername=hostname'' \<and> ttl = maxAge p"
proof -
  from assms obtain body p where
    b: "ReadAll_limited (MTASTS_MAX_POLICY_SIZE + 1) r = Some body" "length body \<le> MTASTS_MAX_POLICY_SIZE"
    and p: "parse_lines u (fst (scan_lines body [])) newMtaStsPolicyParser = Some p"
    and res: "policy_result domain p = (pol, rep, ttl)"
    by (auto simp: parseMtaStsPolicy_def split: option.splits if_splits)
  from b have body: "body = br_bytes r" "\<not> br_fails r"
    by (auto simp: ReadAll_limited_def split: if_splits)
  from parse_lines_inv [OF parser_inv_new p] obtain fs
    where fs: "map line_field (fst (scan_lines body [])) = map Some fs" "parser_inv fs p" by auto
  have "hasVersion p \<and> hasMode p \<and> hasMaxAge p \<and> mode p = ''enforce'' \<and> mxServers p \<noteq> []
    \<and> pol = ''secure match='' @ Join (mxServers p) '':'' @ '' servername=hostname'' \<and> ttl = maxAge p"
    using res assms(2) by (auto simp: policy_result_def split: if_splits)
  with fs body b(2) show ?thesis by (auto simp: MTASTS_MAX_POLICY_SIZE_def)
qed

text \<open>A string that is safe in a Postfix match list: a lower-case domain name, or one after a dot.\<close>

definition mx_match :: "string \<Rightarrow> bool" where
  "mx_match s \<longleftrightarrow> list_all (\<lambda>c. \<not> is_upper c) s \<and> IsDNSName (if HasPrefix s ''.'' then drop 1 s else s)"

lemma valid_mx_match: "valid_mx val \<Longrightarrow> mx_match (mx_server val)"
proof (cases "HasPrefix val ''*.''")
  case True
  assume v: "valid_mx val"
  from True obtain t where t: "val = ''*.'' @ t" by (rule HasPrefixE)
  have m: "mx_server val = CHR ''.'' # map ascii_lower t"
    using t by (simp add: mx_server_def HasPrefix_def ascii_lower_id is_upper_def)
  from v t True have "IsDNSName t" by (simp add: valid_mx_def)
  then have "IsDNSName (map ascii_lower t)" by (simp add: IsDNSName_lower)
  then show ?thesis
    unfolding mx_match_def m by (simp add: HasPrefix_def list_all_iff ascii_lower_not_upper) (simp add: is_upper_def)
next
  case False
  assume v: "valid_mx val"
  from False v have n: "IsDNSName (map ascii_lower val)" by (simp add: valid_mx_def IsDNSName_lower)
  then have "\<not> HasPrefix (map ascii_lower val) ''.''"
    using IsDNSName_hd_not_dot [OF n] by (cases val) (auto simp: HasPrefix_def IsDNSName_def)
  with n False show ?thesis
    by (simp add: mx_match_def mx_server_def list_all_iff ascii_lower_not_upper)
qed

lemma mx_match_no_colon: "mx_match s \<Longrightarrow> CHR '':'' \<notin> set s"
proof
  assume m: "mx_match s" and c: "CHR '':'' \<in> set s"
  let ?t = "if HasPrefix s ''.'' then drop 1 s else s"
  from m have n: "IsDNSName ?t" by (simp add: mx_match_def)
  from c have "CHR '':'' \<in> set ?t" by (cases s) (auto simp: HasPrefix_def)
  with IsDNSName_chars [OF n] show False by fastforce
qed

section \<open>Published policies are read back\<close>

text \<open>A policy file as RFC 8461 writes it.\<close>

definition crlf :: string where "crlf = [CHR 0x0D, CHR 0x0A]"

definition policy_lines :: "string \<Rightarrow> string list \<Rightarrow> nat \<Rightarrow> string list" where
  "policy_lines m mxs age =
     [''version: STSv1'', ''mode: '' @ m] @ map (\<lambda>v. ''mx: '' @ v) mxs @ [''max_age: '' @ Itoa age]"

definition render_policy :: "string \<Rightarrow> string list \<Rightarrow> nat \<Rightarrow> string" where
  "render_policy m mxs age = concat (map (\<lambda>l. l @ crlf) (policy_lines m mxs age))"

lemma scan_lines_line:
  "CHR 0x0A \<notin> set w \<Longrightarrow> length (pending @ w) < MaxScanTokenSize \<Longrightarrow>
   scan_lines (w @ CHR 0x0A # s) pending =
     (dropCR (pending @ w) # fst (scan_lines s []), snd (scan_lines s []))"
  by (induction w arbitrary: pending) auto

lemma scan_lines_render:
  "(\<And>l. l \<in> set ls \<Longrightarrow> CHR 0x0A \<notin> set l \<and> length l + 1 < MaxScanTokenSize) \<Longrightarrow>
   scan_lines (concat (map (\<lambda>l. l @ crlf) ls)) [] = (ls, False)"
proof (induction ls)
  case Nil
  then show ?case by (simp add: MaxScanTokenSize_def)
next
  case (Cons l ls)
  have "scan_lines ((l @ [CHR 0x0D]) @ CHR 0x0A # concat (map (\<lambda>l. l @ crlf) ls)) [] =
      (dropCR ([] @ l @ [CHR 0x0D]) # ls, False)"
    using Cons by (subst scan_lines_line) auto
  then show ?case by (simp add: crlf_def dropCR_def)
qed

lemma TrimLeftBlank_id: "v \<noteq> [] \<Longrightarrow> \<not> blank_tab (hd v) \<Longrightarrow> TrimLeftBlank v = v"
  by (cases v) (simp_all add: TrimLeftBlank_def)

lemma TrimRightBlank_id: "v \<noteq> [] \<Longrightarrow> \<not> blank_tab (last v) \<Longrightarrow> TrimRightBlank v = v"
  by (cases v rule: rev_cases) (simp_all add: TrimRightBlank_def)

definition plain_value :: "string \<Rightarrow> bool" where
  "plain_value v \<longleftrightarrow> v \<noteq> [] \<and> list_all (\<lambda>c. \<not> blank_tab c \<and> c \<noteq> CHR 0x0A) v"

lemma parseLine_field:
  assumes "CHR '':'' \<notin> set key" "plain_value v"
  shows "parseLine u (key @ CHR '':'' # CHR '' '' # v) p = parse_field u key v p"
proof -
  have v: "v \<noteq> []" "\<not> blank_tab (hd v)" "\<not> blank_tab (last v)"
    using assms(2) by (auto simp: plain_value_def list_all_iff)
  then have t: "TrimRightBlank (key @ CHR '':'' # CHR '' '' # v) = key @ CHR '':'' # CHR '' '' # v"
    by (intro TrimRightBlank_id) simp_all
  have "TrimLeftBlank (CHR '' '' # v) = v"
    using TrimLeftBlank_id [OF v(1,2)] by (simp add: TrimLeftBlank_def blank_tab_def)
  with t assms(1) show ?thesis by (simp add: parseLine_def SplitN2_def Cut_append Let_def)
qed

lemma plain_digits: "plain_value (Itoa n)"
  using Itoa_digits [of _ n]
  by (fastforce simp: plain_value_def list_all_iff blank_tab_def is_digit_def)

lemma length_Itoa: "n < 10 ^ k \<Longrightarrow> 1 \<le> k \<Longrightarrow> length (Itoa n) \<le> k"
proof (induction k arbitrary: n)
  case (Suc k)
  show ?case
  proof (cases "n < 10")
    case False
    with Suc.prems have "n div 10 < 10 ^ k" "1 \<le> k" by (auto simp: less_mult_imp_div_less not_less Suc_le_eq intro: Suc_leI gr0I)
    with Suc.IH [of "n div 10"] False show ?thesis by (subst Itoa.simps) simp
  qed (simp add: Itoa.simps)
qed simp

lemma isMtaStsDigits_Itoa: "n < 10 ^ 10 \<Longrightarrow> isMtaStsDigits (Itoa n)"
  using length_Itoa [of n 10] Itoa_digits [of _ n] by (auto simp: isMtaStsDigits_def list_all_iff)

lemma plain_valid_mx: "valid_mx v \<Longrightarrow> plain_value v"
proof -
  assume v: "valid_mx v"
  have n: "plain_value t" if "IsDNSName t" for t
    using that IsDNSName_chars [OF that]
    by (fastforce simp: plain_value_def list_all_iff blank_tab_def ldh_def is_lower_def is_upper_def
        is_digit_def IsDNSName_def)
  show ?thesis
  proof (cases "HasPrefix v ''*.''")
    case True
    then obtain t where t: "v = ''*.'' @ t" by (rule HasPrefixE)
    with v True n [of t] show ?thesis by (simp add: valid_mx_def plain_value_def blank_tab_def)
  qed (use v n in \<open>simp add: valid_mx_def\<close>)
qed


lemma parse_lines_mx:
  "list_all valid_mx mxs \<Longrightarrow>
   \<exists>q. parse_lines u (map (\<lambda>v. ''mx: '' @ v) mxs @ ls) p = parse_lines u ls q
     \<and> mxServers q = mxServers p @ map mx_server mxs \<and> hasVersion q = hasVersion p
     \<and> hasMode q = hasMode p \<and> mode q = mode p
     \<and> existingKeys q ''max_age'' = existingKeys p ''max_age''"
proof (induction mxs arbitrary: p)
  case (Cons v mxs)
  then have v: "valid_mx v" and vs: "list_all valid_mx mxs" by simp_all
  obtain p' where p': "parse_field u ''mx'' v p = (p', True)" "mxServers p' = mxServers p @ [mx_server v]"
    "hasVersion p' = hasVersion p" "hasMode p' = hasMode p" "mode p' = mode p"
    "existingKeys p' ''max_age'' = existingKeys p ''max_age''"
    using v by (simp add: parse_field_def known_key_def parse_mx_eq)
  have "parseLine u (''mx: '' @ v) p = (p', True)"
    using parseLine_field [of "''mx''" v u p] plain_valid_mx [OF v] p'(1) by simp
  with p' Cons.IH [OF vs, of p'] show ?case by auto
qed auto

lemma parse_policy_lines:
  assumes "list_all valid_mx mxs" "m \<in> {''enforce'', ''testing'', ''none''}" "age < 10 ^ 10"
  shows "\<exists>q. parse_lines u (policy_lines m mxs age) newMtaStsPolicyParser = Some q
    \<and> hasVersion q \<and> hasMode q \<and> mode q = m \<and> hasMaxAge q \<and> mxServers q = map mx_server mxs
    \<and> maxAge q = word_of_nat (min age 31557600)"
proof -
  let ?p1 = "writeReportField ''version'' ''STSv1''
    (newMtaStsPolicyParser\<lparr>existingKeys := (existingKeys newMtaStsPolicyParser)(''version'' := True), hasVersion := True\<rparr>)"
  let ?p2 = "writeReportField ''mode'' m
    (?p1\<lparr>existingKeys := (existingKeys ?p1)(''mode'' := True), mode := m, hasMode := True\<rparr>)"
  have "parseLine u (''version'' @ CHR '':'' # CHR '' '' # ''STSv1'') newMtaStsPolicyParser = (?p1, True)"
    by (subst parseLine_field) (simp_all add: plain_value_def blank_tab_def parse_field_def known_key_def
        parse_version_def newMtaStsPolicyParser_def)
  moreover have "plain_value m" using assms(2) by (auto simp: plain_value_def blank_tab_def)
  then have "parseLine u (''mode'' @ CHR '':'' # CHR '' '' # m) ?p1 = (?p2, True)"
    using assms(2) by (subst parseLine_field) (auto simp: parse_field_def known_key_def parse_mode_def newMtaStsPolicyParser_def)
  ultimately have start: "parse_lines u (policy_lines m mxs age) newMtaStsPolicyParser =
      parse_lines u (map (\<lambda>v. ''mx: '' @ v) mxs @ [''max_age: '' @ Itoa age]) ?p2"
    by (simp add: policy_lines_def)
  obtain q where q: "parse_lines u (map (\<lambda>v. ''mx: '' @ v) mxs @ [''max_age: '' @ Itoa age]) ?p2 =
      parse_lines u [''max_age: '' @ Itoa age] q"
    "mxServers q = map mx_server mxs" "hasVersion q" "hasMode q" "mode q = m" "\<not> existingKeys q ''max_age''"
    using parse_lines_mx [OF assms(1), of u "[''max_age: '' @ Itoa age]" ?p2]
    by (auto simp: newMtaStsPolicyParser_def)
  have "parseLine u (''max_age'' @ CHR '':'' # CHR '' '' # Itoa age) q = parse_field u ''max_age'' (Itoa age) q"
    by (rule parseLine_field) (simp_all add: plain_digits)
  then show ?thesis
    using start q isMtaStsDigits_Itoa [OF assms(3)]
    by (simp add: parse_field_def known_key_def parse_max_age_eq capped_age_def)
qed

lemma policy_lines_plain:
  assumes "list_all valid_mx mxs" "m \<in> {''enforce'', ''testing'', ''none''}" "l \<in> set (policy_lines m mxs age)"
  shows "CHR 0x0A \<notin> set l"
proof -
  have n: "CHR 0x0A \<notin> set v" if "plain_value v" for v using that by (auto simp: plain_value_def list_all_iff)
  from assms(3) consider "l = ''version: STSv1''" | "l = ''mode: '' @ m"
    | v where "v \<in> set mxs" "l = ''mx: '' @ v" | "l = ''max_age: '' @ Itoa age"
    unfolding policy_lines_def by auto
  then show ?thesis
  proof cases
    case 2
    with assms(2) show ?thesis by auto
  next
    case 3
    with assms(1) have "plain_value v" by (simp add: list_all_iff plain_valid_mx)
    from n [OF this] 3 show ?thesis by simp
  qed (use n [OF plain_digits [of age]] in simp_all)
qed

lemma length_render_line:
  "l \<in> set ls \<Longrightarrow> length l + 2 \<le> length (concat (map (\<lambda>l. l @ crlf) ls))"
  by (induction ls) (auto simp: crlf_def)

lemma parse_render:
  assumes "list_all valid_mx mxs" "mxs \<noteq> []" "m \<in> {''enforce'', ''testing'', ''none''}" "age < 10 ^ 10"
    and "length (render_policy m mxs age) \<le> 65536"
  shows "\<exists>rep. parseMtaStsPolicy u domain \<lparr>br_bytes = render_policy m mxs age, br_fails = False\<rparr> =
    (if m = ''enforce'' then ''secure match='' @ Join (map mx_server mxs) '':'' @ '' servername=hostname'' else [],
     rep, word_of_nat (min age 31557600))"
proof -
  have "CHR 0x0A \<notin> set l \<and> length l + 1 < MaxScanTokenSize" if "l \<in> set (policy_lines m mxs age)" for l
    using policy_lines_plain [OF assms(1,3) that] length_render_line [OF that] assms(5)
    by (simp add: render_policy_def MaxScanTokenSize_def)
  then have sc: "scan_lines (render_policy m mxs age) [] = (policy_lines m mxs age, False)"
    unfolding render_policy_def by (rule scan_lines_render)
  obtain q where q: "parse_lines u (policy_lines m mxs age) newMtaStsPolicyParser = Some q"
    "hasVersion q" "hasMode q" "mode q = m" "hasMaxAge q" "mxServers q = map mx_server mxs"
    "maxAge q = word_of_nat (min age 31557600)"
    using parse_policy_lines [OF assms(1,3,4)] by blast
  from q assms(2) have "\<exists>rep. policy_result domain q =
    (if m = ''enforce'' then ''secure match='' @ Join (map mx_server mxs) '':'' @ '' servername=hostname'' else [],
     rep, word_of_nat (min age 31557600))"
    by (auto simp: policy_result_def)
  with sc q(1) assms(5) show ?thesis
    by (simp add: parseMtaStsPolicy_def ReadAll_limited_def MTASTS_MAX_POLICY_SIZE_def)
qed


section \<open>TXT records\<close>

definition record_id :: "string \<Rightarrow> bool" where
  "record_id i \<longleftrightarrow> 1 \<le> length i \<and> length i \<le> 32 \<and> list_all isMtaStsAlphanum i"

lemma alphanum_not_blank: "isMtaStsAlphanum c \<Longrightarrow> \<not> blank_tab c \<and> c \<noteq> CHR '';'' \<and> c \<noteq> CHR ''=''"
  by (auto simp: isMtaStsAlphanum_def blank_tab_def is_lower_def is_upper_def is_digit_def)

lemma SplitN2_pair: "SplitN2 s sep = [k, v] \<Longrightarrow> s = k @ sep # v \<and> sep \<notin> set k"
  using Cut_found [of s sep] by (auto simp: SplitN2_def split: prod.splits if_splits)

lemma SplitN2_append: "sep \<notin> set k \<Longrightarrow> SplitN2 (k @ sep # v) sep = [k, v]"
  by (simp add: SplitN2_def Cut_append)

lemma record_id_trim: "record_id i \<Longrightarrow> TrimRightBlank (''id='' @ i) = ''id='' @ i"
proof (rule TrimRightBlank_id)
  assume i: "record_id i"
  then have "i \<noteq> []" by (auto simp: record_id_def)
  with i have "isMtaStsAlphanum (last i)" by (simp add: record_id_def list_all_iff)
  with \<open>i \<noteq> []\<close> show "\<not> blank_tab (last (''id='' @ i))" using alphanum_not_blank by simp
qed simp

lemma txt_fields_id:
  "txt_fields fs hasID \<Longrightarrow>
   hasID \<or> (\<exists>f \<in> set fs. \<exists>i. record_id i \<and> TrimRightBlank (TrimLeftBlank f) = ''id='' @ i)"
proof (induction fs arbitrary: hasID)
  case (Cons raw others)
  let ?field = "if others = [] then TrimLeftBlank raw else TrimRightBlank (TrimLeftBlank raw)"
  show ?case
  proof (cases "?field = []")
    case True
    with Cons show ?thesis by (auto simp: Let_def split: if_splits)
  next
    case False
    with Cons.prems obtain key v where kv: "SplitN2 ?field (CHR ''='') = [key, v]"
      by (auto simp: Let_def split: list.splits if_splits)
    show ?thesis
    proof (cases "key = ''id'' \<and> \<not> hasID")
      case True
      with kv Cons.prems False have i: "record_id v" by (auto simp: record_id_def Suc_le_eq split: if_splits)
      from SplitN2_pair [OF kv] True have "?field = ''id='' @ v" by simp
      with record_id_trim [OF i] have "TrimRightBlank (TrimLeftBlank raw) = ''id='' @ v"
        by (cases "others = []") simp_all
      with i show ?thesis by auto
    next
      case other: False
      with kv Cons.prems False have "txt_fields others hasID" by (auto split: if_splits)
      with Cons.IH [of hasID] show ?thesis by auto
    qed
  qed
qed simp

lemma valid_TXT_id:
  "isValidMtaStsTXTRecord r \<Longrightarrow>
   \<exists>f \<in> set (Split r (CHR '';'')). \<exists>i. record_id i \<and> TrimRightBlank (TrimLeftBlank f) = ''id='' @ i"
  using txt_fields_id [of "tl (Split r (CHR '';''))" False] list.set_sel(2) [OF Split_not_Nil, of _ r "CHR '';''"]
  by (auto simp: isValidMtaStsTXTRecord_def Let_def split: if_splits)

lemma valid_TXT_published:
  assumes "record_id i"
  shows "isValidMtaStsTXTRecord (''v=STSv1; id='' @ i @ '';'')"
proof -
  let ?r = "''v=STSv1; id='' @ i @ '';''"
  have no: "CHR '';'' \<notin> set i" using assms alphanum_not_blank by (auto simp: record_id_def list_all_iff)
  have "Split (''v=STSv1'' @ CHR '';'' # (('' id='' @ i) @ CHR '';'' # [])) (CHR '';'') = [''v=STSv1'', '' id='' @ i, []]"
    by (subst Split_snoc_sep, simp, subst Split_snoc_sep) (use no in simp_all)
  then have sp: "Split ?r (CHR '';'') = [''v=STSv1'', '' id='' @ i, []]" by simp
  have "TrimLeftBlank ('' id='' @ i) = ''id='' @ i" by (simp add: TrimLeftBlank_def blank_tab_def)
  then have tr: "TrimRightBlank (TrimLeftBlank ('' id='' @ i)) = ''id'' @ CHR ''='' # i"
    using record_id_trim [OF assms] by simp
  have "txt_fields ['' id='' @ i, []] False"
    using tr assms SplitN2_append [of "CHR ''=''" "''id''" i]
    by (auto simp: Let_def record_id_def TrimLeftBlank_def)
  moreover have "isMtaStsTXTASCII ?r"
    using assms by (auto simp: isMtaStsTXTASCII_def record_id_def list_all_iff isMtaStsAlphanum_def
        is_lower_def is_upper_def is_digit_def)
  moreover have "isMtaStsTXTVersionCandidate ?r"
    by (simp add: isMtaStsTXTVersionCandidate_def HasPrefix_def)
  moreover have "TrimRightBlank ''v=STSv1'' = ''v=STSv1''" by (simp add: TrimRightBlank_def blank_tab_def)
  ultimately show ?thesis using sp by (simp add: isValidMtaStsTXTRecord_def)
qed


section \<open>Properties\<close>

text \<open>A policy body, and tables without letters beyond ASCII, for the witnesses.\<close>

definition ascii_tables :: unicode_tables where
  "ascii_tables = \<lparr>u_lower = id, u_upper = id, u_letter = (\<lambda>_. False), u_number = (\<lambda>_. False), u_fold = (\<lambda>_ _. False)\<rparr>"

definition sample_body :: body_reader where
  "sample_body = \<lparr>br_bytes = render_policy ''enforce'' [''*.Example.org'', ''mx.example.net''] 86400, br_fails = False\<rparr>"

lemma sample_body_parsed:
  "\<exists>rep. parseMtaStsPolicy u domain sample_body =
     (''secure match=.example.org:mx.example.net servername=hostname'', rep, 86400)"
proof -
  have v: "list_all valid_mx [''*.Example.org'', ''mx.example.net'']" by code_simp
  have s: "mx_server ''*.Example.org'' = ''.example.org''" "mx_server ''mx.example.net'' = ''mx.example.net''"
    by code_simp+
  have "length (Itoa 86400) \<le> 10" by (rule length_Itoa) simp_all
  then have l: "length (render_policy ''enforce'' [''*.Example.org'', ''mx.example.net''] 86400) \<le> 65536"
    by (simp add: render_policy_def policy_lines_def crlf_def)
  from parse_render [OF v _ _ _ l, of u domain] show ?thesis by (simp add: sample_body_def s)
qed

text \<open>C5. The policy parser is sound: it returns a policy only for a completely read body of at most
  64 KiB whose every line is a field, whose first \<^verbatim>\<open>version\<close> is STSv1, whose first \<^verbatim>\<open>mode\<close> is enforce,
  whose first \<^verbatim>\<open>max_age\<close> (capped at one year) is the returned lifetime, and whose \<^verbatim>\<open>mx\<close> patterns are
  all valid and are exactly the ones in the returned match list, in their order. And the body cannot smuggle anything into
  the Postfix policy: the match list splits at the colons into exactly these patterns, each a valid lower-case domain name
  or such a name after a dot.\<close>

theorem parsed_policy_sound:
  assumes "parseMtaStsPolicy u domain r = (pol, rep, ttl)" "pol \<noteq> []"
  shows "\<not> br_fails r \<and> length (br_bytes r) \<le> 65536
    \<and> (\<exists>fs servers. map line_field (fst (scan_lines (br_bytes r) [])) = map Some fs
       \<and> first_value fs ''version'' = Some ''STSv1'' \<and> first_value fs ''mode'' = Some ''enforce''
       \<and> (\<exists>a. first_value fs ''max_age'' = Some a \<and> isMtaStsDigits a \<and> unat ttl = min (dec_val a) 31557600)
       \<and> list_all valid_mx (mx_values fs) \<and> servers = map mx_server (mx_values fs) \<and> servers \<noteq> []
       \<and> pol = ''secure match='' @ Join servers '':'' @ '' servername=hostname''
       \<and> Split (Join servers '':'') (CHR '':'') = servers \<and> list_all mx_match servers)"
proof -
  from parseMtaStsPolicy_parsed [OF assms] obtain p fs
    where *: "map line_field (fst (scan_lines (br_bytes r) [])) = map Some fs" "parser_inv fs p"
      "\<not> br_fails r" "length (br_bytes r) \<le> 65536" "hasVersion p" "hasMode p" "hasMaxAge p"
      "mode p = ''enforce''" "mxServers p \<noteq> []" "ttl = maxAge p"
      "pol = ''secure match='' @ Join (mxServers p) '':'' @ '' servername=hostname''"
    by blast
  from *(2) have m: "list_all mx_match (mxServers p)" by (auto simp: parser_inv_def list_all_iff valid_mx_match)
  then have "Split (Join (mxServers p) '':'') (CHR '':'') = mxServers p"
    using *(9) mx_match_no_colon by (intro Split_Join) (auto simp: list_all_iff)
  with * m show ?thesis
    unfolding parser_inv_def capped_age_def by (intro conjI exI [of _ fs] exI [of _ "mxServers p"]) auto
qed

theorem parsed_policy_sound_witness:
  "\<exists>servers. servers \<noteq> [] \<and> list_all mx_match servers \<and> length (br_bytes sample_body) \<le> 65536
    \<and> ''secure match=.example.org:mx.example.net servername=hostname'' =
        ''secure match='' @ Join servers '':'' @ '' servername=hostname''"
proof -
  obtain rep where "parseMtaStsPolicy ascii_tables ''example.org'' sample_body =
      (''secure match=.example.org:mx.example.net servername=hostname'', rep, 86400)"
    using sample_body_parsed by blast
  from parsed_policy_sound [OF this] show ?thesis by blast
qed



text \<open>C33. Which announcements count: a domain has an MTA-STS record exactly when the answer holds one
  single version candidate and that record is valid; a valid record carries an identifier of 1 to 32
  letters and digits, and the record that RFC 8461 prescribes for such an identifier is valid.\<close>

theorem txt_record_rule:
  "(mtaStsRecordAvailable r = Inr True \<longleftrightarrow> m_Rcode r = RcodeSuccess
      \<and> (\<exists>t. txt_candidates (m_Answer r) = [t] \<and> isValidMtaStsTXTRecord t))
   \<and> (isValidMtaStsTXTRecord t \<longrightarrow>
      (\<exists>f i. f \<in> set (Split t (CHR '';'')) \<and> record_id i \<and> TrimRightBlank (TrimLeftBlank f) = ''id='' @ i))
   \<and> (record_id j \<longrightarrow> isValidMtaStsTXTRecord (''v=STSv1; id='' @ j @ '';''))"
proof (intro conjI impI)
  show "mtaStsRecordAvailable r = Inr True \<longleftrightarrow> m_Rcode r = RcodeSuccess
      \<and> (\<exists>t. txt_candidates (m_Answer r) = [t] \<and> isValidMtaStsTXTRecord t)"
    by (auto simp: mtaStsRecordAvailable_def Let_def length_Suc_conv RcodeSuccess_def RcodeNameError_def)
next
  assume "isValidMtaStsTXTRecord t"
  from valid_TXT_id [OF this] show "\<exists>f i. f \<in> set (Split t (CHR '';'')) \<and> record_id i
      \<and> TrimRightBlank (TrimLeftBlank f) = ''id='' @ i" by blast
qed (rule valid_TXT_published)

theorem txt_record_rule_witness:
  "isValidMtaStsTXTRecord ''v=STSv1; id=20260101;''"
proof -
  have "record_id ''20260101''" by code_simp
  then show ?thesis using txt_record_rule [of _ _ "''20260101''"] by simp
qed

lemma checkMtaSts_evidence:
  assumes "checkMtaSts u client http_get Version ctx_err wait resolver domain mayRetry = (pol, rep, ttl)"
    and "pol \<noteq> []" "pol \<noteq> ''TEMP''"
  shows "\<exists>k addr resp. 1 \<le> k \<and> k \<le> 3 \<and> resolver = Some addr
    \<and> checkMtaStsRecord (client k) domain addr = Inr True
    \<and> http_get k (''https://mta-sts.'' @ domain @ ''/.well-known/mta-sts.txt'') (''postfix-tlspol/'' @ Version) = Inr resp
    \<and> h_StatusCode resp = 200 \<and> isValidMtaStsPolicyMediaType u (h_ContentType resp)
    \<and> parseMtaStsPolicy u domain (h_Body resp) = (pol, rep, ttl)"
proof -
  from assms(1,3) obtain addr where r: "resolver = Some addr" by (auto simp: checkMtaSts_def split: option.splits)
  let ?once = "\<lambda>i. checkMtaStsOnce u (client i) (http_get i) Version domain addr"
  obtain x k where l: "attempt_loop ?once ctx_err wait (''TEMP'', [], 0) (if mayRetry then POLICY_ATTEMPTS else 1) 1 = (x, k)"
    by fastforce
  with assms(1) r have x: "x = (pol, rep, ttl)" by (simp add: checkMtaSts_def policy_attempts_def)
  with attempt_loop_result [OF l] assms(3) have k: "1 \<le> k" "k \<le> 3" and once: "?once k = Inr (pol, rep, ttl)"
    by (auto simp: POLICY_ATTEMPTS_def split: if_splits)
  from once assms(2) obtain resp where "checkMtaStsRecord (client k) domain addr = Inr True"
    "http_get k (''https://mta-sts.'' @ domain @ ''/.well-known/mta-sts.txt'') (''postfix-tlspol/'' @ Version) = Inr resp"
    "h_StatusCode resp = 200" "isValidMtaStsPolicyMediaType u (h_ContentType resp)"
    "parseMtaStsPolicy u domain (h_Body resp) = (pol, rep, ttl)"
    unfolding checkMtaStsOnce_def by (auto split: sum.splits if_splits)
  with k r show ?thesis by blast
qed

text \<open>C16. No MTA-STS policy without evidence: a policy other than TEMP was parsed, in one of the at
  most three attempts, from a response with status 200 and media type text/plain that was fetched
  from the well-known URL of a domain whose TXT record announces MTA-STS.\<close>

theorem mtasts_policy_has_evidence:
  assumes "checkMtaSts u client http_get Version ctx_err wait resolver domain mayRetry = (pol, rep, ttl)"
    and "pol \<noteq> []" "pol \<noteq> ''TEMP''"
  shows "\<exists>k addr resp. 1 \<le> k \<and> k \<le> 3 \<and> resolver = Some addr
    \<and> checkMtaStsRecord (client k) domain addr = Inr True
    \<and> http_get k (''https://mta-sts.'' @ domain @ ''/.well-known/mta-sts.txt'') (''postfix-tlspol/'' @ Version) = Inr resp
    \<and> h_StatusCode resp = 200 \<and> isValidMtaStsPolicyMediaType u (h_ContentType resp)
    \<and> parseMtaStsPolicy u domain (h_Body resp) = (pol, rep, ttl)"
  using checkMtaSts_evidence [OF assms] .

lemma text_plain_accepted: "isValidMtaStsPolicyMediaType u ''text/plain''"
proof -
  have a: "list_all is_ascii ''text/plain''" by (simp add: is_ascii_def)
  have l: "map ascii_lower ''text/plain'' = ''text/plain''" by code_simp
  have "TrimSpace (ToLower u ''text/plain'') = ''text/plain''"
    using a l by (simp add: ToLower_ascii TrimSpace_ascii ascii_space_def)
  then have "ParseMediaType u ''text/plain'' = Some ''text/plain''"
    by (simp add: ParseMediaType_def Cut_def checkMediaTypeDisposition_def consumeToken_def isTokenChar_def
        isTSpecial_def HasPrefix_def parse_params.simps Let_def)
  then show ?thesis using a by (simp add: isValidMtaStsPolicyMediaType_def EqualFold_ascii)
qed

definition sample_txt_client :: client where
  "sample_txt_client q p addr = Inr \<lparr>m_Rcode = 0, m_Truncated = False, m_AuthenticatedData = False,
     m_Answer = [TXT_rr \<lparr>rr_Name = ''_mta-sts.example.org.'', rr_TTL = 60\<rparr> [''v=STSv1; '', ''id=1;'']], m_Ns = []\<rparr>"

definition sample_get :: http_get where
  "sample_get url agent = Inr \<lparr>h_StatusCode = 200, h_ContentType = ''text/plain'', h_Body = sample_body\<rparr>"

theorem mtasts_policy_has_evidence_witness:
  "\<exists>resp. checkMtaStsRecord sample_txt_client ''example.org'' ''127.0.0.1:53'' = Inr True
    \<and> sample_get ''https://mta-sts.example.org/.well-known/mta-sts.txt'' ''postfix-tlspol/1.0'' = Inr resp
    \<and> h_StatusCode resp = 200"
proof -
  note m = text_plain_accepted [of ascii_tables]
  have t: "checkMtaStsRecord sample_txt_client ''example.org'' ''127.0.0.1:53'' = Inr True" by code_simp
  obtain rep where "parseMtaStsPolicy ascii_tables ''example.org'' sample_body =
      (''secure match=.example.org:mx.example.net servername=hostname'', rep, 86400)"
    using sample_body_parsed by blast
  with m t have "checkMtaSts ascii_tables (\<lambda>_. sample_txt_client) (\<lambda>_. sample_get) ''1.0'' (\<lambda>_. False) (\<lambda>_. True)
      (Some ''127.0.0.1:53'') ''example.org'' True =
      (''secure match=.example.org:mx.example.net servername=hostname'', rep, 86400)"
    by (simp add: checkMtaSts_def policy_attempts_def POLICY_ATTEMPTS_def attempt_loop.simps
        checkMtaStsOnce_def sample_get_def)
  from mtasts_policy_has_evidence [OF this] show ?thesis by auto
qed

end
