(* ===== verification/Dane_Lookup.thy ===== *)
theory Dane_Lookup
  imports Dns Valid "HOL-Library.Multiset"
begin

text \<open>
  The DANE lookup of \<^verbatim>\<open>internal/dane.go\<close>: MX records through CNAME chains, the authenticated address
  of every MX host, the TLSA records of every MX host, and the policy that follows.

  \<^verbatim>\<open>x509.ParseCertificate\<close> is the parameter \<open>x509_ok\<close> (whether the bytes parse as a certificate).
  The two worker pools are the step relation \<open>pool_step\<close>; the functions that read their result
  channels take the received sequence as the argument \<open>deliver\<close>, applied to the results in the order
  of the jobs.
\<close>

section \<open>Data\<close>

record ResultWithTTL =
  rt_Err :: "net_error option"
  rt_Result :: string
  rt_TTL :: u32

record mxRecord =
  mx_host :: string
  mx_ttl :: u32

datatype mx_status = MxOk | MxFail | MxNotSec

record mxCheckResult =
  mc_host :: string
  mc_ttl :: u32
  mc_status :: mx_status

definition DANE_MX_LOOKUP_CONCURRENCY :: nat where "DANE_MX_LOOKUP_CONCURRENCY = 4"
definition DANE_CNAME_MAX_DEPTH :: nat where "DANE_CNAME_MAX_DEPTH = 8"

section \<open>MX records\<close>

text \<open>The first loop of \<^verbatim>\<open>lookupMxRecords\<close> collects the CNAME hops of the answer; a name with two
  different targets is an error.\<close>

definition canonical_name :: "unicode_tables \<Rightarrow> string \<Rightarrow> string" where
  "canonical_name u name = ToLower u (Fqdn (TrimSpace name))"

fun cname_hops :: "unicode_tables \<Rightarrow> rr list \<Rightarrow> (string \<rightharpoonup> string \<times> u32) \<Rightarrow> (string \<rightharpoonup> string \<times> u32) option" where
  "cname_hops u [] hops = Some hops"
| "cname_hops u (CNAME_rr h t # answers) hops =
     (let owner = canonical_name u (rr_Name h); target = canonical_name u t in
      if (case hops owner of Some previous \<Rightarrow> fst previous \<noteq> target | None \<Rightarrow> False) then None
      else cname_hops u answers (hops(owner \<mapsto> (target, rr_TTL h))))"
| "cname_hops u (_ # answers) hops = cname_hops u answers hops"

text \<open>The second loop follows the hops: the final owner, the number of hops and the smallest TTL seen
  (if any).\<close>

function cname_chain ::
    "(string \<rightharpoonup> string \<times> u32) \<Rightarrow> nat \<Rightarrow> string \<Rightarrow> string list \<Rightarrow> nat \<Rightarrow> u32 option \<Rightarrow> net_error + (string \<times> nat \<times> u32 option)" where
  "cname_chain cnameHops depth mxOwner seenCnames hops cnameTTL =
     (case cnameHops mxOwner of
        None \<Rightarrow> Inr (mxOwner, hops, cnameTTL)
      | Some (target, ttl) \<Rightarrow>
          if mxOwner \<in> set seenCnames then Inl (LookupFailure ''CNAME loop during MX lookup'')
          else if DANE_CNAME_MAX_DEPTH < depth + (hops + 1)
          then Inl (LookupFailure ''too many CNAME records during MX lookup'')
          else if \<not> IsDNSName target then Inl (LookupFailure ''invalid CNAME target during MX lookup'')
          else cname_chain cnameHops depth target (mxOwner # seenCnames) (hops + 1)
                 (case cnameTTL of None \<Rightarrow> Some ttl | Some t \<Rightarrow> Some (if ttl < t then ttl else t)))"
  by pat_completeness auto

termination cname_chain
  by (relation "measure (\<lambda>(_, depth, _, _, hops, _). DANE_CNAME_MAX_DEPTH + 1 - (depth + hops))")
    (auto simp: DANE_CNAME_MAX_DEPTH_def)

declare cname_chain.simps [simp del]

text \<open>The third loop collects the MX records of the final owner, one per host; \<open>seen\<close> maps a host
  without its trailing dot to the index of its record.\<close>

fun mx_records :: "unicode_tables \<Rightarrow> string \<Rightarrow> rr list \<Rightarrow> mxRecord list \<Rightarrow> (string \<rightharpoonup> nat) \<Rightarrow> mxRecord list" where
  "mx_records u mxOwner [] records seen = records"
| "mx_records u mxOwner (MX_rr h mx # answers) records seen =
     (if \<not> EqualFold u (rr_Name h) mxOwner then mx_records u mxOwner answers records seen
      else let host = ToLower u (TrimSpace mx); key = TrimSuffix host ''.'' in
        (case seen key of
           Some index \<Rightarrow>
             mx_records u mxOwner answers
               (if rr_TTL h < mx_ttl (records ! index)
                then records[index := (records ! index)\<lparr>mx_ttl := rr_TTL h\<rparr>] else records) seen
         | None \<Rightarrow>
             mx_records u mxOwner answers (records @ [\<lparr>mx_host = Fqdn host, mx_ttl = rr_TTL h\<rparr>])
               (seen(key \<mapsto> length records))))"
| "mx_records u mxOwner (_ # answers) records seen = mx_records u mxOwner answers records seen"

definition cap_ttls :: "u32 option \<Rightarrow> mxRecord list \<Rightarrow> mxRecord list" where
  "cap_ttls cnameTTL records = (case cnameTTL of
     None \<Rightarrow> records
   | Some t \<Rightarrow> map (\<lambda>r. r\<lparr>mx_ttl := min (mx_ttl r) t\<rparr>) records)"

fun soa_ttl :: "rr list \<Rightarrow> u32 option \<Rightarrow> u32 option" where
  "soa_ttl [] ttl = ttl"
| "soa_ttl (SOA_rr h minttl # ns) ttl =
     (let candidate = min (rr_TTL h) minttl in
      soa_ttl ns (case ttl of None \<Rightarrow> Some candidate | Some t \<Rightarrow> Some (if candidate < t then candidate else t)))"
| "soa_ttl (_ # ns) ttl = soa_ttl ns ttl"

definition negativeResponseTTL :: "Msg \<Rightarrow> u32" where
  "negativeResponseTTL r = (case soa_ttl (m_Ns r) None of None \<Rightarrow> 0 | Some t \<Rightarrow> t)"

function lookupMxRecords ::
    "unicode_tables \<Rightarrow> client \<Rightarrow> string \<Rightarrow> string \<Rightarrow> nat \<Rightarrow> net_error + (mxRecord list \<times> bool)" where
  "lookupMxRecords u client domain resolverAddress depth =
     (if DANE_CNAME_MAX_DEPTH < depth then Inl (LookupFailure ''too many CNAME records during MX lookup'')
      else (case exchangeDNS client (newDNSQuery domain TypeMX True) resolverAddress of
        Inl err \<Rightarrow> Inl err
      | Inr r \<Rightarrow>
          if m_Rcode r = RcodeNameError then Inr ([], \<not> m_AuthenticatedData r)
          else if m_Rcode r \<noteq> RcodeSuccess then Inl (RcodeError (m_Rcode r))
          else let incompl = (\<not> m_AuthenticatedData r) in
            (case cname_hops u (m_Answer r) Map.empty of
               None \<Rightarrow> Inl (LookupFailure ''multiple CNAME targets during MX lookup'')
             | Some cnameHops \<Rightarrow>
                 (case cname_chain cnameHops depth (ToLower u (Fqdn domain)) [] 0 None of
                    Inl err \<Rightarrow> Inl err
                  | Inr (mxOwner, hops, cnameTTL) \<Rightarrow>
                      let records = mx_records u mxOwner (m_Answer r) [] Map.empty in
                      if records \<noteq> [] then Inr (cap_ttls cnameTTL records, incompl)
                      else if hops \<noteq> 0 then
                        (case lookupMxRecords u client mxOwner resolverAddress (depth + hops) of
                           Inl err \<Rightarrow> Inl err
                         | Inr (child, childIncompl) \<Rightarrow> Inr (cap_ttls cnameTTL child, incompl \<or> childIncompl))
                      else if incompl then Inr ([], True)
                      else Inr ([\<lparr>mx_host = Fqdn domain, mx_ttl = negativeResponseTTL r\<rparr>], incompl)))))"
  by pat_completeness auto

termination lookupMxRecords
  by (relation "measure (\<lambda>(_, _, _, _, depth). DANE_CNAME_MAX_DEPTH + 1 - depth)") auto

declare lookupMxRecords.simps [simp del]


section \<open>Authenticated addresses\<close>

definition has_address :: "qtype \<Rightarrow> rr \<Rightarrow> bool" where
  "has_address recordType answer = (case answer of
     A_rr h \<Rightarrow> recordType = TypeA
   | AAAA_rr h \<Rightarrow> recordType = TypeAAAA
   | _ \<Rightarrow> False)"

definition checkMxAddress :: "client \<Rightarrow> string \<Rightarrow> string \<Rightarrow> qtype \<Rightarrow> mx_status" where
  "checkMxAddress client mx resolverAddress recordType =
     (case exchangeDNS client (newDNSQuery mx recordType True) resolverAddress of
        Inl err \<Rightarrow> MxFail
      | Inr r \<Rightarrow>
          if m_Rcode r = RcodeSuccess then
            (if \<not> m_AuthenticatedData r then MxNotSec
             else if list_ex (has_address recordType) (m_Answer r) then MxOk else MxNotSec)
          else if m_Rcode r = RcodeNameError then MxNotSec
          else MxFail)"

fun checkMx_loop :: "client \<Rightarrow> string \<Rightarrow> string \<Rightarrow> qtype list \<Rightarrow> bool \<Rightarrow> mx_status" where
  "checkMx_loop client mx resolverAddress [] failed = (if failed then MxFail else MxNotSec)"
| "checkMx_loop client mx resolverAddress (t # ts) failed =
     (case checkMxAddress client mx resolverAddress t of
        MxOk \<Rightarrow> MxOk
      | MxFail \<Rightarrow> checkMx_loop client mx resolverAddress ts True
      | MxNotSec \<Rightarrow> checkMx_loop client mx resolverAddress ts failed)"

definition checkMx :: "client \<Rightarrow> string \<Rightarrow> string \<Rightarrow> mx_status" where
  "checkMx client mx resolverAddress =
     (if \<not> IsDNSName mx then MxNotSec
      else checkMx_loop client mx resolverAddress [TypeA, TypeAAAA] False)"

text \<open>The result a worker of \<^verbatim>\<open>checkMxRecords\<close> sends for one record.\<close>

definition mx_check :: "client \<Rightarrow> string \<Rightarrow> mxRecord \<Rightarrow> mxCheckResult" where
  "mx_check client resolverAddress rec =
     \<lparr>mc_host = mx_host rec, mc_ttl = mx_ttl rec, mc_status = checkMx client (mx_host rec) resolverAddress\<rparr>"

text \<open>The loop of \<^verbatim>\<open>getMxRecords\<close> over the results: hosts, smallest TTL, whether a lookup failed and
  whether the answer is incomplete.\<close>

fun collectMx :: "mxCheckResult list \<Rightarrow> string list \<Rightarrow> u32 option \<Rightarrow> bool \<Rightarrow> bool \<Rightarrow> string list \<times> u32 option \<times> bool \<times> bool" where
  "collectMx [] mxRecords minTTL failed incompl = (mxRecords, minTTL, failed, incompl)"
| "collectMx (result # results) mxRecords minTTL failed incompl =
     (case mc_status result of
        MxOk \<Rightarrow> collectMx results (mxRecords @ [mc_host result])
                 (case minTTL of None \<Rightarrow> Some (mc_ttl result)
                  | Some t \<Rightarrow> Some (if mc_ttl result < t then mc_ttl result else t)) failed incompl
      | MxFail \<Rightarrow> collectMx results mxRecords minTTL True incompl
      | MxNotSec \<Rightarrow> collectMx results mxRecords minTTL failed True)"

type_synonym mx_delivery = "mxCheckResult list \<Rightarrow> mxCheckResult list"

definition getMxRecords ::
    "unicode_tables \<Rightarrow> client \<Rightarrow> mx_delivery \<Rightarrow> net_error option \<Rightarrow> string \<Rightarrow> string \<Rightarrow>
     net_error + (string list \<times> u32 \<times> bool)" where
  "getMxRecords u client deliver ctxErr domain resolverAddress =
     (case lookupMxRecords u client domain resolverAddress 0 of
        Inl err \<Rightarrow> Inl err
      | Inr (records, incompl0) \<Rightarrow>
          if records = [] then Inr ([], 0, incompl0)
          else (case collectMx (deliver (map (mx_check client resolverAddress) records)) [] None False incompl0 of
                  (mxRecords, minTTL, failed, incompl) \<Rightarrow>
                    if failed then Inl (LookupFailure ''DNS error during MX address lookup'')
                    else (case ctxErr of
                            Some err \<Rightarrow> Inl err
                          | None \<Rightarrow> Inr (mxRecords, case minTTL of None \<Rightarrow> 0 | Some t \<Rightarrow> t, incompl))))"

section \<open>TLSA records\<close>

definition hex_DecodeString :: "string \<Rightarrow> nat list option" where
  "hex_DecodeString s =
     (if even (length s) \<and> list_all is_hex_digit s
      then Some (map (\<lambda>i. 16 * hex_digit_val (s ! (2 * i)) + hex_digit_val (s ! (2 * i + 1))) [0..<length s div 2])
      else None)"

definition isTlsaUsable :: "(nat list \<Rightarrow> bool) \<Rightarrow> u8 \<Rightarrow> u8 \<Rightarrow> u8 \<Rightarrow> string \<Rightarrow> bool" where
  "isTlsaUsable x509_ok usage selector matchingType certificate =
     (if usage \<noteq> 3 \<and> usage \<noteq> 2 then False
      else if selector \<noteq> 1 \<and> selector \<noteq> 0 then False
      else if matchingType = 1 then IsSHA256 certificate
      else if matchingType = 2 then IsSHA512 certificate
      else if matchingType = 0 then
        (case hex_DecodeString certificate of None \<Rightarrow> False | Some cert \<Rightarrow> x509_ok cert)
      else False)"

fun tlsa_loop :: "(nat list \<Rightarrow> bool) \<Rightarrow> rr list \<Rightarrow> string \<Rightarrow> u32 option \<Rightarrow> string \<times> u32" where
  "tlsa_loop x509_ok [] result minTTL = (result, case minTTL of None \<Rightarrow> 0 | Some t \<Rightarrow> t)"
| "tlsa_loop x509_ok (TLSA_rr h usage selector matchingType certificate # answers) result minTTL =
     (if isTlsaUsable x509_ok usage selector matchingType certificate then (''dane-only'', rr_TTL h)
      else tlsa_loop x509_ok answers ''dane''
             (case minTTL of None \<Rightarrow> Some (rr_TTL h) | Some t \<Rightarrow> Some (if rr_TTL h < t then rr_TTL h else t)))"
| "tlsa_loop x509_ok (_ # answers) result minTTL = tlsa_loop x509_ok answers result minTTL"

definition checkTlsa :: "(nat list \<Rightarrow> bool) \<Rightarrow> client \<Rightarrow> string \<Rightarrow> string \<Rightarrow> ResultWithTTL" where
  "checkTlsa x509_ok client mx resolverAddress =
     (case exchangeDNS client (newDNSQuery (''_25._tcp.'' @ mx) TypeTLSA True) resolverAddress of
        Inl err \<Rightarrow> \<lparr>rt_Err = Some err, rt_Result = [], rt_TTL = 0\<rparr>
      | Inr r \<Rightarrow>
          if m_Rcode r \<noteq> RcodeSuccess \<and> m_Rcode r \<noteq> RcodeNameError
          then \<lparr>rt_Err = Some (RcodeError (m_Rcode r)), rt_Result = [], rt_TTL = 0\<rparr>
          else if \<not> m_AuthenticatedData r then \<lparr>rt_Err = None, rt_Result = [], rt_TTL = 0\<rparr>
          else if m_Answer r = [] then \<lparr>rt_Err = None, rt_Result = [], rt_TTL = 0\<rparr>
          else (case tlsa_loop x509_ok (m_Answer r) [] None of
                  (result, ttl) \<Rightarrow> \<lparr>rt_Err = None, rt_Result = result, rt_TTL = ttl\<rparr>))"

section \<open>The policy\<close>

definition NoDane :: u8 where "NoDane = 0"
definition Dane :: u8 where "Dane = 1"
definition DaneOnly :: u8 where "DaneOnly = 2"

definition dane_level :: "string \<Rightarrow> u8" where
  "dane_level result = (if result = ''dane-only'' then DaneOnly else if result = ''dane'' then Dane else NoDane)"

text \<open>The loop of \<^verbatim>\<open>getDanePolicy\<close> for the remaining results: \<open>received\<close> is what the channel still
  delivers before it is closed, \<open>ctxErr\<close> the error of the context once it is done, and \<open>done i\<close>
  whether the select statement takes the branch of the finished context.\<close>

fun dane_policy_loop ::
    "net_error option \<Rightarrow> (nat \<Rightarrow> bool) \<Rightarrow> nat \<Rightarrow> ResultWithTTL list \<Rightarrow> u32 \<Rightarrow> u8 \<Rightarrow> u8 \<Rightarrow> net_error + (u32 \<times> u8 \<times> u8)" where
  "dane_policy_loop ctxErr done 0 received minTTL minPolicy maxPolicy = Inr (minTTL, minPolicy, maxPolicy)"
| "dane_policy_loop ctxErr done (Suc n) received minTTL minPolicy maxPolicy =
     (case (ctxErr, done n) of
        (Some err, True) \<Rightarrow> Inl err
      | _ \<Rightarrow>
          (case received of
             [] \<Rightarrow> (case ctxErr of Some err \<Rightarrow> Inl err
                     | None \<Rightarrow> Inl (LookupFailure ''incomplete TLSA lookup results''))
           | res # rest \<Rightarrow>
               (case rt_Err res of
                  Some err \<Rightarrow> Inl err
                | None \<Rightarrow>
                    let policy = dane_level (rt_Result res) in
                    dane_policy_loop ctxErr done n rest
                      (if rt_TTL res < minTTL then rt_TTL res else minTTL)
                      (if policy < minPolicy then policy else minPolicy)
                      (if policy > maxPolicy then policy else maxPolicy))))"

definition getDanePolicy ::
    "net_error option \<Rightarrow> (nat \<Rightarrow> bool) \<Rightarrow> u32 \<Rightarrow> bool \<Rightarrow> nat \<Rightarrow> ResultWithTTL list \<Rightarrow> net_error + (string \<times> u32)" where
  "getDanePolicy ctxErr done ttl incompl numRecords tlsaResults =
     (case dane_policy_loop ctxErr done numRecords tlsaResults ttl (if incompl then NoDane else DaneOnly) NoDane of
        Inl err \<Rightarrow> Inl err
      | Inr (minTTL, minPolicy, maxPolicy) \<Rightarrow>
          Inr (if maxPolicy \<ge> Dane then (if minPolicy \<le> Dane then ''dane'' else ''dane-only'') else [], minTTL))"

text \<open>What an attempt depends on besides the network: the order in which the two pools deliver, and
  the state of the context.\<close>

record dane_env =
  de_mx :: mx_delivery
  de_tlsa :: "ResultWithTTL list \<Rightarrow> ResultWithTTL list"
  de_ctxErr :: "net_error option"
  de_done :: "nat \<Rightarrow> bool"

definition checkDaneOnce ::
    "unicode_tables \<Rightarrow> (nat list \<Rightarrow> bool) \<Rightarrow> client \<Rightarrow> dane_env \<Rightarrow> string \<Rightarrow> string \<Rightarrow> net_error + (string \<times> u32)" where
  "checkDaneOnce u x509_ok client env domain resolverAddress =
     (case getMxRecords u client (de_mx env) (de_ctxErr env) domain resolverAddress of
        Inl err \<Rightarrow> Inl err
      | Inr (mxRecords, ttl, incompl) \<Rightarrow>
          if length mxRecords = 0 then Inr ([], 0)
          else getDanePolicy (de_ctxErr env) (de_done env) ttl incompl (length mxRecords)
                 (de_tlsa env (map (\<lambda>mx. checkTlsa x509_ok client mx resolverAddress) mxRecords)))"

definition checkDane ::
    "unicode_tables \<Rightarrow> (nat list \<Rightarrow> bool) \<Rightarrow> (nat \<Rightarrow> client) \<Rightarrow> (nat \<Rightarrow> dane_env) \<Rightarrow> (nat \<Rightarrow> bool) \<Rightarrow>
     string option \<Rightarrow> string \<Rightarrow> bool \<Rightarrow> string \<times> u32" where
  "checkDane u x509_ok client env wait resolver domain mayRetry =
     (case resolver of
        None \<Rightarrow> (''TEMP'', 0)
      | Some resolverAddress \<Rightarrow>
          fst (policy_attempts (\<lambda>i. checkDaneOnce u x509_ok (client i) (env i) domain resolverAddress)
            (\<lambda>i. de_ctxErr (env i) \<noteq> None) wait (''TEMP'', 0) mayRetry))"

section \<open>The worker pools\<close>

text \<open>
  \<^verbatim>\<open>checkMxRecords\<close> and \<^verbatim>\<open>checkTlsaRecords\<close> run the same pool: a feeder sends the jobs in order over an
  unbuffered channel, each of \<open>workers\<close> goroutines takes a job, runs the check and sends the result,
  and everyone returns early once the context is done. \<open>p_jobs\<close> are the jobs not yet taken, \<open>p_busy\<close>
  the ones being checked, \<open>p_out\<close> the results in the order they were sent.
\<close>

record ('a, 'b) pool =
  p_jobs :: "'a list"
  p_busy :: "'a list"
  p_out :: "'b list"
  p_cancelled :: bool

definition pool_workers :: "'a list \<Rightarrow> nat" where
  "pool_workers jobs = min DANE_MX_LOOKUP_CONCURRENCY (length jobs)"

definition pool_init :: "'a list \<Rightarrow> ('a, 'b) pool" where
  "pool_init jobs = \<lparr>p_jobs = jobs, p_busy = [], p_out = [], p_cancelled = False\<rparr>"

inductive pool_step :: "('a \<Rightarrow> 'b) \<Rightarrow> nat \<Rightarrow> ('a, 'b) pool \<Rightarrow> ('a, 'b) pool \<Rightarrow> bool"
  for check :: "'a \<Rightarrow> 'b" and workers :: nat where
  take: "p_jobs s = x # xs \<Longrightarrow> length (p_busy s) < workers \<Longrightarrow>
    pool_step check workers s (s\<lparr>p_jobs := xs, p_busy := p_busy s @ [x]\<rparr>)"
| send: "p_busy s = us @ x # vs \<Longrightarrow>
    pool_step check workers s (s\<lparr>p_busy := us @ vs, p_out := p_out s @ [check x]\<rparr>)"
| cancel: "\<not> p_cancelled s \<Longrightarrow> pool_step check workers s (s\<lparr>p_cancelled := True\<rparr>)"
| stop_feeder: "p_cancelled s \<Longrightarrow> p_jobs s \<noteq> [] \<Longrightarrow> pool_step check workers s (s\<lparr>p_jobs := []\<rparr>)"
| abandon: "p_cancelled s \<Longrightarrow> p_busy s = us @ x # vs \<Longrightarrow>
    pool_step check workers s (s\<lparr>p_busy := us @ vs\<rparr>)"
| send_disturbed: "p_cancelled s \<Longrightarrow> p_busy s = us @ x # vs \<Longrightarrow>
    pool_step check workers s (s\<lparr>p_busy := us @ vs, p_out := p_out s @ [y]\<rparr>)"

text \<open>The last rule covers a check that is disturbed by the cancellation: its result may be anything.\<close>

text \<open>The result channel is closed once no job and no worker is left.\<close>

definition pool_closed :: "('a, 'b) pool \<Rightarrow> bool" where
  "pool_closed s \<longleftrightarrow> p_jobs s = [] \<and> p_busy s = []"

inductive_cases pool_stepE: "pool_step check workers s t"


definition pool_measure :: "('a, 'b) pool \<Rightarrow> nat" where
  "pool_measure s = 2 * length (p_jobs s) + length (p_busy s) + (if p_cancelled s then 0 else 1)"

definition pool_inv :: "('a \<Rightarrow> 'b) \<Rightarrow> 'a list \<Rightarrow> ('a, 'b) pool \<Rightarrow> bool" where
  "pool_inv check jobs s \<longleftrightarrow> length (p_busy s) \<le> pool_workers jobs
     \<and> (\<not> p_cancelled s \<longrightarrow> mset (p_out s) + mset (map check (p_busy s @ p_jobs s)) = mset (map check jobs))"

lemma pool_inv_init: "pool_inv check jobs (pool_init jobs)"
  by (simp add: pool_inv_def pool_init_def)

lemma pool_inv_step:
  "pool_step check (pool_workers jobs) s t \<Longrightarrow> pool_inv check jobs s \<Longrightarrow> pool_inv check jobs t"
  by (erule pool_stepE) (auto simp: pool_inv_def ac_simps)

lemma pool_measure_step: "pool_step check w s t \<Longrightarrow> pool_measure t < pool_measure s"
  by (erule pool_stepE) (auto simp: pool_measure_def)

lemma pool_run:
  "(pool_step check (pool_workers jobs) ^^ n) (pool_init jobs) s \<Longrightarrow>
   pool_inv check jobs s \<and> n + pool_measure s \<le> 2 * length jobs + 1"
proof (induction n arbitrary: s)
  case 0
  then show ?case using pool_inv_init [of check jobs] by (auto simp: pool_measure_def pool_init_def)
next
  case (Suc n)
  then obtain r where r: "(pool_step check (pool_workers jobs) ^^ n) (pool_init jobs) r"
    "pool_step check (pool_workers jobs) r s" by auto
  from Suc.IH [OF r(1)] pool_inv_step [OF r(2)] pool_measure_step [OF r(2)] show ?case by auto
qed

lemma pool_progress:
  assumes "0 < w" "\<not> pool_closed s"
  shows "\<exists>t. pool_step check w s t \<and> p_cancelled t = p_cancelled s"
proof (cases "p_busy s")
  case Nil
  with assms obtain x xs where "p_jobs s = x # xs" by (cases "p_jobs s") (auto simp: pool_closed_def)
  with Nil assms(1) pool_step.take [of s x xs w check] show ?thesis by auto
next
  case (Cons x xs)
  then show ?thesis using pool_step.send [of s "[]" x xs check w] by auto
qed

section \<open>Lemmas on the policy\<close>

lemma foldl_min: "foldl min (t :: 'a :: linorder) xs = Min (insert t (set xs))"
proof (induction xs arbitrary: t)
  case (Cons x xs)
  then show ?case by (cases "set xs = {}") (simp_all add: min.assoc)
qed simp

lemma foldl_max: "foldl max (t :: 'a :: linorder) xs = Max (insert t (set xs))"
proof (induction xs arbitrary: t)
  case (Cons x xs)
  then show ?case by (cases "set xs = {}") (simp_all add: max.assoc)
qed simp

definition dane_policy :: "bool \<Rightarrow> string list \<Rightarrow> string" where
  "dane_policy incompl results =
     (if \<not> list_ex (\<lambda>r. r = ''dane'' \<or> r = ''dane-only'') results then []
      else if incompl \<or> \<not> list_all (\<lambda>r. r = ''dane-only'') results then ''dane''
      else ''dane-only'')"

lemma dane_policy_loop_ok:
  "list_all (\<lambda>r. rt_Err r = None) rs \<Longrightarrow>
   dane_policy_loop None stop (length rs) rs t a b =
     Inr (foldl min t (map rt_TTL rs), foldl min a (map (\<lambda>r. dane_level (rt_Result r)) rs),
          foldl max b (map (\<lambda>r. dane_level (rt_Result r)) rs))"
proof (induction rs arbitrary: t a b)
  case (Cons r rs)
  have "(if x < y then x else y) = min y x" "(if x > y then x else y) = max y x" for x y :: "'a :: linorder"
    by (auto simp: min_def max_def)
  with Cons show ?case by (simp add: Let_def)
qed simp

lemma dane_levels [simp]:
  "\<not> DaneOnly \<le> Dane" "\<not> Dane \<le> NoDane" "NoDane \<le> Dane" "Dane \<le> DaneOnly"
  by (simp_all add: Dane_def DaneOnly_def NoDane_def word_le_nat_alt)

lemma dane_level_iff:
  "dane_level r \<le> Dane \<longleftrightarrow> r \<noteq> ''dane-only''" "Dane \<le> dane_level r \<longleftrightarrow> r = ''dane'' \<or> r = ''dane-only''"
  by (simp_all add: dane_level_def)

lemma getDanePolicy_ok:
  assumes "list_all (\<lambda>r. rt_Err r = None) rs"
  shows "getDanePolicy None stop ttl incompl (length rs) rs =
    Inr (dane_policy incompl (map rt_Result rs), Min (insert ttl (rt_TTL ` set rs)))"
proof -
  let ?l = "map (\<lambda>r. dane_level (rt_Result r)) rs"
  let ?a = "if incompl then NoDane else DaneOnly"
  have max: "Dane \<le> Max (insert NoDane (set ?l)) \<longleftrightarrow> (\<exists>r \<in> set rs. rt_Result r = ''dane'' \<or> rt_Result r = ''dane-only'')"
    by (subst Max_ge_iff) (auto simp: dane_level_iff)
  have min: "Min (insert ?a (set ?l)) \<le> Dane \<longleftrightarrow> incompl \<or> (\<exists>r \<in> set rs. rt_Result r \<noteq> ''dane-only'')"
    by (subst Min_le_iff) (auto simp: dane_level_iff)
  have pol: "(if Dane \<le> foldl max NoDane ?l then (if foldl min ?a ?l \<le> Dane then ''dane'' else ''dane-only'') else [])
      = dane_policy incompl (map rt_Result rs)"
    unfolding foldl_max foldl_min max min
    by (auto simp: dane_policy_def list_all_iff list_ex_iff)
  have ttl: "foldl min ttl (map rt_TTL rs) = Min (insert ttl (rt_TTL ` set rs))"
    by (simp add: foldl_min)
  show ?thesis
    unfolding getDanePolicy_def dane_policy_loop_ok [OF assms] using pol ttl by simp
qed


lemma dane_policy_dane_only:
  "dane_policy incompl results = ''dane-only'' \<longleftrightarrow> \<not> incompl \<and> results \<noteq> [] \<and> (\<forall>r \<in> set results. r = ''dane-only'')"
  by (cases results) (auto simp: dane_policy_def list_all_iff list_ex_iff)

lemma dane_policy_loop_success:
  "dane_policy_loop None stop n rs t a b = Inr x \<Longrightarrow> n \<le> length rs \<and> list_all (\<lambda>r. rt_Err r = None) (take n rs)"
proof (induction n arbitrary: rs t a b)
  case (Suc n)
  then obtain r rs' where "rs = r # rs'" by (cases rs) auto
  with Suc show ?case by (auto simp: Let_def split: option.splits)
qed simp

lemma getDanePolicy_success:
  assumes "getDanePolicy None stop ttl incompl n rs = Inr (pol, t)" "length rs \<le> n"
  shows "n = length rs" "list_all (\<lambda>r. rt_Err r = None) rs" "pol = dane_policy incompl (map rt_Result rs)"
proof -
  from assms(1) obtain x where "dane_policy_loop None stop n rs ttl (if incompl then NoDane else DaneOnly) NoDane = Inr x"
    by (auto simp: getDanePolicy_def split: sum.splits)
  from dane_policy_loop_success [OF this] assms(2)
  show n: "n = length rs" and ok: "list_all (\<lambda>r. rt_Err r = None) rs" by auto
  from getDanePolicy_ok [OF ok, of stop ttl incompl] assms(1) n
  show "pol = dane_policy incompl (map rt_Result rs)" by simp
qed

lemma collectMx_result:
  "collectMx rs hosts ttl failed incompl = (hosts', ttl', failed', incompl') \<Longrightarrow>
   hosts' = hosts @ map mc_host (filter (\<lambda>r. mc_status r = MxOk) rs)
   \<and> (failed' \<longleftrightarrow> failed \<or> (\<exists>r \<in> set rs. mc_status r = MxFail))
   \<and> (incompl' \<longleftrightarrow> incompl \<or> (\<exists>r \<in> set rs. mc_status r = MxNotSec))"
proof (induction rs arbitrary: hosts ttl failed incompl)
  case (Cons r rs)
  from Cons.prems show ?case by (cases "mc_status r") (auto dest!: Cons.IH)
qed simp

lemma getMxRecords_Inr:
  assumes "getMxRecords u client deliver ctxErr domain addr = Inr (hosts, ttl, incompl)" "hosts \<noteq> []"
  obtains records i m where "lookupMxRecords u client domain addr 0 = Inr (records, i)" "records \<noteq> []"
    "ctxErr = None"
    "collectMx (deliver (map (mx_check client addr) records)) [] None False i = (hosts, m, False, incompl)"
proof (cases "lookupMxRecords u client domain addr 0")
  case (Inl e)
  with assms show ?thesis by (simp add: getMxRecords_def)
next
  case (Inr x)
  obtain records i where x: "x = (records, i)" by fastforce
  obtain h m f j where c: "collectMx (deliver (map (mx_check client addr) records)) [] None False i = (h, m, f, j)"
    by (metis prod_cases4)
  have ne: "records \<noteq> []" using assms Inr x by (auto simp: getMxRecords_def)
  with assms(1) Inr x c have "\<not> f" by (auto simp: getMxRecords_def split: if_splits)
  with assms(1) Inr x c ne have "ctxErr = None" "h = hosts" "j = incompl"
    by (auto simp: getMxRecords_def split: option.splits)
  with that Inr x c ne \<open>\<not> f\<close> show ?thesis by auto
qed

text \<open>The deliveries of two pools whose contexts are not cancelled before a failure was received.\<close>

definition fair_env :: "dane_env \<Rightarrow> bool" where
  "fair_env env \<longleftrightarrow>
     (\<forall>xs. list_all (\<lambda>r. mc_status r \<noteq> MxFail) (de_mx env xs) \<longrightarrow> mset (de_mx env xs) = mset xs)
     \<and> (\<forall>xs. list_all (\<lambda>r. rt_Err r = None) (de_tlsa env xs) \<longrightarrow> mset (de_tlsa env xs) = mset xs)
     \<and> (\<forall>xs. length (de_tlsa env xs) \<le> length xs)"

lemma getMxRecords_complete:
  assumes "getMxRecords u client deliver ctxErr domain addr = Inr (hosts, ttl, False)" "hosts \<noteq> []"
    and "\<And>xs. list_all (\<lambda>r. mc_status r \<noteq> MxFail) (deliver xs) \<Longrightarrow> mset (deliver xs) = mset xs"
  shows "ctxErr = None \<and> (\<exists>records. lookupMxRecords u client domain addr 0 = Inr (records, False) \<and> records \<noteq> []
    \<and> (\<forall>r \<in> set records. checkMx client (mx_host r) addr = MxOk) \<and> set hosts = mx_host ` set records)"
proof -
  from assms(1,2) obtain records incompl0 m where l: "lookupMxRecords u client domain addr 0 = Inr (records, incompl0)"
    "records \<noteq> []" and e: "ctxErr = None"
    and c: "collectMx (deliver (map (mx_check client addr) records)) [] None False incompl0 = (hosts, m, False, False)"
    by (rule getMxRecords_Inr)
  let ?xs = "map (mx_check client addr) records"
  from collectMx_result [OF c] have h: "hosts = map mc_host (filter (\<lambda>r. mc_status r = MxOk) (deliver ?xs))"
    and ok: "\<forall>r \<in> set (deliver ?xs). mc_status r \<noteq> MxFail \<and> mc_status r \<noteq> MxNotSec" and "\<not> incompl0"
    by auto
  from ok assms(3) have "mset (deliver ?xs) = mset ?xs" by (simp add: list_all_iff)
  then have set_eq: "set (deliver ?xs) = set ?xs" by (metis set_mset_mset)
  have all: "mc_status r = MxOk" if "r \<in> set ?xs" for r
    using ok set_eq that by (cases "mc_status r") auto
  then have "set hosts = mc_host ` set ?xs" using h set_eq by auto
  then have "set hosts = mx_host ` set records" by (simp add: image_image mx_check_def)
  moreover have "checkMx client (mx_host r) addr = MxOk" if "r \<in> set records" for r
    using all [of "mx_check client addr r"] that by (simp add: mx_check_def)
  ultimately show ?thesis using l e \<open>\<not> incompl0\<close> by auto
qed

lemma checkDaneOnce_dane_only:
  assumes "checkDaneOnce u x509_ok client env domain addr = Inr (''dane-only'', ttl)" "fair_env env"
  shows "\<exists>records. lookupMxRecords u client domain addr 0 = Inr (records, False) \<and> records \<noteq> []
    \<and> (\<forall>r \<in> set records. checkMx client (mx_host r) addr = MxOk
        \<and> rt_Err (checkTlsa x509_ok client (mx_host r) addr) = None
        \<and> rt_Result (checkTlsa x509_ok client (mx_host r) addr) = ''dane-only'')"
proof -
  let ?check = "\<lambda>mx. checkTlsa x509_ok client mx addr"
  from assms(1) obtain hosts t incompl where g: "getMxRecords u client (de_mx env) (de_ctxErr env) domain addr = Inr (hosts, t, incompl)"
    "hosts \<noteq> []"
    "getDanePolicy (de_ctxErr env) (de_done env) t incompl (length hosts) (de_tlsa env (map ?check hosts)) = Inr (''dane-only'', ttl)"
    by (auto simp: checkDaneOnce_def split: sum.splits if_splits)
  let ?rs = "de_tlsa env (map ?check hosts)"
  have len: "length ?rs \<le> length hosts" using assms(2) by (metis fair_env_def length_map)
  have "de_ctxErr env = None" using g(1,2) by (rule getMxRecords_Inr)
  with g(3)
  have "getDanePolicy None (de_done env) t incompl (length hosts) ?rs = Inr (''dane-only'', ttl)" by simp
  note p = getDanePolicy_success [OF this len]
  then have m: "mset ?rs = mset (map ?check hosts)" using assms(2) by (simp add: fair_env_def)
  then have set_eq: "set ?rs = set (map ?check hosts)" by (metis set_mset_mset)
  from p(3) have d: "\<not> incompl" "\<forall>r \<in> set ?rs. rt_Result r = ''dane-only''"
    using dane_policy_dane_only [of incompl "map rt_Result ?rs"] by auto
  with g(1,2) getMxRecords_complete [of u client "de_mx env" "de_ctxErr env" domain addr hosts t] assms(2)
  obtain records where r: "lookupMxRecords u client domain addr 0 = Inr (records, False)" "records \<noteq> []"
    "\<forall>r \<in> set records. checkMx client (mx_host r) addr = MxOk" "set hosts = mx_host ` set records"
    by (auto simp: fair_env_def)
  have "rt_Err (?check h) = None \<and> rt_Result (?check h) = ''dane-only''" if "h \<in> set hosts" for h
    using that set_eq p(2) d(2) by (auto simp: list_all_iff)
  with r show ?thesis by (intro exI [of _ records]) auto
qed


text \<open>What the two positive verdicts rest on.\<close>

lemma checkMxAddress_ok:
  "checkMxAddress client mx addr t = MxOk \<Longrightarrow>
   \<exists>r. exchangeDNS client (newDNSQuery mx t True) addr = Inr r \<and> m_AuthenticatedData r
     \<and> (\<exists>a \<in> set (m_Answer r). has_address t a)"
  by (auto simp: checkMxAddress_def list_ex_iff split: sum.splits if_splits)

lemma checkMx_ok:
  "checkMx client mx addr = MxOk \<Longrightarrow>
   IsDNSName mx \<and> (\<exists>t \<in> {TypeA, TypeAAAA}. checkMxAddress client mx addr t = MxOk)"
  by (auto simp: checkMx_def split: mx_status.splits if_splits)

definition usable_tlsa :: "(nat list \<Rightarrow> bool) \<Rightarrow> rr \<Rightarrow> bool" where
  "usable_tlsa x509_ok a = (case a of TLSA_rr h us se mt cert \<Rightarrow> isTlsaUsable x509_ok us se mt cert | _ \<Rightarrow> False)"

lemma tlsa_loop_dane_only:
  "fst (tlsa_loop x509_ok rs result ttl) = ''dane-only'' \<Longrightarrow> result \<noteq> ''dane-only'' \<Longrightarrow>
   \<exists>a \<in> set rs. usable_tlsa x509_ok a"
proof (induction rs arbitrary: result ttl)
  case (Cons a rs)
  show ?case
  proof (cases "usable_tlsa x509_ok a")
    case False
    have "\<exists>r t. r \<noteq> ''dane-only'' \<and> fst (tlsa_loop x509_ok rs r t) = ''dane-only''"
    proof (cases a)
      case (TLSA_rr h us se mt cert)
      with Cons.prems(1) False have "fst (tlsa_loop x509_ok rs ''dane'' (case ttl of None \<Rightarrow> Some (rr_TTL h)
          | Some t \<Rightarrow> Some (if rr_TTL h < t then rr_TTL h else t))) = ''dane-only''"
        by (simp add: usable_tlsa_def)
      then show ?thesis by (intro exI [of _ "''dane''"]) (simp, blast)
    qed (use Cons.prems in \<open>simp, blast\<close>)+
    with Cons.IH show ?thesis by auto
  qed simp
qed simp

lemma checkTlsa_dane_only:
  assumes "rt_Result (checkTlsa x509_ok client mx addr) = ''dane-only''"
  shows "\<exists>r. exchangeDNS client (newDNSQuery (''_25._tcp.'' @ mx) TypeTLSA True) addr = Inr r
    \<and> m_AuthenticatedData r
    \<and> (\<exists>a \<in> set (m_Answer r). usable_tlsa x509_ok a)"
proof -
  from assms obtain r where r: "exchangeDNS client (newDNSQuery (''_25._tcp.'' @ mx) TypeTLSA True) addr = Inr r"
    "m_AuthenticatedData r" and l: "fst (tlsa_loop x509_ok (m_Answer r) [] None) = ''dane-only''"
    by (auto simp: checkTlsa_def split: sum.splits if_splits prod.splits)
  from tlsa_loop_dane_only [OF l] r show ?thesis by auto
qed

section \<open>Lemmas on MX records\<close>

definition mx_key :: "mxRecord \<Rightarrow> string" where
  "mx_key r = TrimSuffix (mx_host r) ''.''"

lemma TrimSuffix_Fqdn: "TrimSuffix (Fqdn s) ''.'' = TrimSuffix s ''.''"
  by (auto simp: Fqdn_def IsFqdn_def TrimSuffix_def HasSuffix_def)

definition seen_inv :: "mxRecord list \<Rightarrow> (string \<rightharpoonup> nat) \<Rightarrow> bool" where
  "seen_inv records seen \<longleftrightarrow> distinct (map mx_key records) \<and> dom seen = mx_key ` set records
     \<and> (\<forall>k i. seen k = Some i \<longrightarrow> i < length records)"

lemma seen_inv_add:
  "seen_inv records seen \<Longrightarrow> seen (mx_key r) = None \<Longrightarrow>
   seen_inv (records @ [r]) (seen(mx_key r \<mapsto> length records))"
  by (auto simp: seen_inv_def less_Suc_eq domIff)

lemma seen_inv_update:
  assumes "seen_inv records seen"
  shows "seen_inv (records[i := (records ! i)\<lparr>mx_ttl := t\<rparr>]) seen"
proof -
  have keys: "map mx_key (records[i := (records ! i)\<lparr>mx_ttl := t\<rparr>]) = map mx_key records"
    by (cases "i < length records") (simp_all add: map_update mx_key_def list_update_same_conv list_update_beyond)
  then have "mx_key ` set (records[i := (records ! i)\<lparr>mx_ttl := t\<rparr>]) = mx_key ` set records" by (metis set_map)
  with assms keys show ?thesis by (simp add: seen_inv_def)
qed

lemma mx_records_distinct:
  "seen_inv records seen \<Longrightarrow> distinct (map mx_key (mx_records u mxOwner answers records seen))"
proof (induction answers arbitrary: records seen)
  case Nil
  then show ?case by (simp add: seen_inv_def)
next
  case (Cons a answers)
  show ?case
  proof (cases a)
    case (MX_rr h mx)
    let ?host = "ToLower u (TrimSpace mx)"
    have k: "mx_key \<lparr>mx_host = Fqdn ?host, mx_ttl = rr_TTL h\<rparr> = TrimSuffix ?host ''.''"
      by (simp add: mx_key_def TrimSuffix_Fqdn)
    show ?thesis
    proof (cases "seen (TrimSuffix ?host ''.'')")
      case None
      from seen_inv_add [OF Cons.prems, of "\<lparr>mx_host = Fqdn ?host, mx_ttl = rr_TTL h\<rparr>"] k None
      have "seen_inv (records @ [\<lparr>mx_host = Fqdn ?host, mx_ttl = rr_TTL h\<rparr>])
        (seen(TrimSuffix ?host ''.'' \<mapsto> length records))" by simp
      from Cons.IH [OF this] Cons.IH [OF Cons.prems] MX_rr None show ?thesis
        by (simp add: Let_def fun_upd_def)
    next
      case (Some i)
      with MX_rr Cons seen_inv_update [OF Cons.prems] show ?thesis by (simp add: Let_def)
    qed
  qed (use Cons in simp_all)
qed


lemma cap_ttls_keys [simp]: "map mx_key (cap_ttls t rs) = map mx_key rs"
  by (cases t) (simp_all add: cap_ttls_def mx_key_def)

lemma lookup_step:
  assumes "lookupMxRecords u client domain addr depth = Inr (records, incompl)" "records \<noteq> []"
  obtains r rs t owner where "exchangeDNS client (newDNSQuery domain TypeMX True) addr = Inr r"
    "incompl \<or> m_AuthenticatedData r" "depth \<le> DANE_CNAME_MAX_DEPTH" "records = cap_ttls t rs"
    "rs = mx_records u owner (m_Answer r) [] Map.empty
     \<or> (\<exists>d hops j. 0 < hops \<and> lookupMxRecords u client d addr (depth + hops) = Inr (rs, j) \<and> (incompl \<or> \<not> j))
     \<or> rs = [\<lparr>mx_host = Fqdn domain, mx_ttl = negativeResponseTTL r\<rparr>]"
proof -
  note u = assms(1) [unfolded lookupMxRecords.simps [of u client domain addr depth]]
  from u have d: "depth \<le> DANE_CNAME_MAX_DEPTH" by (auto split: if_splits)
  from u d obtain r where r: "exchangeDNS client (newDNSQuery domain TypeMX True) addr = Inr r"
    by (auto split: sum.splits)
  note u2 = u [unfolded r, simplified d not_less [THEN iffD2, OF d], simplified]
  from u2 assms(2) have rc: "m_Rcode r = RcodeSuccess" "m_Rcode r \<noteq> RcodeNameError"
    by (auto split: if_splits simp: RcodeSuccess_def RcodeNameError_def)
  from u2 rc obtain hm where hm: "cname_hops u (m_Answer r) Map.empty = Some hm"
    by (auto simp: Let_def split: option.splits)
  from u2 rc hm obtain owner hops ct where ch: "cname_chain hm depth (ToLower u (Fqdn domain)) [] 0 None = Inr (owner, hops, ct)"
    by (auto simp: Let_def split: sum.splits)
  let ?m = "mx_records u owner (m_Answer r) [] Map.empty"
  have "lookupMxRecords u client domain addr depth =
      (if ?m \<noteq> [] then Inr (cap_ttls ct ?m, \<not> m_AuthenticatedData r)
       else if hops \<noteq> 0 then
         (case lookupMxRecords u client owner addr (depth + hops) of
            Inl err \<Rightarrow> Inl err
          | Inr (child, childIncompl) \<Rightarrow> Inr (cap_ttls ct child, \<not> m_AuthenticatedData r \<or> childIncompl))
       else if \<not> m_AuthenticatedData r then Inr ([], True)
       else Inr ([\<lparr>mx_host = Fqdn domain, mx_ttl = negativeResponseTTL r\<rparr>], \<not> m_AuthenticatedData r))"
    using d rc by (subst lookupMxRecords.simps) (simp add: r hm ch Let_def)
  with assms(1) have u3: "\<dots> = Inr (records, incompl)" by simp
  show thesis
  proof (cases "?m \<noteq> []")
    case True
    with u3 show thesis by (intro that [OF r _ d, of ct ?m owner]) auto
  next
    case no: False
    show thesis
    proof (cases "hops = 0")
      case True
      with no u3 assms(2) show thesis
        by (intro that [OF r _ d, of None records owner]) (auto simp: cap_ttls_def split: if_splits)
    next
      case False
      with no u3 obtain child j where "lookupMxRecords u client owner addr (depth + hops) = Inr (child, j)"
        "records = cap_ttls ct child" "incompl = (\<not> m_AuthenticatedData r \<or> j)"
        by (auto split: sum.splits)
      with False show thesis by (intro that [OF r _ d, of ct child owner]) auto
    qed
  qed
qed

lemma lookup_distinct:
  "lookupMxRecords u client domain addr depth = Inr (records, incompl) \<Longrightarrow> distinct (map mx_key records)"
proof (induction "DANE_CNAME_MAX_DEPTH + 1 - depth" arbitrary: domain depth records incompl rule: less_induct)
  case less
  show ?case
  proof (cases "records = []")
    case False
    from less.prems False show ?thesis
    proof (rule lookup_step)
      fix r rs t owner
      assume d: "depth \<le> DANE_CNAME_MAX_DEPTH" and c: "records = cap_ttls t rs"
        and rs: "rs = mx_records u owner (m_Answer r) [] Map.empty
         \<or> (\<exists>d hops j. 0 < hops \<and> lookupMxRecords u client d addr (depth + hops) = Inr (rs, j) \<and> (incompl \<or> \<not> j))
         \<or> rs = [\<lparr>mx_host = Fqdn domain, mx_ttl = negativeResponseTTL r\<rparr>]"
      from rs have "distinct (map mx_key rs)"
      proof (elim disjE)
        assume "rs = mx_records u owner (m_Answer r) [] Map.empty"
        then show ?thesis by (simp add: mx_records_distinct seen_inv_def)
      next
        assume "\<exists>d hops j. 0 < hops \<and> lookupMxRecords u client d addr (depth + hops) = Inr (rs, j) \<and> (incompl \<or> \<not> j)"
        then obtain e hops j where "0 < hops" "lookupMxRecords u client e addr (depth + hops) = Inr (rs, j)" by blast
        with d show ?thesis by (intro less.hyps [of "depth + hops" e]) auto
      qed simp
      with c show ?thesis by simp
    qed
  qed simp
qed


lemma getDanePolicy_perm:
  assumes "list_all (\<lambda>r. rt_Err r = None) rs" "mset received = mset rs"
  shows "getDanePolicy None stop ttl incompl (length rs) received =
    Inr (dane_policy incompl (map rt_Result rs), Min (insert ttl (rt_TTL ` set rs)))"
proof -
  have s: "set received = set rs" and l: "length received = length rs"
    using assms(2) by (metis set_mset_mset, metis size_mset)
  from assms(1) s have "list_all (\<lambda>r. rt_Err r = None) received" by (simp add: list_all_iff)
  from getDanePolicy_ok [OF this, of stop ttl incompl] s l show ?thesis
    by (simp add: dane_policy_def list_all_iff list_ex_iff)
qed

lemma checkDaneOnce_range: "checkDaneOnce u x509_ok client env domain addr = Inr (p, t) \<Longrightarrow> p \<in> {[], ''dane'', ''dane-only''}"
  by (auto simp: checkDaneOnce_def getDanePolicy_def split: sum.splits if_splits prod.splits)

section \<open>Properties\<close>

text \<open>A domain with two MX hosts under DNSSEC, each with an address and a usable TLSA record, for the
  witnesses.\<close>

definition sample_cert :: string where
  "sample_cert = replicate 64 (CHR ''a'')"

definition sample_msg :: "rr list \<Rightarrow> Msg" where
  "sample_msg rs = \<lparr>m_Rcode = 0, m_Truncated = False, m_AuthenticatedData = True, m_Answer = rs, m_Ns = []\<rparr>"

definition sample_hdr :: "string \<Rightarrow> rr_header" where
  "sample_hdr n = \<lparr>rr_Name = n, rr_TTL = 300\<rparr>"

definition sample_client :: client where
  "sample_client q p addr = Inr (sample_msg
     (case q_Type q of
        TypeMX \<Rightarrow> [MX_rr (sample_hdr (q_Name q @ ''.'')) ''mx.a.'', MX_rr (sample_hdr (q_Name q @ ''.'')) ''mx.b.'']
      | TypeA \<Rightarrow> [A_rr (sample_hdr (q_Name q))]
      | TypeTLSA \<Rightarrow> [TLSA_rr (sample_hdr (q_Name q)) 3 1 1 sample_cert]
      | _ \<Rightarrow> []))"

definition sample_env :: dane_env where
  "sample_env = \<lparr>de_mx = rev, de_tlsa = rev, de_ctxErr = None, de_done = (\<lambda>_. False)\<rparr>"

definition plain_tables :: unicode_tables where
  "plain_tables = \<lparr>u_lower = id, u_upper = id, u_letter = (\<lambda>_. False), u_number = (\<lambda>_. False), u_fold = (\<lambda>_ _. False)\<rparr>"



text \<open>C17. The DANE policy depends only on which results arrive, not on their order: when every TLSA
  lookup of the MX hosts succeeded, the policy is \<^verbatim>\<open>dane-only\<close> exactly when the MX answer is complete
  and every host has usable TLSA records, \<^verbatim>\<open>dane\<close> when only some have TLSA records, and empty when
  none has; the lifetime is the smallest of all lifetimes involved.\<close>

theorem dane_policy_order_independent:
  assumes "list_all (\<lambda>r. rt_Err r = None) results" "mset received = mset results"
  shows "getDanePolicy None stop ttl incompl (length results) received =
    Inr (if \<not> list_ex (\<lambda>r. rt_Result r = ''dane'' \<or> rt_Result r = ''dane-only'') results then []
         else if incompl \<or> \<not> list_all (\<lambda>r. rt_Result r = ''dane-only'') results then ''dane''
         else ''dane-only'',
         Min (insert ttl (rt_TTL ` set results)))"
  using getDanePolicy_perm [OF assms, of stop ttl incompl]
  by (simp add: dane_policy_def list_all_iff list_ex_iff)

theorem dane_policy_order_independent_witness:
  "fst (projr (getDanePolicy None (\<lambda>_. False) 300 False 2
     [\<lparr>rt_Err = None, rt_Result = ''dane'', rt_TTL = 60\<rparr>, \<lparr>rt_Err = None, rt_Result = ''dane-only'', rt_TTL = 90\<rparr>])) = ''dane''"
  using dane_policy_order_independent [of
      "[\<lparr>rt_Err = None, rt_Result = ''dane-only'', rt_TTL = 90\<rparr>, \<lparr>rt_Err = None, rt_Result = ''dane'', rt_TTL = 60\<rparr>]"
      "[\<lparr>rt_Err = None, rt_Result = ''dane'', rt_TTL = 60\<rparr>, \<lparr>rt_Err = None, rt_Result = ''dane-only'', rt_TTL = 90\<rparr>]"
      "\<lambda>_. False" 300 False]
  by (simp add: numeral_eq_Suc)


lemma sample_names:
  "ToLower plain_tables (TrimSpace ''mx.a.'') = ''mx.a.''" "ToLower plain_tables (TrimSpace ''mx.b.'') = ''mx.b.''"
  "ToLower plain_tables (Fqdn ''ex.org'') = ''ex.org.''"
  "EqualFold plain_tables ''ex.org.'' ''ex.org.''"
proof -
  have a: "list_all is_ascii ''mx.a.''" "list_all is_ascii ''mx.b.''" "list_all is_ascii ''ex.org.''"
    by (simp_all add: is_ascii_def)
  then have t: "TrimSpace ''mx.a.'' = ''mx.a.''" "TrimSpace ''mx.b.'' = ''mx.b.''"
    by (simp_all add: TrimSpace_ascii ascii_space_def)
  have l: "map ascii_lower ''mx.a.'' = ''mx.a.''" "map ascii_lower ''mx.b.'' = ''mx.b.''"
    "map ascii_lower ''ex.org.'' = ''ex.org.''" "Fqdn ''ex.org'' = ''ex.org.''" by code_simp+
  show "ToLower plain_tables (TrimSpace ''mx.a.'') = ''mx.a.''" "ToLower plain_tables (TrimSpace ''mx.b.'') = ''mx.b.''"
    "ToLower plain_tables (Fqdn ''ex.org'') = ''ex.org.''" "EqualFold plain_tables ''ex.org.'' ''ex.org.''"
    unfolding t l(4) using a l by (simp_all only: ToLower_ascii EqualFold_ascii)
qed

lemma sample_lookup:
  "lookupMxRecords plain_tables sample_client ''ex.org'' addr 0 =
     Inr ([\<lparr>mx_host = ''mx.a.'', mx_ttl = 300\<rparr>, \<lparr>mx_host = ''mx.b.'', mx_ttl = 300\<rparr>], False)"
proof -
  have f: "Fqdn ''mx.a.'' = ''mx.a.''" "Fqdn ''mx.b.'' = ''mx.b.''" "TrimSuffix ''mx.b.'' ''.'' \<noteq> TrimSuffix ''mx.a.'' ''.''"
    by code_simp+
  show ?thesis
    by (subst lookupMxRecords.simps)
      (simp add: exchangeDNS_def sample_client_def sample_msg_def newDNSQuery_def sample_hdr_def
        RcodeSuccess_def RcodeNameError_def sample_names f cname_chain.simps cap_ttls_def Let_def)
qed

lemma sample_checks:
  "mx \<in> {''mx.a.'', ''mx.b.''} \<Longrightarrow> checkMx sample_client mx addr = MxOk"
  "checkTlsa x sample_client mx addr = \<lparr>rt_Err = None, rt_Result = ''dane-only'', rt_TTL = 300\<rparr>"
proof -
  have n: "IsDNSName ''mx.a.''" "IsDNSName ''mx.b.''" by code_simp+
  have a: "exchangeDNS sample_client (newDNSQuery m TypeA True) addr = Inr (sample_msg [A_rr (sample_hdr m)])" for m
    by (simp add: exchangeDNS_def sample_client_def newDNSQuery_def sample_msg_def)
  show "mx \<in> {''mx.a.'', ''mx.b.''} \<Longrightarrow> checkMx sample_client mx addr = MxOk"
    using n by (auto simp: checkMx_def checkMxAddress_def a sample_msg_def RcodeSuccess_def has_address_def)
  have "IsSHA256 sample_cert"
    by (simp add: IsSHA256_def sample_cert_def IsHex_iff list_all_iff is_hex_digit_def)
  then show "checkTlsa x sample_client mx addr = \<lparr>rt_Err = None, rt_Result = ''dane-only'', rt_TTL = 300\<rparr>"
    by (simp add: checkTlsa_def exchangeDNS_def sample_client_def newDNSQuery_def sample_msg_def
        RcodeSuccess_def isTlsaUsable_def sample_hdr_def)
qed

lemma sample_dane_only:
  "checkDaneOnce plain_tables (\<lambda>_. False) sample_client sample_env ''ex.org'' addr = Inr (''dane-only'', 300)"
  "fair_env sample_env"
proof -
  show "fair_env sample_env" by (simp add: fair_env_def sample_env_def)
  have g: "getMxRecords plain_tables sample_client (de_mx sample_env) (de_ctxErr sample_env) ''ex.org'' addr =
      Inr ([''mx.b.'', ''mx.a.''], 300, False)"
    by (simp add: getMxRecords_def sample_lookup mx_check_def sample_checks(1) sample_env_def)
  show "checkDaneOnce plain_tables (\<lambda>_. False) sample_client sample_env ''ex.org'' addr = Inr (''dane-only'', 300)"
    unfolding checkDaneOnce_def g
    by (simp add: sample_checks(2) sample_env_def getDanePolicy_def dane_level_def Let_def
        NoDane_def DaneOnly_def Dane_def word_le_nat_alt word_less_nat_alt)
qed


text \<open>What a \<^verbatim>\<open>dane-only\<close> verdict rests on.\<close>

definition dnssec_backed :: "unicode_tables \<Rightarrow> (nat list \<Rightarrow> bool) \<Rightarrow> client \<Rightarrow> string \<Rightarrow> string \<Rightarrow> bool" where
  "dnssec_backed u x509_ok client domain addr \<longleftrightarrow>
    (\<exists>records mxAnswer. lookupMxRecords u client domain addr 0 = Inr (records, False) \<and> records \<noteq> []
    \<and> exchangeDNS client (newDNSQuery domain TypeMX True) addr = Inr mxAnswer \<and> m_AuthenticatedData mxAnswer
    \<and> (\<forall>h \<in> mx_host ` set records. IsDNSName h
        \<and> (\<exists>t \<in> {TypeA, TypeAAAA}. \<exists>r. exchangeDNS client (newDNSQuery h t True) addr = Inr r
              \<and> m_AuthenticatedData r \<and> (\<exists>a \<in> set (m_Answer r). has_address t a))
        \<and> (\<exists>r. exchangeDNS client (newDNSQuery (''_25._tcp.'' @ h) TypeTLSA True) addr = Inr r
              \<and> m_AuthenticatedData r \<and> (\<exists>a \<in> set (m_Answer r). usable_tlsa x509_ok a))))"

lemma dane_only_dnssec:
  assumes "checkDaneOnce u x509_ok client env domain addr = Inr (''dane-only'', ttl)" "fair_env env"
  shows "dnssec_backed u x509_ok client domain addr"
proof -
  from checkDaneOnce_dane_only [OF assms] obtain records
    where r: "lookupMxRecords u client domain addr 0 = Inr (records, False)" "records \<noteq> []"
      "\<forall>r \<in> set records. checkMx client (mx_host r) addr = MxOk
        \<and> rt_Result (checkTlsa x509_ok client (mx_host r) addr) = ''dane-only''" by blast
  from r(1,2) obtain m where m: "exchangeDNS client (newDNSQuery domain TypeMX True) addr = Inr m"
    "m_AuthenticatedData m" by (rule lookup_step) auto
  have "IsDNSName h \<and> (\<exists>t \<in> {TypeA, TypeAAAA}. \<exists>r. exchangeDNS client (newDNSQuery h t True) addr = Inr r
          \<and> m_AuthenticatedData r \<and> (\<exists>a \<in> set (m_Answer r). has_address t a))
      \<and> (\<exists>r. exchangeDNS client (newDNSQuery (''_25._tcp.'' @ h) TypeTLSA True) addr = Inr r
          \<and> m_AuthenticatedData r \<and> (\<exists>a \<in> set (m_Answer r). usable_tlsa x509_ok a))"
    if "h \<in> mx_host ` set records" for h
    using that r(3) checkMx_ok [of client h addr] checkMxAddress_ok [of client h addr]
      checkTlsa_dane_only [of x509_ok client h addr] by blast
  with r m show ?thesis unfolding dnssec_backed_def by blast
qed

text \<open>C4. A \<^verbatim>\<open>dane-only\<close> verdict is backed by DNSSEC for every mail host: the MX lookup is complete and
  authenticated, and every MX host it names is a valid name, has an authenticated address record, and
  has an authenticated TLSA answer with a usable record. Hence no host with unsigned or unusable data
  is ever covered by the mandatory policy.\<close>

theorem dane_only_is_backed_by_dnssec:
  assumes "checkDaneOnce u x509_ok client env domain addr = Inr (''dane-only'', ttl)" "fair_env env"
  shows "\<exists>records mxAnswer. lookupMxRecords u client domain addr 0 = Inr (records, False) \<and> records \<noteq> []
    \<and> exchangeDNS client (newDNSQuery domain TypeMX True) addr = Inr mxAnswer \<and> m_AuthenticatedData mxAnswer
    \<and> (\<forall>h \<in> mx_host ` set records. IsDNSName h
        \<and> (\<exists>t \<in> {TypeA, TypeAAAA}. \<exists>r. exchangeDNS client (newDNSQuery h t True) addr = Inr r
              \<and> m_AuthenticatedData r \<and> (\<exists>a \<in> set (m_Answer r). has_address t a))
        \<and> (\<exists>r. exchangeDNS client (newDNSQuery (''_25._tcp.'' @ h) TypeTLSA True) addr = Inr r
              \<and> m_AuthenticatedData r \<and> (\<exists>a \<in> set (m_Answer r). usable_tlsa x509_ok a)))"
  using dane_only_dnssec [OF assms] unfolding dnssec_backed_def .

theorem dane_only_is_backed_by_dnssec_witness:
  "\<exists>records mxAnswer. lookupMxRecords plain_tables sample_client ''ex.org'' ''[::1]:53'' 0 = Inr (records, False)
    \<and> records \<noteq> [] \<and> exchangeDNS sample_client (newDNSQuery ''ex.org'' TypeMX True) ''[::1]:53'' = Inr mxAnswer
    \<and> m_AuthenticatedData mxAnswer"
  using dane_only_is_backed_by_dnssec [OF sample_dane_only(1) [of "''[::1]:53''"] sample_dane_only(2)] by blast

text \<open>A verdict other than TEMP is the verdict of one of the three attempts.\<close>

lemma checkDane_evidence:
  assumes "checkDane u x509_ok client env wait resolver domain mayRetry = (p, ttl)" "p \<noteq> ''TEMP''"
  shows "\<exists>k addr. 1 \<le> k \<and> k \<le> 3 \<and> resolver = Some addr
    \<and> checkDaneOnce u x509_ok (client k) (env k) domain addr = Inr (p, ttl)"
proof -
  from assms obtain addr where r: "resolver = Some addr" by (auto simp: checkDane_def split: option.splits)
  obtain x k where l: "attempt_loop (\<lambda>i. checkDaneOnce u x509_ok (client i) (env i) domain addr) (\<lambda>i. de_ctxErr (env i) \<noteq> None)
      wait (''TEMP'', 0) (if mayRetry then POLICY_ATTEMPTS else 1) 1 = (x, k)" by fastforce
  with assms(1) r have x: "x = (p, ttl)" by (simp add: checkDane_def policy_attempts_def)
  with attempt_loop_result [OF l] assms(2) r show ?thesis by (auto simp: POLICY_ATTEMPTS_def split: if_splits)
qed

text \<open>C34. The outcome of a DANE lookup: always TEMP with lifetime zero or one of the three verdicts, and
  the verdict is the one of the first of the three attempts that did not fail, provided the context
  stays alive; when all attempts fail it is TEMP.\<close>

theorem dane_lookup_outcome:
  "(checkDane u x509_ok client env wait resolver domain mayRetry = (''TEMP'', 0)
      \<or> fst (checkDane u x509_ok client env wait resolver domain mayRetry) \<in> {[], ''dane'', ''dane-only''})
    \<and> (1 \<le> k \<and> k \<le> 3 \<and> checkDaneOnce u x509_ok (client k) (env k) domain addr = Inr verdict
       \<and> (\<forall>i. 1 \<le> i \<and> i < k \<longrightarrow> (\<exists>e. checkDaneOnce u x509_ok (client i) (env i) domain addr = Inl e \<and> e \<noteq> Canceled)
             \<and> de_ctxErr (env i) = None \<and> wait i)
       \<longrightarrow> checkDane u x509_ok client env wait (Some addr) domain True = verdict)
    \<and> ((\<forall>i. 1 \<le> i \<and> i \<le> 3 \<longrightarrow> (\<exists>e. checkDaneOnce u x509_ok (client i) (env i) domain addr = Inl e))
       \<longrightarrow> checkDane u x509_ok client env wait (Some addr) domain True = (''TEMP'', 0))"
proof (intro conjI impI)
  show "checkDane u x509_ok client env wait resolver domain mayRetry = (''TEMP'', 0)
      \<or> fst (checkDane u x509_ok client env wait resolver domain mayRetry) \<in> {[], ''dane'', ''dane-only''}"
  proof (cases resolver)
    case (Some a)
    obtain x n where l: "attempt_loop (\<lambda>i. checkDaneOnce u x509_ok (client i) (env i) domain a) (\<lambda>i. de_ctxErr (env i) \<noteq> None) wait (''TEMP'', 0)
        (if mayRetry then POLICY_ATTEMPTS else 1) 1 = (x, n)" by fastforce
    with Some have "checkDane u x509_ok client env wait resolver domain mayRetry = x"
      by (simp add: checkDane_def policy_attempts_def)
    with attempt_loop_result [OF l] checkDaneOnce_range show ?thesis
      by (metis prod.collapse)
  qed (simp add: checkDane_def)
next
  assume "1 \<le> k \<and> k \<le> 3 \<and> checkDaneOnce u x509_ok (client k) (env k) domain addr = Inr verdict
       \<and> (\<forall>i. 1 \<le> i \<and> i < k \<longrightarrow> (\<exists>e. checkDaneOnce u x509_ok (client i) (env i) domain addr = Inl e \<and> e \<noteq> Canceled)
             \<and> de_ctxErr (env i) = None \<and> wait i)"
  then have "attempt_loop (\<lambda>i. checkDaneOnce u x509_ok (client i) (env i) domain addr) (\<lambda>i. de_ctxErr (env i) \<noteq> None) wait (''TEMP'', 0) 3 1 = (verdict, k)"
    by (intro attempt_loop_succeeds) auto
  then show "checkDane u x509_ok client env wait (Some addr) domain True = verdict"
    by (simp add: checkDane_def policy_attempts_def POLICY_ATTEMPTS_def)
next
  assume f: "\<forall>i. 1 \<le> i \<and> i \<le> 3 \<longrightarrow> (\<exists>e. checkDaneOnce u x509_ok (client i) (env i) domain addr = Inl e)"
  obtain x n where l: "attempt_loop (\<lambda>i. checkDaneOnce u x509_ok (client i) (env i) domain addr) (\<lambda>i. de_ctxErr (env i) \<noteq> None) wait (''TEMP'', 0) 3 1 = (x, n)"
    by fastforce
  from attempt_loop_result [OF l] f have "x = (''TEMP'', 0)" by (metis Inl_Inr_False)
  with l show "checkDane u x509_ok client env wait (Some addr) domain True = (''TEMP'', 0)"
    by (simp add: checkDane_def policy_attempts_def POLICY_ATTEMPTS_def)
qed

theorem dane_lookup_outcome_witness:
  "checkDane plain_tables (\<lambda>_. False) (\<lambda>i. if i = 1 then (\<lambda>_ _ _. Inl DeadlineExceeded) else sample_client)
     (\<lambda>_. sample_env) (\<lambda>_. True) (Some ''[::1]:53'') ''ex.org'' True = (''dane-only'', 300)"
proof -
  let ?c = "\<lambda>i :: nat. if i = 1 then (\<lambda>_ _ _. Inl DeadlineExceeded) else sample_client"
  have "checkDaneOnce plain_tables (\<lambda>_. False) (?c 1) sample_env ''ex.org'' ''[::1]:53'' = Inl DeadlineExceeded"
    by (simp add: checkDaneOnce_def getMxRecords_def lookupMxRecords.simps exchangeDNS_def)
  moreover have "checkDaneOnce plain_tables (\<lambda>_. False) (?c 2) sample_env ''ex.org'' ''[::1]:53'' = Inr (''dane-only'', 300)"
    by (simp add: sample_dane_only(1))
  moreover have "de_ctxErr sample_env = None" by (simp add: sample_env_def)
  moreover have "1 \<le> i \<and> i < 2 \<longleftrightarrow> i = 1" for i :: nat by auto
  ultimately show ?thesis
    using dane_lookup_outcome [of plain_tables "\<lambda>_. False" ?c "\<lambda>_. sample_env" "\<lambda>_. True" None "''ex.org''" True 2
        "''[::1]:53''" "(''dane-only'', 300)"] by simp
qed

text \<open>An MX lookup returns every mail host once: the records have pairwise different host names, up
  to the trailing dot, so each host is checked by one address and one TLSA lookup.\<close>

theorem mx_hosts_distinct:
  assumes "lookupMxRecords u client domain addr depth = Inr (records, incompl)"
  shows "distinct (map (\<lambda>r. TrimSuffix (mx_host r) ''.'') records)"
  using lookup_distinct [OF assms] unfolding mx_key_def [abs_def] .

end
