(* ===== verification/Go_Heap.thy ===== *)
theory Go_Heap
  imports Main "HOL-Library.Multiset"
begin

text \<open>
  Package \<^verbatim>\<open>container/heap\<close> of the Go standard library, over any implementation of its interface:
  a state, a comparison \<^verbatim>\<open>Less\<close> of two positions and an exchange \<^verbatim>\<open>Swap\<close> of two positions. The locale
  \<open>heap_interface\<close> states what the package expects of them and proves that its operations keep the
  heap order and the elements.
\<close>

section \<open>Operations\<close>

function heap_up :: "('s \<Rightarrow> nat \<Rightarrow> nat \<Rightarrow> bool) \<Rightarrow> (nat \<Rightarrow> nat \<Rightarrow> 's \<Rightarrow> 's) \<Rightarrow> 's \<Rightarrow> nat \<Rightarrow> 's" where
  "heap_up lt sw s j =
     (let i = (j - 1) div 2 in
      if i = j \<or> \<not> lt s j i then s else heap_up lt sw (sw i j s) i)"
  by pat_completeness auto
termination
  by (relation "measure (\<lambda>(_, _, _, j). j)") auto

declare heap_up.simps [simp del]

definition smaller_child :: "('s \<Rightarrow> nat \<Rightarrow> nat \<Rightarrow> bool) \<Rightarrow> 's \<Rightarrow> nat \<Rightarrow> nat \<Rightarrow> nat" where
  "smaller_child lt s i n = (if 2 * i + 2 < n \<and> lt s (2 * i + 2) (2 * i + 1) then 2 * i + 2 else 2 * i + 1)"

text \<open>\<^verbatim>\<open>down\<close> with the final position; the library returns whether it differs from the first one.\<close>

function heap_down :: "('s \<Rightarrow> nat \<Rightarrow> nat \<Rightarrow> bool) \<Rightarrow> (nat \<Rightarrow> nat \<Rightarrow> 's \<Rightarrow> 's) \<Rightarrow> 's \<Rightarrow> nat \<Rightarrow> nat \<Rightarrow> 's \<times> nat" where
  "heap_down lt sw s i n =
     (if n \<le> 2 * i + 1 then (s, i)
      else let j = smaller_child lt s i n in
        if \<not> lt s j i then (s, i) else heap_down lt sw (sw i j s) j n)"
  by pat_completeness auto
termination
  by (relation "measure (\<lambda>(_, _, _, i, n). n - i)") (auto simp: smaller_child_def)

declare heap_down.simps [simp del]

text \<open>The common part of \<^verbatim>\<open>Fix\<close> and \<^verbatim>\<open>Remove\<close>: sift down, or else up.\<close>

definition heap_sift :: "('s \<Rightarrow> nat \<Rightarrow> nat \<Rightarrow> bool) \<Rightarrow> (nat \<Rightarrow> nat \<Rightarrow> 's \<Rightarrow> 's) \<Rightarrow> 's \<Rightarrow> nat \<Rightarrow> nat \<Rightarrow> 's" where
  "heap_sift lt sw s i n =
     (case heap_down lt sw s i n of (t, i') \<Rightarrow> if i < i' then t else heap_up lt sw t i)"

text \<open>Whatever exchanges keep, the operations keep.\<close>

lemma heap_up_frame: "(\<And>s i j. P s \<Longrightarrow> P (sw i j s)) \<Longrightarrow> P s \<Longrightarrow> P (heap_up lt sw s j)"
proof (induction lt sw s j rule: heap_up.induct)
  case (1 lt sw s j)
  then show ?case by (subst heap_up.simps) (simp add: Let_def)
qed

lemma heap_down_frame: "(\<And>s i j. P s \<Longrightarrow> P (sw i j s)) \<Longrightarrow> P s \<Longrightarrow> P (fst (heap_down lt sw s i n))"
proof (induction lt sw s i n rule: heap_down.induct)
  case (1 lt sw s i n)
  then show ?case by (subst heap_down.simps) (simp add: Let_def)
qed

lemma heap_sift_frame: "(\<And>s i j. P s \<Longrightarrow> P (sw i j s)) \<Longrightarrow> P s \<Longrightarrow> P (heap_sift lt sw s i n)"
  using heap_down_frame [of P sw s lt i n] heap_up_frame [of P sw _ lt i]
  by (auto simp: heap_sift_def split: prod.split)

section \<open>Heap order on lists\<close>

abbreviation par :: "nat \<Rightarrow> nat" where
  "par k \<equiv> (k - 1) div 2"

definition exchange :: "nat \<Rightarrow> nat \<Rightarrow> 'a list \<Rightarrow> 'a list" where
  "exchange i j xs = xs[i := xs ! j, j := xs ! i]"

definition heap_order :: "('k :: linorder) list \<Rightarrow> nat \<Rightarrow> bool" where
  "heap_order ds n \<longleftrightarrow> (\<forall>k. 0 < k \<and> k < n \<longrightarrow> ds ! par k \<le> ds ! k)"

text \<open>The order may be broken between \<open>j\<close> and its parent only.\<close>

definition broken_above :: "('k :: linorder) list \<Rightarrow> nat \<Rightarrow> nat \<Rightarrow> bool" where
  "broken_above ds n j \<longleftrightarrow>
     (\<forall>k. 0 < k \<and> k < n \<and> k \<noteq> j \<longrightarrow> ds ! par k \<le> ds ! k)
     \<and> (0 < j \<longrightarrow> (\<forall>c. 0 < c \<and> c < n \<and> par c = j \<longrightarrow> ds ! par j \<le> ds ! c))"

text \<open>The order may be broken between \<open>i\<close> and its children only.\<close>

definition broken_below :: "('k :: linorder) list \<Rightarrow> nat \<Rightarrow> nat \<Rightarrow> bool" where
  "broken_below ds n i \<longleftrightarrow>
     (\<forall>k. 0 < k \<and> k < n \<and> par k \<noteq> i \<longrightarrow> ds ! par k \<le> ds ! k)
     \<and> (0 < i \<longrightarrow> (\<forall>c. 0 < c \<and> c < n \<and> par c = i \<longrightarrow> ds ! par i \<le> ds ! c))"

text \<open>The order may be broken on both sides of \<open>i\<close>.\<close>

definition broken_at :: "('k :: linorder) list \<Rightarrow> nat \<Rightarrow> nat \<Rightarrow> bool" where
  "broken_at ds n i \<longleftrightarrow>
     (\<forall>k. 0 < k \<and> k < n \<and> k \<noteq> i \<and> par k \<noteq> i \<longrightarrow> ds ! par k \<le> ds ! k)
     \<and> (0 < i \<longrightarrow> (\<forall>c. 0 < c \<and> c < n \<and> par c = i \<longrightarrow> ds ! par i \<le> ds ! c))"

lemma length_exchange [simp]: "length (exchange i j xs) = length xs"
  by (simp add: exchange_def)

lemma mset_exchange: "i < length xs \<Longrightarrow> j < length xs \<Longrightarrow> mset (exchange i j xs) = mset xs"
  using mset_swap [of i xs j] by (cases "i = j") (auto simp: exchange_def list_update_swap)

lemma nth_exchange:
  "i < length xs \<Longrightarrow> j < length xs \<Longrightarrow> k < length xs \<Longrightarrow>
   exchange i j xs ! k = (if k = j then xs ! i else if k = i then xs ! j else xs ! k)"
  by (auto simp: exchange_def nth_list_update)

lemma map_exchange: "i < length xs \<Longrightarrow> j < length xs \<Longrightarrow> map f (exchange i j xs) = exchange i j (map f xs)"
  by (simp add: exchange_def map_update)

lemma par_less: "0 < k \<Longrightarrow> par k < k"
  by simp

lemma par_child: "par c = i \<Longrightarrow> 0 < c \<Longrightarrow> c = 2 * i + 1 \<or> c = 2 * i + 2"
  by linarith

lemma broken_above_swap:
  assumes b: "broken_above ds n j" and j: "0 < j" "j < n" "n \<le> length ds" and lt: "ds ! j < ds ! par j"
  shows "broken_above (exchange (par j) j ds) n (par j)"
proof -
  let ?i = "par j"
  let ?e = "exchange ?i j ds"
  have i: "?i < j" "?i < length ds" "j < length ds" using j by auto
  have e: "?e ! k = (if k = j then ds ! ?i else if k = ?i then ds ! j else ds ! k)" if "k < n" for k
    using nth_exchange [OF i(2,3), of k] that j(3) by simp
  have up: "?e ! par k \<le> ?e ! k" if k: "0 < k" "k < n" "k \<noteq> ?i" for k
  proof -
    have p: "par k < n" using k by linarith
    have old: "k \<noteq> j \<Longrightarrow> ds ! par k \<le> ds ! k" using b k by (simp add: broken_above_def)
    have child: "par k = j \<Longrightarrow> ds ! ?i \<le> ds ! k" using b k j by (simp add: broken_above_def)
    show ?thesis using e [OF k(2)] e [OF p] old child lt k i(1) par_less [OF k(1)] by auto
  qed
  moreover have "?e ! par ?i \<le> ?e ! c" if c: "0 < ?i" "0 < c" "c < n" "par c = ?i" for c
  proof -
    have p: "par ?i < ?i" using c(1) by simp
    have g: "ds ! par ?i \<le> ds ! ?i" using b c(1) i(1) j(2) by (simp add: broken_above_def)
    have "c \<noteq> j \<Longrightarrow> ds ! ?i \<le> ds ! c" using b c by (metis broken_above_def)
    moreover have "c \<noteq> ?i" using c(2,4) by simp
    ultimately show ?thesis using e [OF c(3)] e [of "par ?i"] g p i(1) j(2) by auto
  qed
  ultimately show ?thesis by (simp add: broken_above_def)
qed

lemma broken_above_done:
  "broken_above ds n j \<Longrightarrow> j = 0 \<or> ds ! par j \<le> ds ! j \<Longrightarrow> heap_order ds n"
  unfolding broken_above_def heap_order_def by (metis less_irrefl)

definition min_child :: "('k :: linorder) list \<Rightarrow> nat \<Rightarrow> nat \<Rightarrow> nat" where
  "min_child ds i n = (if 2 * i + 2 < n \<and> ds ! (2 * i + 2) < ds ! (2 * i + 1) then 2 * i + 2 else 2 * i + 1)"

lemma min_child:
  assumes "2 * i + 1 < n"
  shows "min_child ds i n < n" "par (min_child ds i n) = i" "i < min_child ds i n"
    and "0 < c \<Longrightarrow> c < n \<Longrightarrow> par c = i \<Longrightarrow> ds ! min_child ds i n \<le> ds ! c"
  using assms par_child [of c i] by (auto simp: min_child_def)

lemma broken_at_swap:
  assumes b: "broken_at ds n i" and n: "2 * i + 1 < n" "n \<le> length ds" and lt: "ds ! min_child ds i n < ds ! i"
  shows "broken_below (exchange i (min_child ds i n) ds) n (min_child ds i n)"
proof -
  let ?j = "min_child ds i n"
  let ?e = "exchange i ?j ds"
  note mc = min_child [OF n(1), where ds = ds]
  have l: "i < length ds" "?j < length ds" using mc(1,3) n(2) by linarith+
  have e: "?e ! k = (if k = ?j then ds ! i else if k = i then ds ! ?j else ds ! k)" if "k < n" for k
    using nth_exchange [OF l, of k] that n(2) by simp
  have "?e ! par k \<le> ?e ! k" if k: "0 < k" "k < n" "par k \<noteq> ?j" for k
  proof -
    have p: "par k < n" using k by linarith
    consider "k = i" | "par k = i" | "k \<noteq> i" "par k \<noteq> i" by blast
    then show ?thesis
    proof cases
      case 1
      then have "ds ! par i \<le> ds ! ?j" using b mc k by (simp add: broken_at_def)
      then show ?thesis using 1 e [OF k(2)] e [OF p] k mc(3) by (auto simp: par_less)
    next
      case 2
      then show ?thesis using e [OF k(2)] e [OF p] lt mc(4) [OF k(1,2)] mc(3) k par_less [OF k(1)] by auto
    next
      case 3
      then have "ds ! par k \<le> ds ! k" using b k by (simp add: broken_at_def)
      moreover have "k \<noteq> ?j" using 3 mc(2) by auto
      ultimately show ?thesis using 3 e [OF k(2)] e [OF p] k by simp
    qed
  qed
  moreover have "?e ! par ?j \<le> ?e ! c" if c: "0 < c" "c < n" "par c = ?j" for c
  proof -
    have ne: "c \<noteq> ?j" "c \<noteq> i" using c mc(3) by auto
    then have "ds ! ?j \<le> ds ! c" using b c mc(3) by (metis broken_at_def less_irrefl)
    then show ?thesis using e [OF c(2)] e [of i] ne mc n(1) by auto
  qed
  ultimately show ?thesis by (simp add: broken_below_def)
qed

lemma broken_below_at: "broken_below ds n i \<Longrightarrow> broken_at ds n i"
  by (simp add: broken_below_def broken_at_def)

lemma broken_at_above:
  assumes "broken_at ds n i" "\<And>c. 0 < c \<Longrightarrow> c < n \<Longrightarrow> par c = i \<Longrightarrow> ds ! i \<le> ds ! c"
  shows "broken_above ds n i"
proof -
  have "ds ! par k \<le> ds ! k" if "0 < k" "k < n" "k \<noteq> i" for k
    using assms(2) [OF that(1,2)] assms(1) that by (cases "par k = i") (auto simp: broken_at_def)
  with assms(1) show ?thesis by (simp add: broken_at_def broken_above_def)
qed

lemma broken_below_done:
  assumes "broken_below ds n i" "\<And>c. 0 < c \<Longrightarrow> c < n \<Longrightarrow> par c = i \<Longrightarrow> ds ! i \<le> ds ! c"
  shows "heap_order ds n"
proof -
  have "ds ! par k \<le> ds ! k" if "0 < k" "k < n" for k
    using assms(2) [OF that] assms(1) that by (cases "par k = i") (auto simp: broken_below_def)
  then show ?thesis by (simp add: heap_order_def)
qed

lemma heap_order_broken_at:
  assumes h: "heap_order ds n" and e: "\<And>k. k < n \<Longrightarrow> k \<noteq> i \<Longrightarrow> es ! k = ds ! k"
  shows "broken_at es n i"
proof -
  have "es ! par k \<le> es ! k" if "0 < k" "k < n" "k \<noteq> i" "par k \<noteq> i" for k
    using h that e [of k] e [of "par k"] by (auto simp: heap_order_def)
  moreover have "es ! par i \<le> es ! c" if "0 < i" "0 < c" "c < n" "par c = i" for c
  proof -
    have ic: "i < n" "c \<noteq> i" "par i < n" "par i \<noteq> i" using that by auto
    have "ds ! par i \<le> ds ! i" "ds ! i \<le> ds ! c" using h that ic by (auto simp: heap_order_def)
    then show ?thesis using e [of c] e [of "par i"] that ic by auto
  qed
  ultimately show ?thesis by (simp add: broken_at_def)
qed

lemma heap_order_broken_above:
  assumes "heap_order ds n" "\<And>k. k < n \<Longrightarrow> es ! k = ds ! k"
  shows "broken_above es (Suc n) n"
proof -
  have "es ! par k \<le> es ! k" if "0 < k" "k < Suc n" "k \<noteq> n" for k
    using that assms by (auto simp: heap_order_def)
  then show ?thesis by (auto simp: broken_above_def)
qed

lemma heap_order_cong: "heap_order ds n \<Longrightarrow> (\<And>k. k < n \<Longrightarrow> es ! k = ds ! k) \<Longrightarrow> heap_order es n"
  by (auto simp: heap_order_def)

lemma broken_at_root: "broken_at ds n 0 \<Longrightarrow> broken_below ds n 0"
  by (auto simp: broken_at_def broken_below_def)

lemma heap_order_root: "heap_order ds n \<Longrightarrow> k < n \<Longrightarrow> ds ! 0 \<le> ds ! k"
proof (induction k rule: less_induct)
  case (less k)
  show ?case
  proof (cases "k = 0")
    case False
    with less have "ds ! 0 \<le> ds ! par k" by (intro less.IH) auto
    also have "\<dots> \<le> ds ! k" using less.prems False by (simp add: heap_order_def)
    finally show ?thesis .
  qed simp
qed


section \<open>The interface\<close>

locale heap_interface =
  fixes elems :: "'s \<Rightarrow> (('k :: linorder) \<times> 'a) list"
    and inv :: "'s \<Rightarrow> bool"
    and lt :: "'s \<Rightarrow> nat \<Rightarrow> nat \<Rightarrow> bool"
    and sw :: "nat \<Rightarrow> nat \<Rightarrow> 's \<Rightarrow> 's"
  assumes lt_iff: "inv s \<Longrightarrow> i < length (elems s) \<Longrightarrow> j < length (elems s) \<Longrightarrow>
      lt s i j \<longleftrightarrow> fst (elems s ! i) < fst (elems s ! j)"
    and sw_elems: "inv s \<Longrightarrow> i < length (elems s) \<Longrightarrow> j < length (elems s) \<Longrightarrow>
      elems (sw i j s) = exchange i j (elems s)"
    and sw_inv: "inv s \<Longrightarrow> i < length (elems s) \<Longrightarrow> j < length (elems s) \<Longrightarrow> inv (sw i j s)"
begin

abbreviation keys :: "'s \<Rightarrow> 'k list" where
  "keys s \<equiv> map fst (elems s)"

text \<open>What every operation keeps: the invariant, the elements, and everything from \<open>n\<close> on.\<close>

definition kept :: "nat \<Rightarrow> 's \<Rightarrow> 's \<Rightarrow> bool" where
  "kept n s t \<longleftrightarrow> inv t \<and> length (elems t) = length (elems s) \<and> mset (elems t) = mset (elems s)
     \<and> drop n (elems t) = drop n (elems s)"

lemma kept_refl: "inv s \<Longrightarrow> kept n s s"
  by (simp add: kept_def)

lemma kept_trans: "kept n s t \<Longrightarrow> kept n t u \<Longrightarrow> kept n s u"
  by (simp add: kept_def)

lemma kept_sw:
  assumes "inv s" "i < n" "j < n" "n \<le> length (elems s)"
  shows "kept n s (sw i j s)"
proof -
  have l: "i < length (elems s)" "j < length (elems s)" using assms by linarith+
  have "drop n (exchange i j (elems s)) = drop n (elems s)" using assms by (simp add: exchange_def)
  with l show ?thesis
    using assms(1) by (simp add: kept_def sw_elems sw_inv mset_exchange)
qed

lemma keys_sw:
  "inv s \<Longrightarrow> i < length (elems s) \<Longrightarrow> j < length (elems s) \<Longrightarrow> keys (sw i j s) = exchange i j (keys s)"
  by (simp add: sw_elems map_exchange)

lemma up_ok:
  assumes "inv s" "j < n" "n \<le> length (elems s)" "broken_above (keys s) n j"
  shows "kept n s (heap_up lt sw s j) \<and> heap_order (keys (heap_up lt sw s j)) n"
  using assms
proof (induction j arbitrary: s rule: less_induct)
  case (less j)
  let ?i = "par j"
  have l: "?i < length (elems s)" "j < length (elems s)" "?i < n" using less.prems by linarith+
  have c: "lt s j ?i \<longleftrightarrow> keys s ! j < keys s ! ?i" using lt_iff [OF less.prems(1) l(2,1)] l by simp
  show ?case
  proof (cases "?i = j \<or> \<not> lt s j ?i")
    case True
    then have "heap_up lt sw s j = s" by (subst heap_up.simps) (simp add: Let_def)
    moreover have "j = 0 \<or> keys s ! ?i \<le> keys s ! j" using True c par_less [of j] by auto
    ultimately show ?thesis using broken_above_done [OF less.prems(4)] kept_refl [OF less.prems(1)] by simp
  next
    case False
    then have j: "0 < j" "keys s ! j < keys s ! ?i" using c by (auto intro: gr0I)
    let ?t = "sw ?i j s"
    have k: "kept n s ?t" using less.prems l by (intro kept_sw) auto
    have "broken_above (keys ?t) n ?i"
      using broken_above_swap [OF less.prems(4) j(1) less.prems(2)] less.prems(1,3) j(2) l by (simp add: keys_sw)
    then have "kept n ?t (heap_up lt sw ?t ?i) \<and> heap_order (keys (heap_up lt sw ?t ?i)) n"
      using k l less.prems(3) j(1) by (intro less.IH) (auto simp: kept_def)
    moreover have "heap_up lt sw s j = heap_up lt sw ?t ?i" using False by (subst heap_up.simps) (simp add: Let_def)
    ultimately show ?thesis using kept_trans [OF k] by simp
  qed
qed

lemma smaller_child_eq:
  "inv s \<Longrightarrow> n \<le> length (elems s) \<Longrightarrow> 2 * i + 1 < n \<Longrightarrow> smaller_child lt s i n = min_child (keys s) i n"
  by (auto simp: smaller_child_def min_child_def lt_iff)

lemma down_ok:
  assumes "inv s" "n \<le> length (elems s)" "broken_at (keys s) n i" "i < n"
    and "heap_down lt sw s i n = (t, i')"
  shows "kept n s t \<and> (i < i' \<longrightarrow> heap_order (keys t) n) \<and> (i = i' \<longrightarrow> t = s \<and> broken_above (keys s) n i)
    \<and> i \<le> i' \<and> (broken_below (keys s) n i \<longrightarrow> heap_order (keys t) n)"
  using assms
proof (induction "n - i" arbitrary: s i rule: less_induct)
  case less
  let ?j = "smaller_child lt s i n"
  have stop: ?case if "t = s" "i' = i" "\<And>c. 0 < c \<Longrightarrow> c < n \<Longrightarrow> par c = i \<Longrightarrow> keys s ! i \<le> keys s ! c"
    using that less.prems(1,3) broken_at_above [of "keys s" n i] broken_below_done [of "keys s" n i]
    by (simp add: kept_refl)
  show ?case
  proof (cases "n \<le> 2 * i + 1")
    case True
    with less.prems(5) have "t = s" "i' = i" by (auto simp: heap_down.simps)
    then show ?thesis using True par_child by (intro stop) fastforce+
  next
    case False
    then have n: "2 * i + 1 < n" by simp
    have e: "?j = min_child (keys s) i n" using less.prems(1,2) n by (rule smaller_child_eq)
    note mc = min_child [OF n, where ds = "keys s"]
    have l: "?j < length (elems s)" "i < length (elems s)" using mc e less.prems(2,4) by auto
    have c: "lt s ?j i \<longleftrightarrow> keys s ! ?j < keys s ! i" using lt_iff [OF less.prems(1) l] l by simp
    show ?thesis
    proof (cases "lt s ?j i")
      case no: False
      with n less.prems(5) have "t = s" "i' = i" by (auto simp: heap_down.simps [of _ _ s] Let_def)
      then show ?thesis
      proof (rule stop)
        fix k assume "0 < k" "k < n" "par k = i"
        from mc(4) [OF this] no c e show "keys s ! i \<le> keys s ! k" by simp
      qed
    next
      case yes: True
      let ?u = "sw i ?j s"
      have k: "kept n s ?u" using less.prems mc e by (intro kept_sw) auto
      have b: "broken_below (keys ?u) n ?j"
        using broken_at_swap [OF less.prems(3) n] less.prems(1,2) yes c e l by (simp add: keys_sw)
      have d: "heap_down lt sw ?u ?j n = (t, i')"
        using less.prems(5) n yes by (subst (asm) heap_down.simps) (simp add: Let_def)
      have "kept n ?u t \<and> ?j \<le> i' \<and> (broken_below (keys ?u) n ?j \<longrightarrow> heap_order (keys t) n)"
        using less.hyps [of ?j ?u] k b d mc(1,3) e less.prems(2,4) broken_below_at [OF b] by (auto simp: kept_def)
      then show ?thesis using b kept_trans [OF k] mc(3) e by auto
    qed
  qed
qed

lemma sift_ok:
  assumes "inv s" "n \<le> length (elems s)" "broken_at (keys s) n i" "i < n"
  shows "kept n s (heap_sift lt sw s i n) \<and> heap_order (keys (heap_sift lt sw s i n)) n"
proof -
  obtain t i' where d: "heap_down lt sw s i n = (t, i')" by fastforce
  note o = down_ok [OF assms d]
  show ?thesis
  proof (cases "i < i'")
    case True
    with o d show ?thesis by (simp add: heap_sift_def)
  next
    case False
    with o have "t = s" "broken_above (keys s) n i" by auto
    with up_ok [OF assms(1,4,2)] d False show ?thesis by (simp add: heap_sift_def)
  qed
qed

end

end
