(* ===== verification/Scheduler.thy ===== *)
theory Scheduler
  imports Go_Heap Prelude
begin

text \<open>
  The prefetch scheduler of \<^verbatim>\<open>internal/prefetch.go\<close>: a priority queue of cache keys by due time on top of
  \<^verbatim>\<open>container/heap\<close>, with an index from keys to queue positions, the failure counts, and the batch
  times with their jitter.

  The program's \<^verbatim>\<open>items\<close> map and its queue share the pointers to the items. An item is created with its
  map entry and dropped with it, so its key serves as its address: the queue is a list of keys, and
  the item a key points to is in the map. Every operation runs under the scheduler's mutex.
\<close>

section \<open>Data\<close>

record prefetchItem =
  it_due :: time
  it_index :: int

record prefetchFailure =
  pf_firstFailed :: time
  pf_attempts :: u32

record prefetchScheduler =
  batchOrigin :: time
  items :: "string \<rightharpoonup> prefetchItem"
  failures :: "string \<rightharpoonup> prefetchFailure"
  wake :: bool
  queue :: "string list"
  jitterSeed :: u64

definition PREFETCH_RETRY_MAX_AGE :: duration where
  "PREFETCH_RETRY_MAX_AGE = 30 * 60 * nanos_per_second"
definition PREFETCH_RETRY_MAX_INTERVAL :: duration where
  "PREFETCH_RETRY_MAX_INTERVAL = 5 * 60 * nanos_per_second"
definition PREFETCH_SLOT_INTERVAL :: duration where
  "PREFETCH_SLOT_INTERVAL = 10 * nanos_per_second"
definition PREFETCH_BATCH_JITTER_MAX :: duration where
  "PREFETCH_BATCH_JITTER_MAX = 250 * nanos_per_milli"

section \<open>The queue as a heap\<close>

definition item_due :: "prefetchScheduler \<Rightarrow> string \<Rightarrow> time" where
  "item_due s k = (case items s k of Some it \<Rightarrow> it_due it | None \<Rightarrow> 0)"

definition set_index :: "string \<Rightarrow> int \<Rightarrow> prefetchScheduler \<Rightarrow> prefetchScheduler" where
  "set_index k i s = s\<lparr>items := (items s)(k := map_option (\<lambda>it. it\<lparr>it_index := i\<rparr>) (items s k))\<rparr>"

definition q_Less :: "prefetchScheduler \<Rightarrow> nat \<Rightarrow> nat \<Rightarrow> bool" where
  "q_Less s i j = time_Before (item_due s (queue s ! i)) (item_due s (queue s ! j))"

definition q_Swap :: "nat \<Rightarrow> nat \<Rightarrow> prefetchScheduler \<Rightarrow> prefetchScheduler" where
  "q_Swap i j s =
     (let q = exchange i j (queue s) in
      set_index (q ! j) (int j) (set_index (q ! i) (int i) (s\<lparr>queue := q\<rparr>)))"

definition q_Push :: "string \<Rightarrow> prefetchScheduler \<Rightarrow> prefetchScheduler" where
  "q_Push k s = (set_index k (int (length (queue s))) s)\<lparr>queue := queue s @ [k]\<rparr>"

definition q_Pop :: "prefetchScheduler \<Rightarrow> string \<times> prefetchScheduler" where
  "q_Pop s =
     (let k = last (queue s) in (k, (set_index k (-1) s)\<lparr>queue := butlast (queue s)\<rparr>))"

definition heap_Push :: "string \<Rightarrow> prefetchScheduler \<Rightarrow> prefetchScheduler" where
  "heap_Push k s = (let t = q_Push k s in heap_up q_Less q_Swap t (length (queue t) - 1))"

definition heap_Pop :: "prefetchScheduler \<Rightarrow> string \<times> prefetchScheduler" where
  "heap_Pop s =
     (let n = length (queue s) - 1 in q_Pop (fst (heap_down q_Less q_Swap (q_Swap 0 n s) 0 n)))"

definition heap_Remove :: "nat \<Rightarrow> prefetchScheduler \<Rightarrow> string \<times> prefetchScheduler" where
  "heap_Remove i s =
     (let n = length (queue s) - 1 in
      q_Pop (if n \<noteq> i then heap_sift q_Less q_Swap (q_Swap i n s) i n else s))"

definition heap_Fix :: "nat \<Rightarrow> prefetchScheduler \<Rightarrow> prefetchScheduler" where
  "heap_Fix i s = heap_sift q_Less q_Swap s i (length (queue s))"

section \<open>Operations\<close>

definition notify :: "prefetchScheduler \<Rightarrow> prefetchScheduler" where
  "notify s = s\<lparr>wake := True\<rparr>"

definition scheduleLocked :: "string \<Rightarrow> time \<Rightarrow> prefetchScheduler \<Rightarrow> prefetchScheduler" where
  "scheduleLocked key due s = (case items s key of
     Some item \<Rightarrow> heap_Fix (nat (it_index item)) (s\<lparr>items := (items s)(key \<mapsto> item\<lparr>it_due := due\<rparr>)\<rparr>)
   | None \<Rightarrow> heap_Push key (s\<lparr>items := (items s)(key \<mapsto> \<lparr>it_due = due, it_index = 0\<rparr>)\<rparr>))"

definition schedule :: "string \<Rightarrow> time \<Rightarrow> prefetchScheduler \<Rightarrow> prefetchScheduler" where
  "schedule key due s = notify (scheduleLocked key due s)"

definition dropItem :: "string \<Rightarrow> prefetchScheduler \<Rightarrow> prefetchScheduler" where
  "dropItem key s = (case items s key of
     Some item \<Rightarrow>
       (let t = snd (heap_Remove (nat (it_index item)) s) in t\<lparr>items := (items t)(key := None)\<rparr>)
   | None \<Rightarrow> s)"

definition dropFailures :: "string \<Rightarrow> prefetchScheduler \<Rightarrow> prefetchScheduler" where
  "dropFailures key s = s\<lparr>failures := (failures s)(key := None)\<rparr>"

definition sched_remove :: "string \<Rightarrow> prefetchScheduler \<Rightarrow> prefetchScheduler" where
  "sched_remove key s = dropFailures key (dropItem key s)"

definition sched_clear :: "prefetchScheduler \<Rightarrow> prefetchScheduler" where
  "sched_clear s = notify (s\<lparr>items := Map.empty, failures := Map.empty, queue := []\<rparr>)"

definition resetFailures :: "string \<Rightarrow> prefetchScheduler \<Rightarrow> prefetchScheduler" where
  "resetFailures key s = dropFailures key s"

definition nextDue :: "prefetchScheduler \<Rightarrow> time option" where
  "nextDue s = (if length (queue s) = 0 then None else Some (item_due s (queue s ! 0)))"

definition newPrefetchSchedulerAt :: "time \<Rightarrow> u64 \<Rightarrow> prefetchScheduler" where
  "newPrefetchSchedulerAt startedAt seed =
     \<lparr>batchOrigin = time_Add startedAt PREFETCH_SLOT_INTERVAL, items = Map.empty, failures = Map.empty,
      wake = False, queue = [], jitterSeed = seed\<rparr>"

section \<open>Well-formedness\<close>

definition elems :: "prefetchScheduler \<Rightarrow> (time \<times> string) list" where
  "elems s = map (\<lambda>k. (item_due s k, k)) (queue s)"

definition q_inv :: "prefetchScheduler \<Rightarrow> bool" where
  "q_inv s \<longleftrightarrow> distinct (queue s)
     \<and> (\<forall>i < length (queue s). \<exists>it. items s (queue s ! i) = Some it \<and> it_index it = int i)"

text \<open>The scheduler seen as a timetable.\<close>

definition timetable :: "prefetchScheduler \<Rightarrow> string \<rightharpoonup> time" where
  "timetable s k = map_option it_due (items s k)"

definition sched_wf :: "prefetchScheduler \<Rightarrow> bool" where
  "sched_wf s \<longleftrightarrow> q_inv s \<and> dom (items s) = set (queue s)
     \<and> heap_order (map fst (elems s)) (length (queue s))"

lemma set_index_simps [simp]:
  "queue (set_index k i s) = queue s" "timetable (set_index k i s) = timetable s"
  "dom (items (set_index k i s)) = dom (items s)" "failures (set_index k i s) = failures s"
  "batchOrigin (set_index k i s) = batchOrigin s" "jitterSeed (set_index k i s) = jitterSeed s"
  "wake (set_index k i s) = wake s"
  by (auto simp: set_index_def timetable_def fun_eq_iff option.map_comp comp_def split: if_splits)

lemma item_due_timetable: "item_due s k = (case timetable s k of Some d \<Rightarrow> d | None \<Rightarrow> 0)"
  by (simp add: item_due_def timetable_def split: option.splits)

lemma timetable_update [simp]: "timetable (s\<lparr>queue := q\<rparr>) = timetable s"
  by (simp add: timetable_def fun_eq_iff)

lemma elems_length [simp]: "length (elems s) = length (queue s)"
  by (simp add: elems_def)

lemma elems_snd [simp]: "map snd (elems s) = queue s"
  by (simp add: elems_def comp_def)

lemma elems_cong: "timetable s = timetable t \<Longrightarrow> queue s = queue t \<Longrightarrow> elems s = elems t"
  by (simp add: elems_def item_due_timetable)

lemma q_Swap_simps:
  "queue (q_Swap i j s) = exchange i j (queue s)" "timetable (q_Swap i j s) = timetable s"
  "dom (items (q_Swap i j s)) = dom (items s)" "failures (q_Swap i j s) = failures s"
  "batchOrigin (q_Swap i j s) = batchOrigin s" "jitterSeed (q_Swap i j s) = jitterSeed s"
  "wake (q_Swap i j s) = wake s"
  by (simp_all add: q_Swap_def Let_def)

lemma index_after_set:
  "items (set_index k i s) x = (if x = k then map_option (\<lambda>it. it\<lparr>it_index := i\<rparr>) (items s k) else items s x)"
  by (simp add: set_index_def)

lemma q_inv_Swap:
  assumes "q_inv s" "i < length (queue s)" "j < length (queue s)"
  shows "q_inv (q_Swap i j s)"
proof -
  let ?q = "exchange i j (queue s)"
  have d: "distinct ?q" using assms by (simp add: q_inv_def exchange_def distinct_swap)
  have "\<exists>it. items (q_Swap i j s) (?q ! k) = Some it \<and> it_index it = int k" if k: "k < length (queue s)" for k
  proof -
    have nth: "?q ! k = (if k = j then queue s ! i else if k = i then queue s ! j else queue s ! k)"
      using nth_exchange [OF assms(2,3) k] .
    have eq: "?q ! k = ?q ! l \<longleftrightarrow> k = l" if "l < length (queue s)" for l
      using d k that by (simp add: nth_eq_iff_index_eq)
    have "\<exists>it. items s (?q ! k) = Some it" using assms k nth by (auto simp: q_inv_def)
    moreover have "k \<noteq> i \<Longrightarrow> k \<noteq> j \<Longrightarrow> \<exists>it. items s (?q ! k) = Some it \<and> it_index it = int k"
      using assms(1) k nth by (simp add: q_inv_def)
    ultimately show ?thesis
      using eq [OF assms(2)] eq [OF assms(3)] by (auto simp: q_Swap_def Let_def index_after_set)
  qed
  with d show ?thesis by (simp add: q_inv_def q_Swap_simps)
qed

interpretation pq: heap_interface elems q_inv q_Less q_Swap
proof
  fix s i j
  assume "q_inv s" "i < length (elems s)" "j < length (elems s)"
  then show "q_Less s i j \<longleftrightarrow> fst (elems s ! i) < fst (elems s ! j)"
    by (simp add: q_Less_def elems_def time_Before_def)
next
  fix s i j
  assume "q_inv s" "i < length (elems s)" "j < length (elems s)"
  then show "elems (q_Swap i j s) = exchange i j (elems s)"
    by (simp add: elems_def q_Swap_simps item_due_timetable map_exchange)
next
  fix s i j
  assume "q_inv s" "i < length (elems s)" "j < length (elems s)"
  then show "q_inv (q_Swap i j s)" by (simp add: q_inv_Swap)
qed


text \<open>What the heap operations leave alone.\<close>

definition frame :: "prefetchScheduler \<Rightarrow> (string \<rightharpoonup> time) \<times> (string \<rightharpoonup> prefetchFailure) \<times> time \<times> u64 \<times> bool" where
  "frame s = (timetable s, failures s, batchOrigin s, jitterSeed s, wake s)"

lemma frame_Swap [simp]: "frame (q_Swap i j s) = frame s"
  by (simp add: frame_def q_Swap_simps)

lemma frame_ops [simp]:
  "frame (heap_up q_Less q_Swap s j) = frame s"
  "frame (fst (heap_down q_Less q_Swap s i n)) = frame s"
  "frame (heap_sift q_Less q_Swap s i n) = frame s"
  using heap_up_frame [of "\<lambda>t. frame t = frame s" q_Swap s q_Less j]
    heap_down_frame [of "\<lambda>t. frame t = frame s" q_Swap s q_Less i n]
    heap_sift_frame [of "\<lambda>t. frame t = frame s" q_Swap s q_Less i n] by simp_all

lemma dom_timetable: "dom (items s) = dom (timetable s)"
  by (auto simp: timetable_def)

lemma frame_dom: "frame s = frame t \<Longrightarrow> dom (items s) = dom (items t)"
  by (simp add: frame_def dom_timetable)

lemma kept_set: "pq.kept n s t \<Longrightarrow> set (queue t) = set (queue s)"
  unfolding pq.kept_def by (metis elems_snd set_map set_mset_mset)

lemma kept_queue_drop: "pq.kept n s t \<Longrightarrow> drop n (queue t) = drop n (queue s)"
  unfolding pq.kept_def by (metis elems_snd drop_map)

lemma kept_queue_length: "pq.kept n s t \<Longrightarrow> length (queue t) = length (queue s)"
  by (simp add: pq.kept_def)

lemma nth_dues: "i < length (queue s) \<Longrightarrow> map fst (elems s) ! i = item_due s (queue s ! i)"
  by (simp add: elems_def)

text \<open>Dropping the last item of the queue.\<close>

lemma q_Pop_simps:
  "fst (q_Pop s) = last (queue s)" "queue (snd (q_Pop s)) = butlast (queue s)"
  "frame (snd (q_Pop s)) = frame s"
  by (simp_all add: q_Pop_def Let_def frame_def)

lemma q_inv_Pop:
  assumes "q_inv s" "queue s \<noteq> []"
  shows "q_inv (snd (q_Pop s))"
proof -
  have "queue s ! i \<noteq> last (queue s)" if "i < length (queue s) - 1" for i
    using assms that by (simp add: q_inv_def last_conv_nth nth_eq_iff_index_eq)
  with assms show ?thesis
    by (auto simp: q_inv_def q_Pop_simps(2) distinct_butlast nth_butlast q_Pop_def Let_def index_after_set)
qed

lemma wf_index:
  assumes "sched_wf s" "items s k = Some it"
  shows "\<exists>i. it_index it = int i \<and> i < length (queue s) \<and> queue s ! i = k"
proof -
  from assms have "k \<in> set (queue s)" by (auto simp: sched_wf_def)
  then obtain i where i: "i < length (queue s)" "queue s ! i = k" by (auto simp: in_set_conv_nth)
  with assms show ?thesis by (auto simp: sched_wf_def q_inv_def)
qed

lemma wfI:
  "q_inv s \<Longrightarrow> dom (items s) = set (queue s) \<Longrightarrow> heap_order (map fst (elems s)) (length (queue s)) \<Longrightarrow> sched_wf s"
  by (simp add: sched_wf_def)

section \<open>Scheduling\<close>

lemma schedule_existing:
  assumes wf: "sched_wf s" and it: "items s key = Some it"
  shows "sched_wf (scheduleLocked key due s) \<and> frame (scheduleLocked key due s) =
    ((timetable s)(key \<mapsto> due), failures s, batchOrigin s, jitterSeed s, wake s)"
proof -
  from wf_index [OF wf it] obtain i where i: "it_index it = int i" "i < length (queue s)" "queue s ! i = key"
    by blast
  let ?t = "s\<lparr>items := (items s)(key \<mapsto> it\<lparr>it_due := due\<rparr>)\<rparr>"
  have inv: "q_inv ?t" using wf it by (auto simp: sched_wf_def q_inv_def)
  have tt: "timetable ?t = (timetable s)(key \<mapsto> due)" by (auto simp: timetable_def)
  have "map fst (elems ?t) ! k = map fst (elems s) ! k" if "k < length (queue s)" "k \<noteq> i" for k
  proof -
    have "queue s ! k \<noteq> key" using wf that i by (auto simp: sched_wf_def q_inv_def nth_eq_iff_index_eq)
    with that show ?thesis by (simp add: elems_def item_due_timetable tt)
  qed
  then have b: "broken_at (map fst (elems ?t)) (length (queue ?t)) i"
    using wf by (intro heap_order_broken_at [of "map fst (elems s)"]) (auto simp: sched_wf_def)
  let ?r = "heap_sift q_Less q_Swap ?t i (length (queue ?t))"
  have r: "scheduleLocked key due s = ?r"
    using it i by (simp add: scheduleLocked_def heap_Fix_def)
  note ok = pq.sift_ok [OF inv _ b]
  have k: "pq.kept (length (queue ?t)) ?t ?r" "heap_order (map fst (elems ?r)) (length (queue ?t))"
    using ok i by simp_all
  have fr: "frame ?r = frame ?t" by simp
  have "dom (items ?r) = set (queue ?r)"
    using frame_dom [OF fr] kept_set [OF k(1)] wf it by (auto simp: sched_wf_def)
  then have "sched_wf ?r"
    using k kept_queue_length [OF k(1)] by (intro wfI) (auto simp: pq.kept_def)
  with r fr show ?thesis by (simp add: frame_def tt)
qed

lemma schedule_new:
  assumes wf: "sched_wf s" and it: "items s key = None"
  shows "sched_wf (scheduleLocked key due s) \<and> frame (scheduleLocked key due s) =
    ((timetable s)(key \<mapsto> due), failures s, batchOrigin s, jitterSeed s, wake s)"
proof -
  let ?s1 = "s\<lparr>items := (items s)(key \<mapsto> \<lparr>it_due = due, it_index = 0\<rparr>)\<rparr>"
  let ?t = "q_Push key ?s1"
  let ?n = "length (queue s)"
  have nk: "key \<notin> set (queue s)" using wf it by (auto simp: sched_wf_def)
  have q: "queue ?t = queue s @ [key]" by (simp add: q_Push_def)
  have tt: "timetable ?t = (timetable s)(key \<mapsto> due)"
    by (simp add: q_Push_def) (auto simp: timetable_def)
  have inv: "q_inv ?t"
    using wf nk by (auto simp: q_inv_def sched_wf_def q nth_append q_Push_def index_after_set less_Suc_eq
        dest!: nth_mem)
  have "map fst (elems ?t) ! k = map fst (elems s) ! k" if "k < ?n" for k
    using that nk by (auto simp: elems_def q item_due_timetable tt nth_append dest: nth_mem)
  then have b: "broken_above (map fst (elems ?t)) (Suc ?n) ?n"
    using wf by (intro heap_order_broken_above [of "map fst (elems s)"]) (auto simp: sched_wf_def)
  let ?r = "heap_up q_Less q_Swap ?t ?n"
  have r: "scheduleLocked key due s = ?r"
    using it q by (simp add: scheduleLocked_def heap_Push_def Let_def)
  have k: "pq.kept (Suc ?n) ?t ?r" "heap_order (map fst (elems ?r)) (Suc ?n)"
    using pq.up_ok [OF inv _ _ b] q by simp_all
  have fr: "frame ?r = frame ?t" by simp
  have "dom (items ?t) = insert key (dom (items s))"
    by (auto simp: q_Push_def index_after_set split: if_splits)
  then have "dom (items ?r) = set (queue ?r)"
    using frame_dom [OF fr] kept_set [OF k(1)] wf q by (auto simp: sched_wf_def)
  then have "sched_wf ?r"
    using k kept_queue_length [OF k(1)] q by (intro wfI) (auto simp: pq.kept_def)
  moreover have "frame ?t = ((timetable s)(key \<mapsto> due), failures s, batchOrigin s, jitterSeed s, wake s)"
    by (simp add: frame_def tt) (simp add: q_Push_def)
  ultimately show ?thesis using r fr by simp
qed

lemma scheduleLocked_ok:
  assumes "sched_wf s"
  shows "sched_wf (scheduleLocked key due s)"
    "frame (scheduleLocked key due s) = ((timetable s)(key \<mapsto> due), failures s, batchOrigin s, jitterSeed s, wake s)"
  using schedule_existing [OF assms, of key] schedule_new [OF assms, of key] by (cases "items s key"; blast)+


section \<open>Removing\<close>

definition forget :: "string \<Rightarrow> prefetchScheduler \<Rightarrow> prefetchScheduler" where
  "forget key s = s\<lparr>items := (items s)(key := None)\<rparr>"

text \<open>The last step of every removal: the item at the end of the queue leaves queue and map.\<close>

lemma pop_last:
  assumes inv: "q_inv t" and d: "dom (items t) = set (queue t)" and ne: "queue t \<noteq> []"
    and h: "heap_order (map fst (elems t)) (length (queue t) - 1)"
  shows "sched_wf (forget (last (queue t)) (snd (q_Pop t)))"
    and "frame (forget (last (queue t)) (snd (q_Pop t))) =
      ((timetable t)(last (queue t) := None), failures t, batchOrigin t, jitterSeed t, wake t)"
    and "fst (q_Pop t) = last (queue t)"
proof -
  let ?k = "last (queue t)" and ?p = "snd (q_Pop t)"
  let ?r = "forget ?k ?p"
  have fr: "frame ?p = frame t" by (simp add: q_Pop_simps)
  have tt: "timetable ?r = (timetable t)(?k := None)"
    using fr by (auto simp: forget_def frame_def timetable_def fun_eq_iff)
  have q: "queue ?r = butlast (queue t)" by (simp add: forget_def q_Pop_simps)
  have split: "queue t = butlast (queue t) @ [?k]" using ne by simp
  then have nk: "?k \<notin> set (butlast (queue t))" "set (queue t) = insert ?k (set (butlast (queue t)))"
    using inv by (metis distinct_append disjoint_insert(1) list.simps(15) q_inv_def,
        metis Un_insert_right list.simps(15) set_append sup_bot.right_neutral empty_set)
  have "queue ?r ! i \<noteq> ?k" if "i < length (queue ?r)" for i
    using that nk(1) q nth_mem [of i "queue ?r"] by metis
  then have inv': "q_inv ?r"
    using q_inv_Pop [OF inv ne] by (auto simp: q_inv_def forget_def)
  have dm: "dom (items ?r) = set (queue ?r)"
    using d nk tt unfolding dom_timetable q by auto
  have same: "map fst (elems ?r) ! i = map fst (elems t) ! i" if "i < length (queue ?r)" for i
  proof -
    have e: "queue ?r ! i = queue t ! i" "i < length (queue t)" using that by (auto simp: q nth_butlast)
    moreover have "queue t ! i \<noteq> ?k" using that nk(1) q e(1) nth_mem [of i "queue ?r"] by metis
    ultimately have "item_due ?r (queue ?r ! i) = item_due t (queue t ! i)"
      by (simp add: item_due_timetable tt)
    then show ?thesis unfolding nth_dues [OF that] nth_dues [OF e(2)] .
  qed
  have lr: "length (queue ?r) = length (queue t) - 1" by (simp add: q)
  have "heap_order (map fst (elems ?r)) (length (queue ?r))"
    by (rule heap_order_cong [OF h [folded lr] same])
  with inv' dm show "sched_wf ?r" by (rule wfI)
  show "frame ?r = ((timetable t)(?k := None), failures t, batchOrigin t, jitterSeed t, wake t)"
    using fr tt by (simp add: frame_def) (simp add: forget_def)
  show "fst (q_Pop t) = ?k" by (simp add: q_Pop_simps)
qed

text \<open>Bringing the item at position \<open>i\<close> to the end and restoring the order before it.\<close>

lemma swap_to_end:
  assumes wf: "sched_wf s" and i: "i < length (queue s)"
  defines "n \<equiv> length (queue s) - 1"
  shows "q_inv (q_Swap i n s)" "broken_at (map fst (elems (q_Swap i n s))) n i"
    "drop n (queue (q_Swap i n s)) = [queue s ! i]" "length (queue (q_Swap i n s)) = Suc n"
    "set (queue (q_Swap i n s)) = set (queue s)"
proof -
  have l: "length (queue s) = Suc n" "n < length (queue s)" using i by (auto simp: n_def)
  have inv: "q_inv s" using wf by (simp add: sched_wf_def)
  have e: "elems (q_Swap i n s) = exchange i n (elems s)" using pq.sw_elems [OF inv] i l by simp
  show "q_inv (q_Swap i n s)" using q_inv_Swap [OF inv i l(2)] .
  show len: "length (queue (q_Swap i n s)) = Suc n" using l by (simp add: q_Swap_simps)
  have "map fst (elems (q_Swap i n s)) ! k = map fst (elems s) ! k" if "k < n" "k \<noteq> i" for k
    using that i l by (simp add: e nth_exchange)
  moreover have "heap_order (map fst (elems s)) n" using wf l by (auto simp: sched_wf_def heap_order_def)
  ultimately show "broken_at (map fst (elems (q_Swap i n s))) n i"
    by (intro heap_order_broken_at [of "map fst (elems s)"]) auto
  have "queue (q_Swap i n s) ! n = queue s ! i" using i l by (simp add: q_Swap_simps nth_exchange)
  then show "drop n (queue (q_Swap i n s)) = [queue s ! i]"
    using len by (metis Cons_nth_drop_Suc drop_all lessI order_refl)
  show "set (queue (q_Swap i n s)) = set (queue s)"
    using mset_exchange [OF i l(2)] by (metis q_Swap_simps(1) set_mset_mset)
qed

definition sifted :: "prefetchScheduler \<Rightarrow> nat \<Rightarrow> prefetchScheduler \<Rightarrow> bool" where
  "sifted s i t \<longleftrightarrow> q_inv t \<and> dom (items t) = set (queue t) \<and> queue t \<noteq> [] \<and> last (queue t) = queue s ! i
     \<and> heap_order (map fst (elems t)) (length (queue t) - 1) \<and> frame t = frame s"

lemma siftedI:
  assumes wf: "sched_wf s" and i: "i < length (queue s)" and fr: "frame t = frame s"
  defines "n \<equiv> length (queue s) - 1"
  assumes k: "pq.kept n (q_Swap i n s) t" and h: "heap_order (map fst (elems t)) n"
  shows "sifted s i t"
proof -
  note st = swap_to_end [OF wf i, folded n_def]
  have len: "length (queue t) = Suc n" using kept_queue_length [OF k] st(4) by simp
  then have ne: "queue t \<noteq> []" by auto
  have "drop n (queue t) = [queue s ! i]" using kept_queue_drop [OF k] st(3) by simp
  then have "last (queue t) = queue s ! i" by (metis last_ConsL last_drop len lessI)
  moreover have "dom (items t) = set (queue t)"
    using frame_dom [OF fr] kept_set [OF k] st(5) wf by (simp add: sched_wf_def)
  moreover have "length (queue t) - 1 = n" using len by simp
  ultimately show ?thesis using k h fr ne by (simp only: sifted_def pq.kept_def simp_thms)
qed

lemma sifted_Remove:
  assumes wf: "sched_wf s" and i: "i < length (queue s)"
  defines "n \<equiv> length (queue s) - 1"
  shows "sifted s i (if n \<noteq> i then heap_sift q_Less q_Swap (q_Swap i n s) i n else s)"
proof (cases "n = i")
  case True
  have ne: "queue s \<noteq> []" using i by auto
  then have "last (queue s) = queue s ! i" using last_conv_nth [OF ne] True by (simp add: n_def)
  with ne wf True show ?thesis by (auto simp: sifted_def sched_wf_def heap_order_def)
next
  case False
  note st = swap_to_end [OF wf i, folded n_def]
  from pq.sift_ok [OF st(1) _ st(2)] False i st(4)
  have "pq.kept n (q_Swap i n s) (heap_sift q_Less q_Swap (q_Swap i n s) i n)"
    "heap_order (map fst (elems (heap_sift q_Less q_Swap (q_Swap i n s) i n))) n" by (auto simp: n_def)
  with False show ?thesis by (auto intro!: siftedI [OF wf i] simp: n_def)
qed

lemma sifted_Pop:
  assumes wf: "sched_wf s" and i: "queue s \<noteq> []"
  defines "n \<equiv> length (queue s) - 1"
  shows "sifted s 0 (fst (heap_down q_Less q_Swap (q_Swap 0 n s) 0 n))"
proof -
  have l: "0 < length (queue s)" using i by simp
  note st = swap_to_end [OF wf l, folded n_def]
  obtain t j where d: "heap_down q_Less q_Swap (q_Swap 0 n s) 0 n = (t, j)" by fastforce
  have "pq.kept n (q_Swap 0 n s) t \<and> heap_order (map fst (elems t)) n"
  proof (cases "n = 0")
    case True
    with d have "t = q_Swap 0 n s" by (simp add: heap_down.simps)
    with st(1) True show ?thesis by (simp add: pq.kept_refl heap_order_def)
  next
    case False
    then show ?thesis using pq.down_ok [OF st(1) _ st(2) _ d] st(4) broken_at_root [OF st(2)] by simp
  qed
  moreover have "frame t = frame s" using frame_ops(2) [of "q_Swap 0 n s" 0 n] d by simp
  ultimately show ?thesis using d siftedI [OF wf l, of t] by (simp add: n_def)
qed

lemma dropItem_ok:
  assumes "sched_wf s"
  shows "sched_wf (dropItem key s)"
    "frame (dropItem key s) = ((timetable s)(key := None), failures s, batchOrigin s, jitterSeed s, wake s)"
proof -
  have "sched_wf (dropItem key s) \<and> frame (dropItem key s) =
      ((timetable s)(key := None), failures s, batchOrigin s, jitterSeed s, wake s)"
  proof (cases "items s key")
    case None
    then have "(timetable s)(key := None) = timetable s" by (auto simp: timetable_def fun_eq_iff)
    with None assms show ?thesis by (simp add: dropItem_def frame_def)
  next
    case (Some it)
    from wf_index [OF assms Some] obtain i
      where i: "it_index it = int i" "i < length (queue s)" "queue s ! i = key" by blast
    let ?n = "length (queue s) - 1"
    let ?t = "if ?n \<noteq> i then heap_sift q_Less q_Swap (q_Swap i ?n s) i ?n else s"
    have st: "sifted s i ?t" by (rule sifted_Remove [OF assms i(2)])
    have "dropItem key s = forget (last (queue ?t)) (snd (q_Pop ?t))"
      using Some i st by (simp add: dropItem_def heap_Remove_def forget_def Let_def sifted_def)
    with pop_last [of ?t] st i(3) show ?thesis by (simp add: sifted_def frame_def)
  qed
  then show "sched_wf (dropItem key s)"
    "frame (dropItem key s) = ((timetable s)(key := None), failures s, batchOrigin s, jitterSeed s, wake s)"
    by simp_all
qed


section \<open>Popping\<close>

lemma length_heap_Pop: "queue s \<noteq> [] \<Longrightarrow> length (queue (snd (heap_Pop s))) < length (queue s)"
proof -
  assume ne: "queue s \<noteq> []"
  let ?n = "length (queue s) - 1"
  have "length (queue (fst (heap_down q_Less q_Swap (q_Swap 0 ?n s) 0 ?n))) = length (queue s)"
    by (rule heap_down_frame) (simp_all add: q_Swap_simps)
  with ne show ?thesis by (simp add: heap_Pop_def Let_def q_Pop_simps)
qed

function popDue :: "time \<Rightarrow> prefetchScheduler \<Rightarrow> string list \<times> prefetchScheduler" where
  "popDue now s =
     (if length (queue s) \<noteq> 0 \<and> \<not> time_After (item_due s (queue s ! 0)) now then
        let item = heap_Pop s; rest = popDue now (forget (fst item) (snd item))
        in (fst item # fst rest, snd rest)
      else ([], s))"
  by pat_completeness auto
termination
  by (relation "measure (\<lambda>(_, s). length (queue s))") (use length_heap_Pop in \<open>auto simp: forget_def\<close>)

declare popDue.simps [simp del]

lemma heap_Pop_ok:
  assumes "sched_wf s" "queue s \<noteq> []"
  defines "key \<equiv> fst (heap_Pop s)" and "t \<equiv> forget (fst (heap_Pop s)) (snd (heap_Pop s))"
  shows "key = queue s ! 0" "sched_wf t"
    "frame t = ((timetable s)(queue s ! 0 := None), failures s, batchOrigin s, jitterSeed s, wake s)"
proof -
  let ?n = "length (queue s) - 1"
  let ?u = "fst (heap_down q_Less q_Swap (q_Swap 0 ?n s) 0 ?n)"
  have st: "sifted s 0 ?u" by (rule sifted_Pop [OF assms(1,2)])
  have p: "heap_Pop s = q_Pop ?u" by (simp add: heap_Pop_def Let_def)
  note pl = pop_last [of ?u]
  show k: "key = queue s ! 0" using p pl(3) st by (simp add: key_def sifted_def)
  have t: "t = forget (last (queue ?u)) (snd (q_Pop ?u))"
    using p pl(3) st by (simp add: t_def sifted_def)
  show "sched_wf t" "frame t = ((timetable s)(queue s ! 0 := None), failures s, batchOrigin s, jitterSeed s, wake s)"
    unfolding t using pl(1,2) st by (simp_all add: sifted_def frame_def)
qed

lemma root_is_earliest:
  assumes "sched_wf s" "k \<in> set (queue s)"
  shows "item_due s (queue s ! 0) \<le> item_due s k"
proof -
  from assms(2) obtain i where i: "i < length (queue s)" "queue s ! i = k" by (auto simp: in_set_conv_nth)
  from assms(1) have "heap_order (map fst (elems s)) (length (queue s))" by (simp add: sched_wf_def)
  from heap_order_root [OF this i(1)] show ?thesis
    using i nth_dues [of 0 s] nth_dues [OF i(1)] by (cases "queue s") auto
qed

lemma queue_timetable: "sched_wf s \<Longrightarrow> k \<in> set (queue s) \<longleftrightarrow> timetable s k \<noteq> None"
  by (auto simp: sched_wf_def timetable_def dom_def)

lemma nothing_due:
  assumes "sched_wf s" "\<not> (queue s \<noteq> [] \<and> \<not> time_After (item_due s (queue s ! 0)) now)"
  shows "popDue now s = ([], s)" "{k. \<exists>d. timetable s k = Some d \<and> d \<le> now} = {}"
proof -
  show "popDue now s = ([], s)" using assms(2) by (subst popDue.simps) auto
  have "False" if "timetable s k = Some d" "d \<le> now" for k d
  proof -
    have k: "k \<in> set (queue s)" using queue_timetable [OF assms(1)] that(1) by simp
    with root_is_earliest [OF assms(1) k] that assms(2) show False
      by (auto simp: item_due_timetable [of s k] time_After_def)
  qed
  then show "{k. \<exists>d. timetable s k = Some d \<and> d \<le> now} = {}" by blast
qed

lemma root_due:
  assumes "sched_wf s" "queue s \<noteq> [] \<and> \<not> time_After (item_due s (queue s ! 0)) now"
  defines "t \<equiv> forget (fst (heap_Pop s)) (snd (heap_Pop s))"
  shows "popDue now s = (queue s ! 0 # fst (popDue now t), snd (popDue now t))" "sched_wf t"
    "timetable t = (timetable s)(queue s ! 0 := None)"
    "frame t = (timetable t, failures s, batchOrigin s, jitterSeed s, wake s)"
    "\<exists>d. timetable s (queue s ! 0) = Some d \<and> d \<le> now"
proof -
  have ne: "queue s \<noteq> []" using assms(2) by simp
  note hp = heap_Pop_ok [OF assms(1) ne, folded t_def]
  show "popDue now s = (queue s ! 0 # fst (popDue now t), snd (popDue now t))"
    using assms(2) hp(1) by (subst popDue.simps) (simp add: Let_def t_def)
  show "sched_wf t" "timetable t = (timetable s)(queue s ! 0 := None)"
    "frame t = (timetable t, failures s, batchOrigin s, jitterSeed s, wake s)"
    using hp(2,3) by (simp_all add: frame_def)
  have "queue s ! 0 \<in> set (queue s)" using ne by simp
  then obtain d where "timetable s (queue s ! 0) = Some d" using queue_timetable [OF assms(1)] by auto
  with assms(2) show "\<exists>d. timetable s (queue s ! 0) = Some d \<and> d \<le> now" by (simp add: item_due_timetable time_After_def)
qed

lemma popDue_ok:
  "sched_wf s \<Longrightarrow>
   sched_wf (snd (popDue now s)) \<and> distinct (fst (popDue now s))
   \<and> set (fst (popDue now s)) = {k. \<exists>d. timetable s k = Some d \<and> d \<le> now}
   \<and> sorted (map (item_due s) (fst (popDue now s)))
   \<and> frame (snd (popDue now s)) =
       (timetable s |` (- set (fst (popDue now s))), failures s, batchOrigin s, jitterSeed s, wake s)"
proof (induction now s rule: popDue.induct)
  case (1 now s)
  note wf = "1.prems"
  show ?case
  proof (cases "queue s \<noteq> [] \<and> \<not> time_After (item_due s (queue s ! 0)) now")
    case False
    then show ?thesis using wf unfolding nothing_due [OF wf False] by (simp add: frame_def)
  next
    case True
    let ?k = "queue s ! 0" and ?t = "forget (fst (heap_Pop s)) (snd (heap_Pop s))"
    note r = root_due [OF wf True]
    have ih: "sched_wf (snd (popDue now ?t))" "distinct (fst (popDue now ?t))"
      "set (fst (popDue now ?t)) = {k. \<exists>d. timetable ?t k = Some d \<and> d \<le> now}"
      "sorted (map (item_due ?t) (fst (popDue now ?t)))"
      "frame (snd (popDue now ?t)) = (timetable ?t |` (- set (fst (popDue now ?t))), failures ?t, batchOrigin ?t, jitterSeed ?t, wake ?t)"
      using "1.IH" [OF _ refl] True r(2) by auto
    have S: "set (fst (popDue now ?t)) = {k. \<exists>d. timetable s k = Some d \<and> d \<le> now} - {?k}"
      using ih(3) by (auto simp: r(3) split: if_splits)
    have due: "map (item_due ?t) (fst (popDue now ?t)) = map (item_due s) (fst (popDue now ?t))"
      using S by (intro map_cong refl) (auto simp: item_due_timetable r(3))
    have "item_due s ?k \<le> item_due s x" if "x \<in> set (fst (popDue now ?t))" for x
      using that S queue_timetable [OF wf, of x] root_is_earliest [OF wf] by auto
    then have srt: "sorted (map (item_due s) (?k # fst (popDue now ?t)))" using ih(4) due by simp
    have "set (?k # fst (popDue now ?t)) = {k. \<exists>d. timetable s k = Some d \<and> d \<le> now}" using S r(5) by auto
    moreover have "timetable ?t |` (- set (fst (popDue now ?t))) = timetable s |` (- set (?k # fst (popDue now ?t)))"
      by (auto simp: r(3) restrict_map_def fun_eq_iff)
    ultimately show ?thesis
      unfolding r(1) fst_conv snd_conv using ih(1,2,5) S srt r(4) by (simp add: frame_def)
  qed
qed


section \<open>Batches\<close>

unbundle bit_operations_syntax

text \<open>Go's 64-bit signed products and quotients: products wrap around, quotients round toward zero.\<close>

definition wrap_i64 :: "int \<Rightarrow> int" where
  "wrap_i64 x = (x + 2 ^ 63) mod 2 ^ 64 - 2 ^ 63"

definition go_quot :: "int \<Rightarrow> int \<Rightarrow> int" where
  "go_quot a b = (if a < 0 then - ((- a) div b) else a div b)"

definition prefetchBatchJitter :: "u64 \<Rightarrow> u64 \<Rightarrow> duration" where
  "prefetchBatchJitter seed index =
     (let v0 = seed + index * 0x9e3779b97f4a7c15;
          v1 = (v0 XOR drop_bit 30 v0) * 0xbf58476d1ce4e5b9;
          v2 = (v1 XOR drop_bit 27 v1) * 0x94d049bb133111eb;
          v3 = v2 XOR drop_bit 31 v2;
          jitterSteps = word_of_int (PREFETCH_BATCH_JITTER_MAX div nanos_per_milli) + 1
      in uint (v3 mod jitterSteps) * nanos_per_milli)"

definition batchTime :: "prefetchScheduler \<Rightarrow> int \<Rightarrow> time" where
  "batchTime s index =
     time_Add (time_Add (batchOrigin s) (wrap_i64 (index * PREFETCH_SLOT_INTERVAL)))
       (prefetchBatchJitter (jitterSeed s) (word_of_int index))"

definition batchAtOrAfter :: "prefetchScheduler \<Rightarrow> time \<Rightarrow> time" where
  "batchAtOrAfter s t =
     (let first = batchTime s 0 in
      if \<not> time_After t first then first
      else let index0 = go_quot (time_Sub t (batchOrigin s)) PREFETCH_SLOT_INTERVAL;
               index = (if index0 < 0 then 0 else index0);
               due = batchTime s index
           in if time_Before due t then batchTime s (index + 1) else due)"

definition batchAtOrBefore :: "prefetchScheduler \<Rightarrow> time \<Rightarrow> time option" where
  "batchAtOrBefore s t =
     (let first = batchTime s 0 in
      if time_Before t first then None
      else let index = go_quot (time_Sub t (batchOrigin s)) PREFETCH_SLOT_INTERVAL;
               due = batchTime s index
           in if time_After due t then
                (if index - 1 < 0 then None else Some (batchTime s (index - 1)))
              else Some due)"

lemmas slot_consts = PREFETCH_SLOT_INTERVAL_def PREFETCH_BATCH_JITTER_MAX_def PREFETCH_RETRY_MAX_AGE_def
  PREFETCH_RETRY_MAX_INTERVAL_def nanos_per_second_def nanos_per_milli_def

lemma prefetchBatchJitter_bounds:
  "0 \<le> prefetchBatchJitter seed index" "prefetchBatchJitter seed index \<le> PREFETCH_BATCH_JITTER_MAX"
proof -
  have "uint (v mod 251 :: u64) < 251" for v by (simp add: uint_mod)
  moreover have "word_of_int (PREFETCH_BATCH_JITTER_MAX div nanos_per_milli) + 1 = (251 :: u64)"
    by (simp add: slot_consts)
  ultimately show "0 \<le> prefetchBatchJitter seed index" "prefetchBatchJitter seed index \<le> PREFETCH_BATCH_JITTER_MAX"
    unfolding prefetchBatchJitter_def Let_def by (simp_all add: slot_consts) (smt (verit))
qed

lemma wrap_i64_id: "- (2 ^ 63) \<le> x \<Longrightarrow> x < 2 ^ 63 \<Longrightarrow> wrap_i64 x = x"
  by (simp add: wrap_i64_def)

text \<open>Times within 292 years after the scheduler was started.\<close>

definition sched_horizon :: duration where
  "sched_horizon = 2 ^ 63 - 2 * PREFETCH_SLOT_INTERVAL"

lemma batchTime_bounds:
  assumes "0 \<le> index" "index * PREFETCH_SLOT_INTERVAL < 2 ^ 63"
  shows "batchOrigin s + index * PREFETCH_SLOT_INTERVAL \<le> batchTime s index"
    "batchTime s index \<le> batchOrigin s + index * PREFETCH_SLOT_INTERVAL + PREFETCH_BATCH_JITTER_MAX"
  using assms prefetchBatchJitter_bounds [of "jitterSeed s" "word_of_int index"]
  by (simp_all add: batchTime_def time_Add_def wrap_i64_id slot_consts)

lemma slot_index:
  assumes "batchOrigin s \<le> t" "t < batchOrigin s + sched_horizon"
  defines "index \<equiv> go_quot (time_Sub t (batchOrigin s)) PREFETCH_SLOT_INTERVAL"
  shows "0 \<le> index" "(index + 1) * PREFETCH_SLOT_INTERVAL < 2 ^ 63"
    "batchOrigin s + index * PREFETCH_SLOT_INTERVAL \<le> t" "t < batchOrigin s + (index + 1) * PREFETCH_SLOT_INTERVAL"
proof -
  have d: "time_Sub t (batchOrigin s) = t - batchOrigin s"
    using assms by (intro time_Sub_exact) (simp_all add: sched_horizon_def slot_consts)
  have i: "index = (t - batchOrigin s) div PREFETCH_SLOT_INTERVAL"
    using assms by (simp add: index_def go_quot_def d)
  show "0 \<le> index" using assms(1) unfolding i by (simp add: slot_consts pos_imp_zdiv_nonneg_iff)
  show lo: "batchOrigin s + index * PREFETCH_SLOT_INTERVAL \<le> t"
    unfolding i slot_consts by (simp add: mult.commute)
  show "t < batchOrigin s + (index + 1) * PREFETCH_SLOT_INTERVAL"
    unfolding i slot_consts by (simp add: mult.commute)
  show "(index + 1) * PREFETCH_SLOT_INTERVAL < 2 ^ 63"
    using lo assms(2) by (simp add: sched_horizon_def slot_consts)
qed

lemma batchAtOrAfter_bounds:
  assumes "t < batchOrigin s + sched_horizon"
  shows "t \<le> batchAtOrAfter s t"
    "batchAtOrAfter s t \<le> max t (batchOrigin s) + PREFETCH_SLOT_INTERVAL + PREFETCH_BATCH_JITTER_MAX"
proof -
  have f: "batchOrigin s \<le> batchTime s 0" "batchTime s 0 \<le> batchOrigin s + PREFETCH_BATCH_JITTER_MAX"
    using batchTime_bounds [of 0 s] by simp_all
  have "t \<le> batchAtOrAfter s t \<and>
    batchAtOrAfter s t \<le> max t (batchOrigin s) + PREFETCH_SLOT_INTERVAL + PREFETCH_BATCH_JITTER_MAX"
  proof (cases "time_After t (batchTime s 0)")
    case False
    then show ?thesis using f by (simp add: batchAtOrAfter_def time_After_def slot_consts)
  next
    case True
    then have o: "batchOrigin s \<le> t" using f by (simp add: time_After_def)
    define index where "index = go_quot (time_Sub t (batchOrigin s)) PREFETCH_SLOT_INTERVAL"
    note si = slot_index [OF o assms, folded index_def]
    have b: "batchAtOrAfter s t = (if batchTime s index < t then batchTime s (index + 1) else batchTime s index)"
      using True si(1) by (simp add: batchAtOrAfter_def index_def [symmetric] Let_def time_Before_def)
    have le: "index * PREFETCH_SLOT_INTERVAL < 2 ^ 63" using si(2) by (simp add: slot_consts)
    note b0 = batchTime_bounds [OF si(1) le, of s]
    have "0 \<le> index + 1" using si(1) by simp
    note b1 = batchTime_bounds [OF this si(2), of s]
    show ?thesis unfolding b using b0 b1 si(3,4) o by (auto simp: max_def algebra_simps slot_consts)
  qed
  then show "t \<le> batchAtOrAfter s t"
    "batchAtOrAfter s t \<le> max t (batchOrigin s) + PREFETCH_SLOT_INTERVAL + PREFETCH_BATCH_JITTER_MAX" by simp_all
qed

lemma batchAtOrBefore_bounds:
  assumes "t < batchOrigin s + sched_horizon" "batchAtOrBefore s t = Some r"
  shows "r \<le> t" "t - PREFETCH_SLOT_INTERVAL - PREFETCH_BATCH_JITTER_MAX \<le> r"
proof -
  have f: "batchOrigin s \<le> batchTime s 0" using batchTime_bounds(1) [of 0 s] by simp
  with assms(2) have o: "batchOrigin s \<le> t"
    by (auto simp: batchAtOrBefore_def time_Before_def Let_def split: if_splits)
  define index where "index = go_quot (time_Sub t (batchOrigin s)) PREFETCH_SLOT_INTERVAL"
  note si = slot_index [OF o assms(1), folded index_def]
  have le: "index * PREFETCH_SLOT_INTERVAL < 2 ^ 63" using si(2) by (simp add: slot_consts)
  note b0 = batchTime_bounds [OF si(1) le, of s]
  show "r \<le> t" "t - PREFETCH_SLOT_INTERVAL - PREFETCH_BATCH_JITTER_MAX \<le> r"
  proof (atomize (full), cases "t < batchTime s index")
    case True
    with assms(2) have r: "0 \<le> index - 1" "r = batchTime s (index - 1)"
      by (auto simp: batchAtOrBefore_def index_def [symmetric] Let_def time_After_def split: if_splits)
    have "(index - 1) * PREFETCH_SLOT_INTERVAL < 2 ^ 63" using le by (simp add: slot_consts)
    note b1 = batchTime_bounds [OF r(1) this, of s]
    show "r \<le> t \<and> t - PREFETCH_SLOT_INTERVAL - PREFETCH_BATCH_JITTER_MAX \<le> r"
      using b0 b1 si(3,4) True r(2) by (simp add: algebra_simps slot_consts)
  next
    case False
    with assms(2) have "r = batchTime s index"
      by (auto simp: batchAtOrBefore_def index_def [symmetric] Let_def time_After_def split: if_splits)
    then show "r \<le> t \<and> t - PREFETCH_SLOT_INTERVAL - PREFETCH_BATCH_JITTER_MAX \<le> r"
      using b0 si(3,4) False by (simp add: algebra_simps slot_consts)
  qed
qed


section \<open>Retries\<close>

function retry_delay_loop :: "nat \<Rightarrow> nat \<Rightarrow> duration \<Rightarrow> duration" where
  "retry_delay_loop attempts i delay =
     (if i < attempts \<and> delay < PREFETCH_RETRY_MAX_INTERVAL then
        (let delay' = delay * 2 in
         if delay' > PREFETCH_RETRY_MAX_INTERVAL then PREFETCH_RETRY_MAX_INTERVAL
         else retry_delay_loop attempts (i + 1) delay')
      else delay)"
  by pat_completeness auto
termination
  by (relation "measure (\<lambda>(attempts, i, _). attempts - i)") auto

declare retry_delay_loop.simps [simp del]

definition prefetchRetryDelay :: "u32 \<Rightarrow> duration" where
  "prefetchRetryDelay attempts = retry_delay_loop (unat attempts) 1 (secs PREFETCH_INTERVAL)"

text \<open>\<^verbatim>\<open>scheduleRetryUntil\<close>: the due time, the number of attempts, the delay and whether a retry was
  scheduled, and the scheduler afterwards.\<close>

definition scheduleRetryUntil ::
    "string \<Rightarrow> time \<Rightarrow> time \<Rightarrow> prefetchScheduler \<Rightarrow> (time \<times> u32 \<times> duration \<times> bool) \<times> prefetchScheduler" where
  "scheduleRetryUntil key now graceDeadline s =
     (let failure = (case failures s key of
                       Some f \<Rightarrow> f | None \<Rightarrow> \<lparr>pf_firstFailed = now, pf_attempts = 0\<rparr>);
          deadline0 = time_Add (pf_firstFailed failure) PREFETCH_RETRY_MAX_AGE;
          retryDeadline = (if time_After graceDeadline deadline0 then graceDeadline else deadline0) in
      if \<not> time_Before now retryDeadline then
        ((0, pf_attempts failure, 0, False), dropFailures key (dropItem key s))
      else
        let attempts = pf_attempts failure + 1;
            delay0 = prefetchRetryDelay attempts;
            delay1 = (if time_After (time_Add now delay0) retryDeadline then time_Sub retryDeadline now else delay0);
            due0 = batchAtOrAfter s (time_Add now delay1);
            due = (if time_After due0 retryDeadline then retryDeadline else due0);
            s1 = s\<lparr>failures := (failures s)(key \<mapsto> failure\<lparr>pf_attempts := attempts\<rparr>)\<rparr>
        in ((due, attempts, time_Sub due now, True), scheduleLocked key due s1))"

definition scheduleRetry ::
    "string \<Rightarrow> time \<Rightarrow> prefetchScheduler \<Rightarrow> (time \<times> u32 \<times> duration \<times> bool) \<times> prefetchScheduler" where
  "scheduleRetry key now s = scheduleRetryUntil key now 0 s"

lemma retry_delay_loop_bounds:
  "0 < delay \<Longrightarrow> delay \<le> PREFETCH_RETRY_MAX_INTERVAL \<Longrightarrow>
   delay \<le> retry_delay_loop attempts i delay \<and> retry_delay_loop attempts i delay \<le> PREFETCH_RETRY_MAX_INTERVAL"
proof (induction attempts i delay rule: retry_delay_loop.induct)
  case (1 attempts i delay)
  then show ?case by (subst (1 2) retry_delay_loop.simps) (auto simp: Let_def)
qed

lemma prefetchRetryDelay_bounds:
  "30 * nanos_per_second \<le> prefetchRetryDelay attempts" "prefetchRetryDelay attempts \<le> 300 * nanos_per_second"
  using retry_delay_loop_bounds [of "secs PREFETCH_INTERVAL" "unat attempts" 1]
  by (simp_all add: prefetchRetryDelay_def secs_def PREFETCH_INTERVAL_def slot_consts)

lemma wf_failures [simp]: "sched_wf (s\<lparr>failures := f\<rparr>) = sched_wf s"
  by (simp add: sched_wf_def q_inv_def elems_def item_due_def)

lemma timetable_failures [simp]: "timetable (s\<lparr>failures := f\<rparr>) = timetable s"
  by (simp add: timetable_def fun_eq_iff)

lemma wf_wake [simp]: "sched_wf (s\<lparr>wake := w\<rparr>) = sched_wf s" "timetable (s\<lparr>wake := w\<rparr>) = timetable s"
  by (simp_all add: sched_wf_def q_inv_def elems_def item_due_def timetable_def fun_eq_iff)

lemma dropFailures_simps [simp]:
  "sched_wf (dropFailures key s) = sched_wf s" "timetable (dropFailures key s) = timetable s"
  "failures (dropFailures key s) = (failures s)(key := None)" "batchOrigin (dropFailures key s) = batchOrigin s"
  by (simp_all add: dropFailures_def)

section \<open>The timetable interface\<close>

text \<open>What the prefetch logic relies on: a finite timetable with insertion, deletion, and extraction
  of what is due.\<close>

locale timetable_ops =
  fixes tab :: "'s \<Rightarrow> string \<rightharpoonup> time"
    and ok :: "'s \<Rightarrow> bool"
    and put :: "string \<Rightarrow> time \<Rightarrow> 's \<Rightarrow> 's"
    and del :: "string \<Rightarrow> 's \<Rightarrow> 's"
    and pop :: "time \<Rightarrow> 's \<Rightarrow> string list \<times> 's"
  assumes tab_put: "ok s \<Longrightarrow> ok (put k d s) \<and> tab (put k d s) = (tab s)(k \<mapsto> d)"
    and tab_del: "ok s \<Longrightarrow> ok (del k s) \<and> tab (del k s) = (tab s)(k := None)"
    and tab_pop: "ok s \<Longrightarrow> ok (snd (pop now s)) \<and> set (fst (pop now s)) = {k. \<exists>d. tab s k = Some d \<and> d \<le> now}
      \<and> tab (snd (pop now s)) = tab s |` (- set (fst (pop now s)))"
begin

lemma pop_after_put:
  "ok s \<Longrightarrow> k \<in> set (fst (pop now (put k d s))) \<longleftrightarrow> d \<le> now"
  using tab_put [of s k d] tab_pop [of "put k d s" now] by auto

lemma pop_after_del: "ok s \<Longrightarrow> k \<notin> set (fst (pop now (del k s)))"
  using tab_del [of s k] tab_pop [of "del k s" now] by auto

lemma pop_twice: "ok s \<Longrightarrow> now' \<le> now \<Longrightarrow> fst (pop now' (snd (pop now s))) = []"
proof -
  assume s: "ok s" and le: "now' \<le> now"
  note p = tab_pop [OF s, of now]
  from tab_pop [of "snd (pop now s)" now'] p
  have "set (fst (pop now' (snd (pop now s)))) =
      {k. \<exists>d. (tab s |` (- {k. \<exists>d. tab s k = Some d \<and> d \<le> now})) k = Some d \<and> d \<le> now'}" by simp
  also have "\<dots> = {}" using le by (auto simp: restrict_map_def split: if_splits)
  finally show ?thesis by simp
qed

lemma kept_until_due: "ok s \<Longrightarrow> tab s k = Some d \<Longrightarrow> now < d \<Longrightarrow> tab (snd (pop now s)) k = Some d"
  using tab_pop [of s now] by (auto simp: restrict_map_def)

end

interpretation sched: timetable_ops timetable sched_wf schedule sched_remove popDue
proof
  fix s k d
  assume "sched_wf s"
  then show "sched_wf (schedule k d s) \<and> timetable (schedule k d s) = (timetable s)(k \<mapsto> d)"
    using scheduleLocked_ok [of s k d] by (simp add: schedule_def notify_def frame_def)
next
  fix s k
  assume "sched_wf s"
  then show "sched_wf (sched_remove k s) \<and> timetable (sched_remove k s) = (timetable s)(k := None)"
    using dropItem_ok [of s k] by (simp add: sched_remove_def frame_def)
next
  fix s now
  assume "sched_wf s"
  then show "sched_wf (snd (popDue now s)) \<and> set (fst (popDue now s)) = {k. \<exists>d. timetable s k = Some d \<and> d \<le> now}
      \<and> timetable (snd (popDue now s)) = timetable s |` (- set (fst (popDue now s)))"
    using popDue_ok [of s now] by (simp add: frame_def)
qed

lemma sched_wf_new: "sched_wf (newPrefetchSchedulerAt t seed)" "timetable (newPrefetchSchedulerAt t seed) = Map.empty"
  by (simp_all add: sched_wf_def newPrefetchSchedulerAt_def q_inv_def elems_def heap_order_def timetable_def fun_eq_iff)

lemma sched_wf_clear: "sched_wf (sched_clear s)" "timetable (sched_clear s) = Map.empty"
  by (simp_all add: sched_wf_def sched_clear_def notify_def q_inv_def elems_def heap_order_def timetable_def fun_eq_iff)


section \<open>Reachable schedulers\<close>

inductive sched_reachable :: "prefetchScheduler \<Rightarrow> bool" where
  new: "sched_reachable (newPrefetchSchedulerAt startedAt seed)"
| schedule: "sched_reachable s \<Longrightarrow> sched_reachable (schedule key due s)"
| remove: "sched_reachable s \<Longrightarrow> sched_reachable (sched_remove key s)"
| clear: "sched_reachable s \<Longrightarrow> sched_reachable (sched_clear s)"
| reset: "sched_reachable s \<Longrightarrow> sched_reachable (resetFailures key s)"
| pop: "sched_reachable s \<Longrightarrow> sched_reachable (snd (popDue now s))"
| retry: "sched_reachable s \<Longrightarrow> sched_reachable (snd (scheduleRetryUntil key now graceDeadline s))"
| woken: "sched_reachable s \<Longrightarrow> sched_reachable (s\<lparr>wake := False\<rparr>)"

lemma scheduleRetryUntil_wf: "sched_wf s \<Longrightarrow> sched_wf (snd (scheduleRetryUntil key now grace s))"
  by (auto simp: scheduleRetryUntil_def Let_def dropItem_ok scheduleLocked_ok)

lemma reachable_wf: "sched_reachable s \<Longrightarrow> sched_wf s"
proof (induction rule: sched_reachable.induct)
  case (schedule s key due)
  then show ?case using sched.tab_put by blast
next
  case (remove s key)
  then show ?case using sched.tab_del by blast
next
  case (pop s now)
  then show ?case using sched.tab_pop by blast
qed (simp_all add: sched_wf_new sched_wf_clear resetFailures_def scheduleRetryUntil_wf)

definition retry_deadline :: "string \<Rightarrow> time \<Rightarrow> time \<Rightarrow> prefetchScheduler \<Rightarrow> time" where
  "retry_deadline key now grace s =
     max grace ((case failures s key of Some f \<Rightarrow> pf_firstFailed f | None \<Rightarrow> now) + PREFETCH_RETRY_MAX_AGE)"

lemma scheduleRetryUntil_cases:
  fixes key now grace s
  defines "deadline \<equiv> retry_deadline key now grace s"
    and "n \<equiv> (case failures s key of Some f \<Rightarrow> pf_attempts f | None \<Rightarrow> 0)"
  shows "deadline \<le> now \<Longrightarrow> scheduleRetryUntil key now grace s = ((0, n, 0, False), sched_remove key s)"
    and "now < deadline \<Longrightarrow> \<exists>f due. scheduleRetryUntil key now grace s =
      ((due, n + 1, time_Sub due now, True), scheduleLocked key due (s\<lparr>failures := (failures s)(key \<mapsto> f)\<rparr>))
      \<and> pf_attempts f = n + 1
      \<and> due = min deadline (batchAtOrAfter s (now + (if deadline < now + prefetchRetryDelay (n + 1)
          then time_Sub deadline now else prefetchRetryDelay (n + 1))))"
proof -
  let ?f = "case failures s key of Some f \<Rightarrow> f | None \<Rightarrow> \<lparr>pf_firstFailed = now, pf_attempts = 0\<rparr>"
  let ?d0 = "time_Add (pf_firstFailed ?f) PREFETCH_RETRY_MAX_AGE"
  have n: "n = pf_attempts ?f" by (simp add: n_def split: option.split)
  have d: "(if time_After grace ?d0 then grace else ?d0) = deadline"
    by (auto simp: deadline_def retry_deadline_def time_After_def time_Add_def max_def split: option.split)
  show "deadline \<le> now \<Longrightarrow> scheduleRetryUntil key now grace s = ((0, n, 0, False), sched_remove key s)"
    unfolding scheduleRetryUntil_def Let_def d n by (simp add: time_Before_def sched_remove_def)
  assume "now < deadline"
  then show "\<exists>f due. scheduleRetryUntil key now grace s =
      ((due, n + 1, time_Sub due now, True), scheduleLocked key due (s\<lparr>failures := (failures s)(key \<mapsto> f)\<rparr>))
      \<and> pf_attempts f = n + 1
      \<and> due = min deadline (batchAtOrAfter s (now + (if deadline < now + prefetchRetryDelay (n + 1)
          then time_Sub deadline now else prefetchRetryDelay (n + 1))))"
    unfolding scheduleRetryUntil_def Let_def d n
    by (intro exI [of _ "?f\<lparr>pf_attempts := pf_attempts ?f + 1\<rparr>"]) (simp add: time_Before_def time_After_def time_Add_def min_def)
qed

section \<open>Properties\<close>

definition sample_sched :: prefetchScheduler where
  "sample_sched = schedule ''b.org'' 20 (schedule ''c.org'' 30 (schedule ''a.org'' 10 (newPrefetchSchedulerAt 0 7)))"

lemma sample_sched_reachable: "sched_reachable sample_sched"
  unfolding sample_sched_def by (intro sched_reachable.intros)

text \<open>C10. In every reachable scheduler the key index and the heap agree: each scheduled key occurs once
  in the queue and its item knows its position, so that rescheduling and removal hit the right item;
  the next due time is the earliest of all.\<close>

theorem scheduler_index_and_heap_agree:
  assumes "sched_reachable s"
  shows "distinct (queue s) \<and> dom (items s) = set (queue s)
    \<and> list_all (\<lambda>i. map_option it_index (items s (queue s ! i)) = Some (int i)) [0..<length (queue s)]
    \<and> nextDue s = (if queue s = [] then None else Some (Min (item_due s ` set (queue s))))"
proof -
  note wf = reachable_wf [OF assms]
  have "map_option it_index (items s (queue s ! i)) = Some (int i)" if "i < length (queue s)" for i
    using wf that by (auto simp: sched_wf_def q_inv_def)
  moreover have "item_due s (queue s ! 0) = Min (item_due s ` set (queue s))" if "queue s \<noteq> []"
    using that root_is_earliest [OF wf] by (intro Min_eqI [symmetric]) auto
  ultimately show ?thesis using wf by (auto simp: sched_wf_def q_inv_def nextDue_def list_all_iff)
qed

theorem scheduler_index_and_heap_agree_witness:
  "distinct (queue sample_sched) \<and> dom (items sample_sched) = set (queue sample_sched)"
  using scheduler_index_and_heap_agree [OF sample_sched_reachable] by blast

text \<open>C11. Popping returns exactly the keys that are due, each once and ordered by due time, and keeps
  the others: scheduling and removing a key act on the timetable as expected, for every reachable
  scheduler.\<close>

theorem scheduler_refines_timetable:
  assumes "sched_reachable s"
  shows "timetable (schedule k d s) = (timetable s)(k \<mapsto> d) \<and> timetable (sched_remove k s) = (timetable s)(k := None)
    \<and> set (fst (popDue now s)) = {k. \<exists>d. timetable s k = Some d \<and> d \<le> now}
    \<and> distinct (fst (popDue now s)) \<and> sorted (map (item_due s) (fst (popDue now s)))
    \<and> timetable (snd (popDue now s)) = timetable s |` (- set (fst (popDue now s)))"
  using sched.tab_put [OF reachable_wf [OF assms], of k d] sched.tab_del [OF reachable_wf [OF assms], of k]
    popDue_ok [OF reachable_wf [OF assms], of now] by (simp add: frame_def)

theorem scheduler_refines_timetable_witness:
  "set (fst (popDue 25 sample_sched)) = {k. \<exists>d. timetable sample_sched k = Some d \<and> d \<le> 25}"
  using scheduler_refines_timetable [OF sample_sched_reachable, of _ _ 25] by blast



end
