(* ===== verification/Server_State.thy ===== *)
theory Server_State
  imports Policy Scheduler
begin

text \<open>
  The state the daemon's goroutines share: the policy cache with its file, the hit counters, the active
  prefetch scheduler and the metrics (the package variables of \<^verbatim>\<open>internal/server.go\<close>,
  \<^verbatim>\<open>internal/prefetch.go\<close> and \<^verbatim>\<open>internal/metrics.go\<close>), and the helpers that change them.

  Cached entries are pointers, and two operations compare them by identity. An entry is never changed
  after it was stored, so a pointer is a pair of an address and the entry it points to; every newly built entry
  takes the next unused address. The argument \<^verbatim>\<open>haveLock\<close>, which only says who locks the cache, has no
  counterpart: every operation here is one critical section.
\<close>

section \<open>Shared state\<close>

type_synonym entry = "nat \<times> CacheStruct"

record metrics =
  metricQueriesTotal :: u64
  metricDaneTotal :: u64
  metricDaneOnlyTotal :: u64
  metricSecureTotal :: u64
  metricNoPolicyTotal :: u64
  metricCacheHits :: u64
  metricCacheMisses :: u64
  metricPrefetchOK :: u64
  metricPrefetchFail :: u64
  metricPrefetchDrop :: u64

record server =
  polCache :: "entry Cache"
  cacheFiles :: "entry files"
  cacheHitCounters :: "(string \<times> u32) list"
  activePrefetchScheduler :: "prefetchScheduler option"
  metric :: metrics
  nextRef :: nat

definition alloc :: "CacheStruct \<Rightarrow> server \<Rightarrow> entry \<times> server" where
  "alloc cs s = ((nextRef s, cs), s\<lparr>nextRef := Suc (nextRef s)\<rparr>)"

definition cache_get :: "string \<Rightarrow> server \<Rightarrow> entry option" where
  "cache_get key s = Cache_Get key (polCache s)"

definition cache_set :: "string \<Rightarrow> CacheStruct \<Rightarrow> server \<Rightarrow> server" where
  "cache_set key cs s =
     (let a = alloc cs s in (snd a)\<lparr>polCache := Cache_Set key (fst a) (polCache (snd a))\<rparr>)"

definition cache_remove :: "string \<Rightarrow> server \<Rightarrow> server" where
  "cache_remove key s = s\<lparr>polCache := Cache_Remove key (polCache s)\<rparr>"

definition cache_save :: "write_env \<Rightarrow> server \<Rightarrow> server" where
  "cache_save env s =
     (case Cache_Save env (polCache s) (cacheFiles s) of
        (err, c, fs) \<Rightarrow> s\<lparr>polCache := c, cacheFiles := fs\<rparr>)"

definition with_scheduler :: "(prefetchScheduler \<Rightarrow> prefetchScheduler) \<Rightarrow> server \<Rightarrow> server" where
  "with_scheduler f s = s\<lparr>activePrefetchScheduler := map_option f (activePrefetchScheduler s)\<rparr>"

section \<open>Metrics\<close>

fun firstWord :: "string \<Rightarrow> string" where
  "firstWord [] = []"
| "firstWord (c # cs) = (if c = CHR '' '' then [] else c # firstWord cs)"

definition addMetricQuery :: "server \<Rightarrow> server" where
  "addMetricQuery s = s\<lparr>metric := (metric s)\<lparr>metricQueriesTotal := metricQueriesTotal (metric s) + 1\<rparr>\<rparr>"

definition observePolicy :: "string \<Rightarrow> server \<Rightarrow> server" where
  "observePolicy policy s =
     (let w = firstWord policy; m = metric s in
      if w = ''dane-only''
      then s\<lparr>metric := m\<lparr>metricDaneOnlyTotal := metricDaneOnlyTotal m + 1, metricDaneTotal := metricDaneTotal m + 1\<rparr>\<rparr>
      else if w = ''dane'' then s\<lparr>metric := m\<lparr>metricDaneTotal := metricDaneTotal m + 1\<rparr>\<rparr>
      else if w = ''secure'' then s\<lparr>metric := m\<lparr>metricSecureTotal := metricSecureTotal m + 1\<rparr>\<rparr>
      else if w = [] then s\<lparr>metric := m\<lparr>metricNoPolicyTotal := metricNoPolicyTotal m + 1\<rparr>\<rparr>
      else s)"

definition observeCacheRequest :: "bool \<Rightarrow> server \<Rightarrow> server" where
  "observeCacheRequest hit s =
     (let m = metric s in
      if hit then s\<lparr>metric := m\<lparr>metricCacheHits := metricCacheHits m + 1\<rparr>\<rparr>
      else s\<lparr>metric := m\<lparr>metricCacheMisses := metricCacheMisses m + 1\<rparr>\<rparr>)"

definition observePrefetch :: "string \<Rightarrow> server \<Rightarrow> server" where
  "observePrefetch result s =
     (let m = metric s in
      if result = ''success'' then s\<lparr>metric := m\<lparr>metricPrefetchOK := metricPrefetchOK m + 1\<rparr>\<rparr>
      else if result = ''failure'' then s\<lparr>metric := m\<lparr>metricPrefetchFail := metricPrefetchFail m + 1\<rparr>\<rparr>
      else if result = ''discard'' then s\<lparr>metric := m\<lparr>metricPrefetchDrop := metricPrefetchDrop m + 1\<rparr>\<rparr>
      else s)"

section \<open>Hit counters\<close>

definition addCacheHitCounter :: "string \<Rightarrow> server \<Rightarrow> server" where
  "addCacheHitCounter domain s =
     s\<lparr>cacheHitCounters := AList.update domain
        ((case map_of (cacheHitCounters s) domain of None \<Rightarrow> 0 | Some n \<Rightarrow> n) + 1) (cacheHitCounters s)\<rparr>"

definition drainCacheHitCounter :: "string \<Rightarrow> server \<Rightarrow> u32 \<times> server" where
  "drainCacheHitCounter domain s =
     (case map_of (cacheHitCounters s) domain of
        None \<Rightarrow> (0, s)
      | Some n \<Rightarrow> (n, s\<lparr>cacheHitCounters := AList.update domain 0 (cacheHitCounters s)\<rparr>))"

definition cacheEntryCounter :: "string \<Rightarrow> CacheStruct option \<Rightarrow> server \<Rightarrow> u32" where
  "cacheEntryCounter domain c s =
     (case c of
        None \<Rightarrow> 0
      | Some e \<Rightarrow>
          (case map_of (cacheHitCounters s) domain of
             None \<Rightarrow> cs_Counter e
           | Some pending \<Rightarrow> cs_Counter e + pending))"

definition cachedPolicyExists :: "string \<Rightarrow> server \<Rightarrow> bool" where
  "cachedPolicyExists domain s = cacheStructHasPolicy (map_option snd (cache_get domain s))"

definition cleanupCacheHitCounterIfUnused :: "string \<Rightarrow> server \<Rightarrow> server" where
  "cleanupCacheHitCounterIfUnused domain s =
     (case map_of (cacheHitCounters s) domain of
        None \<Rightarrow> s
      | Some n \<Rightarrow>
          if n \<noteq> 0 \<or> cachedPolicyExists domain s then s
          else s\<lparr>cacheHitCounters := AList.delete domain (cacheHitCounters s)\<rparr>)"

text \<open>One round of the loop of \<^verbatim>\<open>flushCacheHitCounters\<close>.\<close>

definition flush_counter :: "string \<Rightarrow> server \<Rightarrow> server" where
  "flush_counter domain s =
     (let d = drainCacheHitCounter domain s; delta = fst d; s1 = snd d in
      if delta = 0 then cleanupCacheHitCounterIfUnused domain s1
      else cleanupCacheHitCounterIfUnused domain
        (case cache_get domain s1 of
           None \<Rightarrow> s1
         | Some c \<Rightarrow>
             let updated = cloneCacheStruct (Some (snd c)) in
             cache_set domain (updated\<lparr>cs_Counter := cs_Counter updated + delta\<rparr>) s1))"

definition flushCacheHitCounters :: "server \<Rightarrow> server" where
  "flushCacheHitCounters s = fold (\<lambda>kv. flush_counter (fst kv)) (cacheHitCounters s) s"

section \<open>Discarding policies\<close>

text \<open>\<^verbatim>\<open>cachedEntryLocked\<close> reads through \<^verbatim>\<open>Update\<close> with a function that stores nothing, so that the caller keeps the lock. It
  changes nothing, and the operations below read with \<open>cache_get\<close>.\<close>

definition cachedEntryLocked :: "string \<Rightarrow> server \<Rightarrow> entry option \<times> server" where
  "cachedEntryLocked key s = (Cache_Get key (polCache s), s\<lparr>polCache := Cache_Update key (\<lambda>_. None) (polCache s)\<rparr>)"

lemma cachedEntryLocked_reads: "cachedEntryLocked key s = (cache_get key s, s)"
  by (simp add: cachedEntryLocked_def cache_get_def Cache_Update_def)

definition discardCachedPolicyState :: "string \<Rightarrow> CacheStruct option \<Rightarrow> server \<Rightarrow> server" where
  "discardCachedPolicyState key c s =
     (let d = drainCacheHitCounter key s;
          counter = (case c of None \<Rightarrow> 0 | Some e \<Rightarrow> cs_Counter e) + fst d; s1 = snd d in
      cleanupCacheHitCounterIfUnused key
        (if counter = 0 then cache_remove key s1 else cache_set key (statsOnlyCacheEntry counter) s1))"

definition discardCachedPolicyStateIfCurrent :: "string \<Rightarrow> entry \<Rightarrow> server \<Rightarrow> (entry option \<times> bool) \<times> server" where
  "discardCachedPolicyStateIfCurrent key expected s =
     (case cache_get key s of
        None \<Rightarrow> ((None, False), s)
      | Some current \<Rightarrow>
          if fst current \<noteq> fst expected then ((Some current, False), s)
          else ((None, True), discardCachedPolicyState key (Some (snd current)) s))"

definition removeCacheEntryIfCurrent :: "string \<Rightarrow> entry \<Rightarrow> server \<Rightarrow> (entry option \<times> bool) \<times> server" where
  "removeCacheEntryIfCurrent key expected s =
     (case cache_get key s of
        None \<Rightarrow> ((None, False), s)
      | Some current \<Rightarrow>
          if fst current \<noteq> fst expected then ((Some current, False), s)
          else ((None, True), cache_remove key s))"

section \<open>Invariant\<close>

text \<open>Keys are unique, every address in use is below the next one, and the scheduler is well-formed.\<close>

definition server_wf :: "server \<Rightarrow> bool" where
  "server_wf s \<longleftrightarrow> cache_wf (polCache s) \<and> list_all (\<lambda>kv. fst (snd kv) < nextRef s) (data (polCache s))
     \<and> distinct (map fst (cacheHitCounters s)) \<and> pred_option sched_wf (activePrefetchScheduler s)"

lemma cache_get_set [simp]:
  "cache_get j (cache_set k cs s) = (if j = k then Some (nextRef s, cs) else cache_get j s)"
  by (simp add: cache_get_def cache_set_def alloc_def Let_def Cache_Get_def Cache_Set_def update_conv')

lemma cache_get_remove [simp]: "cache_get j (cache_remove k s) = (if j = k then None else cache_get j s)"
  by (simp add: cache_get_def cache_remove_def Cache_Get_def delete_conv')

lemma save_data [simp]: "data (fst (snd (Cache_Save env c fs))) = data c"
  by (auto simp: Cache_Save_def save_def persistSnapshot_def save_snapshot_def save_mark_def Let_def
      split: option.splits if_splits prod.splits)

lemma cache_get_frame [simp]:
  "cache_get j (s\<lparr>cacheHitCounters := h\<rparr>) = cache_get j s" "cache_get j (s\<lparr>metric := m\<rparr>) = cache_get j s"
  "cache_get j (s\<lparr>activePrefetchScheduler := a\<rparr>) = cache_get j s"
  "cache_get j (cache_save env s) = cache_get j s"
  by (simp_all add: cache_get_def cache_save_def Cache_Get_def split_beta)

lemma set_frame [simp]:
  "cacheHitCounters (cache_set k cs s) = cacheHitCounters s" "cacheHitCounters (cache_remove k s) = cacheHitCounters s"
  "cacheHitCounters (cache_save env s) = cacheHitCounters s"
  "activePrefetchScheduler (cache_set k cs s) = activePrefetchScheduler s"
  "activePrefetchScheduler (cache_remove k s) = activePrefetchScheduler s"
  "activePrefetchScheduler (cache_save env s) = activePrefetchScheduler s"
  "nextRef (cache_set k cs s) = Suc (nextRef s)" "nextRef (cache_remove k s) = nextRef s"
  "nextRef (cache_save env s) = nextRef s"
  by (simp_all add: cache_set_def alloc_def cache_remove_def cache_save_def split_beta Let_def)

lemma metric_frame [simp]:
  "cache_get j (observePrefetch r s) = cache_get j s" "activePrefetchScheduler (observePrefetch r s) = activePrefetchScheduler s"
  "cacheHitCounters (observePrefetch r s) = cacheHitCounters s" "nextRef (observePrefetch r s) = nextRef s"
  "cache_get j (observePolicy p s) = cache_get j s" "activePrefetchScheduler (observePolicy p s) = activePrefetchScheduler s"
  "cacheHitCounters (observePolicy p s) = cacheHitCounters s" "nextRef (observePolicy p s) = nextRef s"
  "cache_get j (observeCacheRequest h s) = cache_get j s" "activePrefetchScheduler (observeCacheRequest h s) = activePrefetchScheduler s"
  "cacheHitCounters (observeCacheRequest h s) = cacheHitCounters s" "nextRef (observeCacheRequest h s) = nextRef s"
  "cache_get j (addMetricQuery s) = cache_get j s" "activePrefetchScheduler (addMetricQuery s) = activePrefetchScheduler s"
  "cacheHitCounters (addMetricQuery s) = cacheHitCounters s" "nextRef (addMetricQuery s) = nextRef s"
  by (simp_all add: observePrefetch_def observePolicy_def observeCacheRequest_def addMetricQuery_def Let_def)

lemma set_update: "set (AList.update k v xs) \<subseteq> insert (k, v) (set xs)"
  by (induction xs) auto

lemma wf_cache_set: "server_wf s \<Longrightarrow> server_wf (cache_set k cs s)"
  using set_update [of k "(nextRef s, cs)" "data (polCache s)"] store.invar_put [of "polCache s" k "(nextRef s, cs)"]
  by (fastforce simp: server_wf_def cache_set_def alloc_def Let_def Cache_Set_def list_all_iff)

lemma set_delete: "set (AList.delete k xs) \<subseteq> set xs"
  by (induction xs) auto

lemma wf_cache_remove: "server_wf s \<Longrightarrow> server_wf (cache_remove k s)"
  using set_delete [of k "data (polCache s)"] store.invar_del [of "polCache s" k]
  by (auto simp: server_wf_def cache_remove_def list_all_iff)

lemma wf_cache_save: "server_wf s \<Longrightarrow> server_wf (cache_save env s)"
  by (simp add: server_wf_def cache_save_def cache_wf_def split_beta)

lemma wf_with_scheduler: "server_wf s \<Longrightarrow> (\<And>t. sched_wf t \<Longrightarrow> sched_wf (f t)) \<Longrightarrow> server_wf (with_scheduler f s)"
  by (auto simp: server_wf_def with_scheduler_def option.pred_set)

lemma wf_hits: "server_wf s \<Longrightarrow> distinct (map fst h) \<Longrightarrow> server_wf (s\<lparr>cacheHitCounters := h\<rparr>)"
  by (simp add: server_wf_def)

lemma wf_metrics:
  "server_wf (observePrefetch r s) = server_wf s" "server_wf (observePolicy p s) = server_wf s"
  "server_wf (observeCacheRequest h s) = server_wf s" "server_wf (addMetricQuery s) = server_wf s"
  by (simp_all add: server_wf_def observePrefetch_def observePolicy_def observeCacheRequest_def addMetricQuery_def Let_def)

lemma wf_counters:
  assumes "server_wf s"
  shows "server_wf (snd (drainCacheHitCounter k s))" "server_wf (cleanupCacheHitCounterIfUnused k s)"
    "server_wf (addCacheHitCounter k s)"
  using assms
  by (auto simp: server_wf_def drainCacheHitCounter_def cleanupCacheHitCounterIfUnused_def addCacheHitCounter_def
      distinct_update distinct_delete split: option.splits)

lemmas wf_state = wf_cache_set wf_cache_remove wf_cache_save wf_with_scheduler wf_hits wf_counters

lemma wf_flush_counter: "server_wf s \<Longrightarrow> server_wf (flush_counter k s)"
  by (auto simp: flush_counter_def Let_def intro!: wf_state split: option.split)

lemma wf_flush: "server_wf s \<Longrightarrow> server_wf (flushCacheHitCounters s)"
proof -
  have "server_wf (fold (\<lambda>kv. flush_counter (fst kv)) xs s)" if "server_wf s" for xs s
    using that by (induction xs arbitrary: s) (simp_all add: wf_flush_counter)
  then show "server_wf s \<Longrightarrow> server_wf (flushCacheHitCounters s)" by (simp add: flushCacheHitCounters_def)
qed

lemma wf_discard: "server_wf s \<Longrightarrow> server_wf (discardCachedPolicyState k c s)"
  by (auto simp: discardCachedPolicyState_def Let_def intro!: wf_state)

section \<open>Hit counts\<close>

text \<open>The number of hits of a cached domain: those stored with its entry and those still pending.\<close>

definition cached_hits :: "string \<Rightarrow> server \<Rightarrow> u32" where
  "cached_hits domain s = cacheEntryCounter domain (map_option snd (cache_get domain s)) s"

definition pending :: "string \<Rightarrow> server \<Rightarrow> u32" where
  "pending domain s = (case map_of (cacheHitCounters s) domain of None \<Rightarrow> 0 | Some n \<Rightarrow> n)"

lemma cached_hits_alt:
  "cached_hits d s = (case cache_get d s of None \<Rightarrow> 0 | Some c \<Rightarrow> cs_Counter (snd c) + pending d s)"
  by (simp add: cached_hits_def cacheEntryCounter_def pending_def split: option.split)

lemma drain_simps [simp]:
  "fst (drainCacheHitCounter k s) = pending k s" "cache_get j (snd (drainCacheHitCounter k s)) = cache_get j s"
  "pending j (snd (drainCacheHitCounter k s)) = (if j = k then 0 else pending j s)"
  "nextRef (snd (drainCacheHitCounter k s)) = nextRef s"
  "activePrefetchScheduler (snd (drainCacheHitCounter k s)) = activePrefetchScheduler s"
  by (auto simp: drainCacheHitCounter_def pending_def update_conv' split: option.split)

lemma cleanup_simps [simp]:
  "cache_get j (cleanupCacheHitCounterIfUnused k s) = cache_get j s"
  "pending j (cleanupCacheHitCounterIfUnused k s) = pending j s"
  "activePrefetchScheduler (cleanupCacheHitCounterIfUnused k s) = activePrefetchScheduler s"
  "nextRef (cleanupCacheHitCounterIfUnused k s) = nextRef s"
  by (auto simp: cleanupCacheHitCounterIfUnused_def pending_def delete_conv' split: option.split)

lemma pending_frame [simp]:
  "pending j (cache_set k cs s) = pending j s" "pending j (cache_remove k s) = pending j s"
  by (simp_all add: pending_def)

lemma clone_Counter [simp]: "cs_Counter (cloneCacheStruct (Some e)) = cs_Counter e"
  by (simp add: cloneCacheStruct_def split: option.split)

lemma flush_counter_hits: "cached_hits d (flush_counter k s) = cached_hits d s"
  by (auto simp: flush_counter_def Let_def cached_hits_alt split: option.split)

lemma fold_flush_hits: "cached_hits d (fold (\<lambda>kv. flush_counter (fst kv)) xs s) = cached_hits d s"
  by (induction xs arbitrary: s) (simp_all add: flush_counter_hits)

lemma discard_get:
  "cache_get j (discardCachedPolicyState k c s) =
     (if j \<noteq> k then cache_get j s
      else let n = (case c of None \<Rightarrow> 0 | Some e \<Rightarrow> cs_Counter e) + pending k s in
        if n = 0 then None else Some (nextRef s, statsOnlyCacheEntry n))"
  by (simp add: discardCachedPolicyState_def Let_def)

lemma discard_pending: "pending j (discardCachedPolicyState k c s) = (if j = k then 0 else pending j s)"
  by (simp add: discardCachedPolicyState_def Let_def)

lemma discard_frame [simp]:
  "activePrefetchScheduler (discardCachedPolicyState k c s) = activePrefetchScheduler s"
  by (simp add: discardCachedPolicyState_def Let_def)

text \<open>A discarded entry serves nothing.\<close>

lemma statsOnly_not_served: "selectCachedPolicy (Some (statsOnlyCacheEntry n)) now = ([], [], 0, False)"
  by (simp add: selectCachedPolicy_def statsOnlyCacheEntry_def zeroCacheStruct_def hasBranches_def)

text \<open>C27. No hit is lost: flushing the pending counters into the entries, and discarding an outdated
  policy while keeping its statistics, leave the hit count of every cached domain as it is, and a hit on a
  cached domain adds exactly one (modulo the width of the counter) to that domain and none to the others.\<close>

theorem hit_counts_conserved:
  "cached_hits d (flushCacheHitCounters s) = cached_hits d s
   \<and> cached_hits d (discardCachedPolicyState k (map_option snd (cache_get k s)) s) = (if d = k \<and> cache_get k s = None then pending k s else cached_hits d s)
   \<and> cached_hits d (addCacheHitCounter k s) = cached_hits d s + (if d = k \<and> cache_get k s \<noteq> None then 1 else 0)"
proof (intro conjI)
  show "cached_hits d (flushCacheHitCounters s) = cached_hits d s"
    by (simp add: flushCacheHitCounters_def fold_flush_hits)
  show "cached_hits d (discardCachedPolicyState k (map_option snd (cache_get k s)) s) = (if d = k \<and> cache_get k s = None then pending k s else cached_hits d s)"
    by (auto simp: cached_hits_alt discard_get discard_pending statsOnlyCacheEntry_def Let_def split: option.splits)
  show "cached_hits d (addCacheHitCounter k s) = cached_hits d s + (if d = k \<and> cache_get k s \<noteq> None then 1 else 0)"
    by (auto simp: cached_hits_alt pending_def addCacheHitCounter_def update_conv' split: option.split)
qed

end
