(* ===== verification/Prefetch.thy ===== *)
theory Prefetch
  imports Server_State
begin

text \<open>
  Keeping cached policies fresh (\<^verbatim>\<open>internal/prefetch.go\<close>): when a cached policy is refreshed next, what a
  refresh does to the cache and the schedule, what happens when lookups keep failing, and the batch
  that refreshes the policies that are due.

  The random numbers of the source are arguments: \<open>draw\<close> stands for the generator behind
  \<^verbatim>\<open>rand.IntN\<close>, \<open>jitter\<close> and \<open>mergeJitter\<close> for the draws of \<^verbatim>\<open>expireBranch\<close>. The functions that take the scheduler as an
  argument are run by the prefetch loop only, while its scheduler is the active one.
\<close>

section \<open>Policy levels\<close>

datatype prefetchedPolicyLevel =
    prefetchedPolicyNone | prefetchedPolicyMtaSts | prefetchedPolicyDane | prefetchedPolicyDaneOnly

fun level_code :: "prefetchedPolicyLevel \<Rightarrow> u8" where
  "level_code prefetchedPolicyNone = 0"
| "level_code prefetchedPolicyMtaSts = 1"
| "level_code prefetchedPolicyDane = 2"
| "level_code prefetchedPolicyDaneOnly = 3"

lemma level_code_inject [simp]: "level_code a = level_code b \<longleftrightarrow> a = b"
  by (cases a; cases b) simp_all

instantiation prefetchedPolicyLevel :: linorder
begin

definition less_eq_prefetchedPolicyLevel :: "prefetchedPolicyLevel \<Rightarrow> prefetchedPolicyLevel \<Rightarrow> bool" where
  "less_eq_prefetchedPolicyLevel a b \<longleftrightarrow> level_code a \<le> level_code b"

definition less_prefetchedPolicyLevel :: "prefetchedPolicyLevel \<Rightarrow> prefetchedPolicyLevel \<Rightarrow> bool" where
  "less_prefetchedPolicyLevel a b \<longleftrightarrow> level_code a < level_code b"

instance
  by standard (auto simp: less_eq_prefetchedPolicyLevel_def less_prefetchedPolicyLevel_def order.strict_iff_order)

end

definition classifyPrefetchedPolicy :: "string \<Rightarrow> string \<times> prefetchedPolicyLevel \<times> bool" where
  "classifyPrefetchedPolicy policy =
     (let w = firstWord policy in
      if w = [] then (''none'', prefetchedPolicyNone, True)
      else if w = ''secure'' then (''sts'', prefetchedPolicyMtaSts, True)
      else if w = ''dane'' then (''dane'', prefetchedPolicyDane, True)
      else if w = ''dane-only'' then (''dane-only'', prefetchedPolicyDaneOnly, True)
      else ([], prefetchedPolicyNone, False))"

definition isPrefetchedPolicyDowngrade :: "string \<Rightarrow> string \<Rightarrow> string \<times> string \<times> bool" where
  "isPrefetchedPolicyDowngrade previous current =
     (case classifyPrefetchedPolicy previous of (previousName, previousLevel, previousOK) \<Rightarrow>
      case classifyPrefetchedPolicy current of (currentName, currentLevel, currentOK) \<Rightarrow>
        (previousName, currentName, previousOK \<and> currentOK \<and> currentLevel < previousLevel))"

definition recognized :: "string \<Rightarrow> bool" where
  "recognized policy = snd (snd (classifyPrefetchedPolicy policy))"

definition cachedPolicyForPrefetchTransition :: "CacheStruct option \<Rightarrow> time \<Rightarrow> string" where
  "cachedPolicyForPrefetchTransition c now = (case c of
     None \<Rightarrow> []
   | Some e \<Rightarrow>
       (case selectCachedPolicy c now of (policy, report, ttl, ok) \<Rightarrow>
          if ok \<and> recognized policy then policy
          else if recognized (cs_Policy e) \<and> cs_Policy e \<noteq> [] then cs_Policy e
          else if recognized (pb_Policy (cs_Dane e)) \<and> pb_Policy (cs_Dane e) \<noteq> [] then pb_Policy (cs_Dane e)
          else if recognized (pb_Policy (cs_MtaSts e)) \<and> pb_Policy (cs_MtaSts e) \<noteq> [] then pb_Policy (cs_MtaSts e)
          else []))"

text \<open>The warning that is logged, if any: the previous and the current policy name.\<close>

definition logPrefetchedPolicyDowngrade ::
    "CacheStruct option \<Rightarrow> CacheStruct option \<Rightarrow> time \<Rightarrow> (string \<times> string) option" where
  "logPrefetchedPolicyDowngrade previous current now =
     (case isPrefetchedPolicyDowngrade (cachedPolicyForPrefetchTransition previous now)
             (cachedPolicyForPrefetchTransition current now) of
        (previousName, currentName, downgraded) \<Rightarrow>
          if downgraded then Some (previousName, currentName) else None)"

section \<open>When to refresh\<close>

definition rand_IntN :: "nat \<Rightarrow> nat \<Rightarrow> nat" where
  "rand_IntN draw n = draw mod n"

definition nextPolicyPrefetchTime :: "nat \<Rightarrow> prefetchScheduler \<Rightarrow> time \<Rightarrow> u32 \<Rightarrow> time" where
  "nextPolicyPrefetchTime draw s now remainingTTL =
     (let expiry = time_Add now (secs remainingTTL);
          window = (if secs remainingTTL > secs PREFETCH_INTERVAL then secs PREFETCH_INTERVAL else secs remainingTTL);
          slots = go_quot window PREFETCH_SLOT_INTERVAL in
      if slots < 1 then batchAtOrAfter s now
      else
        let lead = int (rand_IntN draw (nat slots) + 1) * PREFETCH_SLOT_INTERVAL;
            due0 = batchAtOrAfter s (time_Add expiry (- lead));
            earliest = (if remainingTTL > PREFETCH_INTERVAL
                        then time_Add now (secs (remainingTTL - PREFETCH_INTERVAL)) else now);
            due1 = (if time_Before due0 earliest then batchAtOrAfter s earliest else due0);
            due2 = (if time_After due1 expiry
                    then (case batchAtOrBefore s expiry of Some previousBatch \<Rightarrow> previousBatch | None \<Rightarrow> due1)
                    else due1)
        in if time_Before due2 now then batchAtOrAfter s now else due2)"

definition branchHadPolicyWithin :: "PolicyBranch \<Rightarrow> time \<Rightarrow> duration \<Rightarrow> bool" where
  "branchHadPolicyWithin branch now window =
     (if pb_Policy branch = [] then False
      else if branch_RemainingTTL branch now \<noteq> 0 then True
      else time_Before now (time_Add (pb_ExpiresAt branch) window))"

definition hadPolicyWithin :: "CacheStruct option \<Rightarrow> time \<Rightarrow> duration \<Rightarrow> bool" where
  "hadPolicyWithin c now window = (case c of
     None \<Rightarrow> False
   | Some e \<Rightarrow> branchHadPolicyWithin (cs_Dane e) now window \<or> branchHadPolicyWithin (cs_MtaSts e) now window)"

definition nextPrefetchTime :: "nat \<Rightarrow> prefetchScheduler \<Rightarrow> CacheStruct option \<Rightarrow> time \<Rightarrow> time option" where
  "nextPrefetchTime draw s c now =
     (if c = None \<or> cs_Age c now \<ge> CACHE_MAX_AGE then None
      else case selectCachedPolicy c now of (policy, report, remainingTTL, usable) \<Rightarrow>
        if \<not> usable then None
        else if policy = [] \<and> \<not> hadPolicyWithin c now POLICY_BRANCH_RECHECK then None
        else if policy = [] then Some (batchAtOrAfter s (time_Add now (secs remainingTTL)))
        else Some (nextPolicyPrefetchTime draw s now remainingTTL))"

definition shouldRetryCachedPolicyPrefetch :: "CacheStruct option \<Rightarrow> time \<Rightarrow> bool" where
  "shouldRetryCachedPolicyPrefetch c now =
     (if c = None \<or> cs_Age c now \<ge> CACHE_MAX_AGE \<or> cs_RemainingTTL c now = 0 then False
      else case selectCachedPolicy c now of (policy, report, ttl, usable) \<Rightarrow>
        \<not> usable \<or> policy \<noteq> [] \<or> hadPolicyWithin c now POLICY_BRANCH_RECHECK)"

definition nextPrefetchTimeAfterMiss :: "prefetchScheduler \<Rightarrow> CacheStruct option \<Rightarrow> time \<Rightarrow> time option" where
  "nextPrefetchTimeAfterMiss s c now =
     (case selectCachedPolicy c now of (policy, report, remainingTTL, usable) \<Rightarrow>
        if \<not> usable \<or> remainingTTL = 0 then None
        else if policy = [] \<and> \<not> hadPolicyWithin c now POLICY_BRANCH_RECHECK then None
        else Some (batchAtOrAfter s (time_Add now (secs remainingTTL))))"

section \<open>The active schedule\<close>

definition scheduleCachedPolicyPrefetch :: "nat \<Rightarrow> string \<Rightarrow> CacheStruct option \<Rightarrow> time \<Rightarrow> server \<Rightarrow> server" where
  "scheduleCachedPolicyPrefetch draw key c now s = with_scheduler (\<lambda>sch.
     case nextPrefetchTime draw sch c now of
       None \<Rightarrow> if shouldRetryCachedPolicyPrefetch c now then schedule key (batchAtOrAfter sch now) sch
                else sched_remove key sch
     | Some due \<Rightarrow> schedule key due sch) s"

definition unscheduleCachedPolicyPrefetch :: "string \<Rightarrow> server \<Rightarrow> server" where
  "unscheduleCachedPolicyPrefetch key s = with_scheduler (sched_remove key) s"

definition clearPrefetchSchedule :: "server \<Rightarrow> server" where
  "clearPrefetchSchedule s = with_scheduler sched_clear s"

definition resetCachedPolicyPrefetchFailures :: "string \<Rightarrow> server \<Rightarrow> server" where
  "resetCachedPolicyPrefetchFailures key s = with_scheduler (resetFailures key) s"

section \<open>Failed refreshes\<close>

definition failedPolicyGraceDeadline :: "CacheStruct option \<Rightarrow> domainResult \<Rightarrow> time" where
  "failedPolicyGraceDeadline c result = (case c of
     None \<Rightarrow> 0
   | Some e \<Rightarrow>
       let deadline = (if dr_DaneAttempted result \<and> \<not> HasData (dr_Dane result) \<and> pb_Policy (cs_Dane e) \<noteq> []
                       then time_Add (pb_ExpiresAt (cs_Dane e)) POLICY_BRANCH_RECHECK else 0) in
       if dr_MtaStsAttempted result \<and> \<not> HasData (dr_MtaSts result) \<and> pb_Policy (cs_MtaSts e) \<noteq> []
       then let mtaStsDeadline = time_Add (pb_ExpiresAt (cs_MtaSts e)) POLICY_BRANCH_RECHECK in
            if time_After mtaStsDeadline deadline then mtaStsDeadline else deadline
       else deadline)"

definition recheck_branch :: "u32 \<Rightarrow> time \<Rightarrow> PolicyBranch" where
  "recheck_branch jitter now = expireBranch jitter (emptyBranch\<lparr>pb_TTL := policyBranchRecheckTTL\<rparr>) now"

definition failed_branch_cleared :: "u32 \<Rightarrow> CacheStruct option \<Rightarrow> domainResult \<Rightarrow> time \<Rightarrow> CacheStruct option" where
  "failed_branch_cleared jitter c result now = (case c of
     None \<Rightarrow> None
   | Some e \<Rightarrow>
       let cs = cloneCacheStruct c in
       if dr_DaneAttempted result \<and> \<not> HasData (dr_Dane result) \<and> pb_Policy (cs_MtaSts e) \<noteq> []
          \<and> branch_RemainingTTL (cs_MtaSts e) now \<noteq> 0
       then Some (cs\<lparr>cs_Dane := recheck_branch jitter now, cs_DaneLastAttempt := now\<rparr>)
       else if dr_MtaStsAttempted result \<and> \<not> HasData (dr_MtaSts result) \<and> pb_Policy (cs_Dane e) \<noteq> []
          \<and> branch_RemainingTTL (cs_Dane e) now \<noteq> 0
       then Some (cs\<lparr>cs_MtaSts := recheck_branch jitter now, cs_MtaStsLastAttempt := now\<rparr>)
       else None)"

definition cacheAfterFailedBranchDiscard ::
    "u32 \<Rightarrow> CacheStruct option \<Rightarrow> domainResult \<Rightarrow> time \<Rightarrow> CacheStruct option" where
  "cacheAfterFailedBranchDiscard jitter c result now =
     (case failed_branch_cleared jitter c result now of
        None \<Rightarrow> None
      | Some cs \<Rightarrow>
          (case selectCachedPolicy (Some cs) now of (policy, report, ttl, ok) \<Rightarrow>
             if \<not> ok then None
             else Some (cs\<lparr>cs_Policy := policy, cs_Report := report, cs_TTL := ttl,
                           cs_Expirable := map_option (\<lambda>x. x\<lparr>ex_ExpiresAt := time_Add now (secs ttl)\<rparr>)
                                             (cs_Expirable cs)\<rparr>)))"

text \<open>\<^verbatim>\<open>scheduleRetryUntil\<close> on the active scheduler: whether a retry was scheduled.\<close>

definition retry_until :: "string \<Rightarrow> time \<Rightarrow> time \<Rightarrow> server \<Rightarrow> bool \<times> server" where
  "retry_until key now grace s = (case activePrefetchScheduler s of
     None \<Rightarrow> (False, s)
   | Some sch \<Rightarrow>
       (let r = scheduleRetryUntil key now grace sch in
        (snd (snd (snd (fst r))), s\<lparr>activePrefetchScheduler := Some (snd r)\<rparr>)))"

definition scheduleFailedPolicyPrefetch ::
    "nat \<Rightarrow> u32 \<Rightarrow> write_env \<Rightarrow> string \<Rightarrow> CacheStruct option \<Rightarrow> domainResult \<Rightarrow> time \<Rightarrow> server \<Rightarrow> server" where
  "scheduleFailedPolicyPrefetch draw jitter env key c result now s0 =
     (let r = retry_until key now (failedPolicyGraceDeadline c result) (observePrefetch ''failure'' s0);
          s = snd r in
      if fst r then s
      else case cacheAfterFailedBranchDiscard jitter c result now of
        Some updated \<Rightarrow>
          cache_save env (with_scheduler (\<lambda>sch.
            case nextPrefetchTime draw sch (Some updated) now of
              None \<Rightarrow> sch | Some due \<Rightarrow> schedule key due sch)
            (cache_set key updated (observePrefetch ''discard'' s)))
      | None \<Rightarrow> cache_save env (observePrefetch ''discard'' (discardCachedPolicyState key c s)))"

section \<open>The batch of due policies\<close>

text \<open>The loop body of \<^verbatim>\<open>prefetchDuePoliciesContext\<close> for one due key: the entry to refresh, if any.\<close>

definition prefetch_select :: "nat \<Rightarrow> time \<Rightarrow> string \<Rightarrow> server \<Rightarrow> entry option \<times> server" where
  "prefetch_select draw now key s = (case cache_get key s of
     None \<Rightarrow> (None, s)
   | Some entry \<Rightarrow>
       let c = Some (snd entry);
           discard = unscheduleCachedPolicyPrefetch key (discardCachedPolicyState key c s) in
       (case selectCachedPolicy c now of (policy, report, remainingTTL, usable) \<Rightarrow>
          if \<not> usable \<and> \<not> shouldRetryCachedPolicyPrefetch c now then (None, discard)
          else if usable \<and> policy = [] then
            (None, if remainingTTL = 0 then discard else scheduleCachedPolicyPrefetch draw key c now s)
          else if cs_Age c now \<ge> CACHE_MAX_AGE then (None, discard)
          else if remainingTTL > PREFETCH_INTERVAL then (None, scheduleCachedPolicyPrefetch draw key c now s)
          else (Some entry, s)))"

text \<open>The goroutine that refreshes one entry, once its lookup returned \<open>refreshed\<close>.\<close>

definition hasFailedAttempt :: "domainResult \<Rightarrow> bool" where
  "hasFailedAttempt r \<longleftrightarrow> (dr_DaneAttempted r \<and> \<not> HasData (dr_Dane r)) \<or> (dr_MtaStsAttempted r \<and> \<not> HasData (dr_MtaSts r))"

definition hasRefreshedData :: "domainResult \<Rightarrow> bool" where
  "hasRefreshedData r \<longleftrightarrow> HasData (dr_Dane r) \<or> HasData (dr_MtaSts r)"

definition usable_at :: "CacheStruct option \<Rightarrow> time \<Rightarrow> bool" where
  "usable_at c now = snd (snd (snd (selectCachedPolicy c now)))"

definition prefetch_refresh ::
    "nat \<Rightarrow> u32 \<Rightarrow> u32 \<Rightarrow> write_env \<Rightarrow> string \<Rightarrow> CacheStruct \<Rightarrow> domainResult \<Rightarrow> time \<Rightarrow> server \<Rightarrow> server" where
  "prefetch_refresh draw mergeJitter jitter env key c refreshed refreshedAt s =
     (if hasRefreshedData refreshed \<or> dr_DaneAttempted refreshed \<or> dr_MtaStsAttempted refreshed then
        let merged = mergeCacheResult mergeJitter (Some c) refreshed refreshedAt;
            s1 = cache_set key merged s in
        if usable_at (Some merged) refreshedAt then
          if hasFailedAttempt refreshed
          then scheduleFailedPolicyPrefetch draw jitter env key (Some merged) refreshed refreshedAt s1
          else scheduleCachedPolicyPrefetch draw key (Some merged) refreshedAt
                 (resetCachedPolicyPrefetchFailures key
                   (if hasRefreshedData refreshed then observePrefetch ''success'' s1 else s1))
        else scheduleFailedPolicyPrefetch draw jitter env key (Some c) refreshed refreshedAt s1
      else if usable_at (Some c) refreshedAt then
        let s1 = resetCachedPolicyPrefetchFailures key s in
        (case activePrefetchScheduler s1 of
           None \<Rightarrow> s1
         | Some sch \<Rightarrow>
             (case nextPrefetchTimeAfterMiss sch (Some c) refreshedAt of
                Some due \<Rightarrow> with_scheduler (schedule key due) s1
              | None \<Rightarrow> scheduleCachedPolicyPrefetch draw key (Some c) refreshedAt s1))
      else scheduleFailedPolicyPrefetch draw jitter env key (Some c) refreshed refreshedAt s)"

section \<open>What an operation on one key may change\<close>

definition scheduled :: "server \<Rightarrow> string \<rightharpoonup> time" where
  "scheduled s = (case activePrefetchScheduler s of None \<Rightarrow> Map.empty | Some sch \<Rightarrow> timetable sch)"

definition prefetching :: "server \<Rightarrow> bool" where
  "prefetching s \<longleftrightarrow> activePrefetchScheduler s \<noteq> None"

text \<open>The state stays well-formed and nothing but the entry and the schedule of \<open>k\<close> changes.\<close>

definition only_key :: "string \<Rightarrow> server \<Rightarrow> server \<Rightarrow> bool" where
  "only_key k s t \<longleftrightarrow> server_wf t \<and> prefetching t = prefetching s
     \<and> (\<forall>j. j \<noteq> k \<longrightarrow> cache_get j t = cache_get j s \<and> scheduled t j = scheduled s j)"

lemma only_key_trans: "only_key k s t \<Longrightarrow> only_key k t u \<Longrightarrow> only_key k s u"
  by (simp add: only_key_def)

lemma only_key_wf: "only_key k s t \<Longrightarrow> server_wf t" "only_key k s t \<Longrightarrow> prefetching t = prefetching s"
  by (simp_all add: only_key_def)

lemma only_key_other:
  "only_key k s t \<Longrightarrow> j \<noteq> k \<Longrightarrow> cache_get j t = cache_get j s"
  "only_key k s t \<Longrightarrow> j \<noteq> k \<Longrightarrow> scheduled t j = scheduled s j"
  by (simp_all add: only_key_def)

lemma only_key_store:
  assumes "server_wf s"
  shows "only_key k s s" "only_key k s (cache_set k cs s)" "only_key k s (cache_save env s)"
    "only_key k s (discardCachedPolicyState k c s)" "only_key k s (observePrefetch r s)"
  using assms
  by (simp_all add: only_key_def wf_state wf_discard wf_metrics prefetching_def scheduled_def discard_get)

lemma only_key_scheduler:
  assumes "server_wf s"
    and "\<And>sch. sched_wf sch \<Longrightarrow> sched_wf (f sch) \<and> (\<forall>j. j \<noteq> k \<longrightarrow> timetable (f sch) j = timetable sch j)"
  shows "only_key k s (with_scheduler f s)"
proof -
  have "server_wf (with_scheduler f s)" using assms by (auto intro: wf_with_scheduler)
  moreover have "scheduled (with_scheduler f s) j = scheduled s j" if "j \<noteq> k" for j
    using assms that by (cases "activePrefetchScheduler s") (auto simp: scheduled_def with_scheduler_def server_wf_def)
  ultimately show ?thesis by (simp add: only_key_def with_scheduler_def prefetching_def)
qed

lemma wf_scheduler: "server_wf s \<Longrightarrow> activePrefetchScheduler s = Some sch \<Longrightarrow> sched_wf sch"
  by (simp add: server_wf_def)

lemma only_key_put_del:
  "server_wf s \<Longrightarrow> only_key k s (with_scheduler (schedule k due) s)"
  "server_wf s \<Longrightarrow> only_key k s (with_scheduler (sched_remove k) s)"
  "server_wf s \<Longrightarrow> only_key k s (with_scheduler (resetFailures k) s)"
  by (auto intro!: only_key_scheduler simp: sched.tab_put sched.tab_del resetFailures_def)

lemma only_key_scheduleCached: "server_wf s \<Longrightarrow> only_key k s (scheduleCachedPolicyPrefetch draw k c now s)"
  unfolding scheduleCachedPolicyPrefetch_def
  by (rule only_key_scheduler) (auto simp: sched.tab_put sched.tab_del split: option.split)

lemma scheduleRetryUntil_other:
  assumes "sched_wf sch"
  shows "sched_wf (snd (scheduleRetryUntil k now grace sch))"
    "j \<noteq> k \<Longrightarrow> timetable (snd (scheduleRetryUntil k now grace sch)) j = timetable sch j"
    "snd (snd (snd (fst (scheduleRetryUntil k now grace sch)))) \<Longrightarrow> timetable (snd (scheduleRetryUntil k now grace sch)) k \<noteq> None"
proof -
  let ?r = "scheduleRetryUntil k now grace sch"
  show "sched_wf (snd ?r)" using assms by (rule scheduleRetryUntil_wf)
  have "timetable (scheduleLocked k due (sch\<lparr>failures := f\<rparr>)) = (timetable sch)(k \<mapsto> due)" for due f
    using scheduleLocked_ok(2) [of "sch\<lparr>failures := f\<rparr>" k due] assms by (simp add: frame_def)
  moreover note scheduleRetryUntil_cases [where key = k and now = now and grace = grace and s = sch]
  ultimately show "j \<noteq> k \<Longrightarrow> timetable (snd ?r) j = timetable sch j"
    "snd (snd (snd (fst ?r))) \<Longrightarrow> timetable (snd ?r) k \<noteq> None"
    using sched.tab_del [OF assms, of k] by (cases "retry_deadline k now grace sch \<le> now"; fastforce)+
qed

lemma retry_until_ok:
  assumes "server_wf s"
  shows "only_key k s (snd (retry_until k now grace s))"
    "cache_get j (snd (retry_until k now grace s)) = cache_get j s"
    "fst (retry_until k now grace s) \<Longrightarrow> scheduled (snd (retry_until k now grace s)) k \<noteq> None"
proof -
  show "cache_get j (snd (retry_until k now grace s)) = cache_get j s" for j
    by (simp add: retry_until_def Let_def split: option.split)
  moreover have "server_wf (snd (retry_until k now grace s))"
    using assms scheduleRetryUntil_wf
    by (auto simp: retry_until_def server_wf_def Let_def split: option.split)
  ultimately show "only_key k s (snd (retry_until k now grace s))"
    using assms scheduleRetryUntil_other(2)
    by (auto simp: only_key_def retry_until_def prefetching_def scheduled_def server_wf_def Let_def split: option.splits)
  show "fst (retry_until k now grace s) \<Longrightarrow> scheduled (snd (retry_until k now grace s)) k \<noteq> None"
    using assms scheduleRetryUntil_other(3)
    by (auto simp: retry_until_def scheduled_def server_wf_def Let_def split: option.splits)
qed

section \<open>Served policies stay scheduled\<close>

lemma HasData_served: "branch_RemainingTTL b now \<noteq> 0 \<Longrightarrow> branch_Age b now = 0"
  using branch_RemainingTTL_nonzero [of b now]
  by (auto simp: branch_Age_def time_Sub_def Let_def nanos_per_second_def)

lemma Expirable_served: "Expirable_RemainingTTL x now \<noteq> 0 \<Longrightarrow> Expirable_Age x now = 0"
proof -
  assume "Expirable_RemainingTTL x now \<noteq> 0"
  then have "0 < time_Sub (ex_ExpiresAt x) now"
    by (auto simp: Expirable_RemainingTTL_def Let_def seconds_u32_def split: if_splits) (metis div_0 linorder_neqE_linordered_idom of_int_0)
  then have "now < ex_ExpiresAt x" by (auto simp: time_Sub_def max_def min_def split: if_splits)
  then show ?thesis by (simp add: Expirable_Age_def Let_def time_Sub_def seconds_u32_def)
qed

text \<open>An entry that is served is not old.\<close>

lemma served_Age: "usable_at (Some e) now \<Longrightarrow> cs_Age (Some e) now = 0"
  using HasData_served [of "cs_Dane e" now] Expirable_served branch_RemainingTTL_no_data [of "cs_Dane e" now]
  by (auto simp: usable_at_def selectCachedPolicy_def cs_Age_def Let_def split: if_splits option.splits)

definition serves_policy :: "CacheStruct option \<Rightarrow> time \<Rightarrow> bool" where
  "serves_policy c now \<longleftrightarrow> usable_at c now \<and> fst (selectCachedPolicy c now) \<noteq> []"

lemma served_nextPrefetchTime:
  "serves_policy (Some e) now \<Longrightarrow>
   nextPrefetchTime draw sch (Some e) now =
     Some (nextPolicyPrefetchTime draw sch now (fst (snd (snd (selectCachedPolicy (Some e) now)))))"
  using served_Age [of e now]
  by (auto simp: serves_policy_def usable_at_def nextPrefetchTime_def policy_consts split_beta)

definition covered :: "string \<Rightarrow> time \<Rightarrow> server \<Rightarrow> bool" where
  "covered k now s \<longleftrightarrow> (serves_policy (map_option snd (cache_get k s)) now \<longrightarrow> scheduled s k \<noteq> None)"

lemma coveredI: "scheduled s k \<noteq> None \<Longrightarrow> covered k now s" "\<not> serves_policy (map_option snd (cache_get k s)) now \<Longrightarrow> covered k now s"
  by (simp_all add: covered_def)

lemma covered_frame: "cache_get k t = cache_get k s \<Longrightarrow> scheduled t k = scheduled s k \<Longrightarrow> covered k now t = covered k now s"
  by (simp add: covered_def)

lemma scheduled_put:
  assumes "server_wf s" "prefetching s"
  shows "scheduled (with_scheduler (\<lambda>sch. schedule k (due sch) sch) s) k \<noteq> None"
  using assms by (auto simp: scheduled_def with_scheduler_def prefetching_def server_wf_def sched.tab_put)

lemma cache_get_with_scheduler [simp]: "cache_get j (with_scheduler f s) = cache_get j s"
  by (simp add: with_scheduler_def)

lemma cache_get_scheduleCached [simp]: "cache_get j (scheduleCachedPolicyPrefetch draw k c now s) = cache_get j s"
  by (simp add: scheduleCachedPolicyPrefetch_def)

lemma scheduleCached_covers:
  assumes "server_wf s" "prefetching s" "map_option snd (cache_get k s) = Some c"
  shows "covered k now (scheduleCachedPolicyPrefetch draw k (Some c) now s)"
proof (cases "serves_policy (Some c) now")
  case True
  then have "scheduleCachedPolicyPrefetch draw k (Some c) now s = with_scheduler (\<lambda>sch. schedule k
      (nextPolicyPrefetchTime draw sch now (fst (snd (snd (selectCachedPolicy (Some c) now))))) sch) s"
    by (simp add: scheduleCachedPolicyPrefetch_def served_nextPrefetchTime)
  then show ?thesis using scheduled_put [OF assms(1,2)] by (simp add: coveredI)
qed (simp add: coveredI assms)

lemma not_served_stats: "\<not> serves_policy (Some (statsOnlyCacheEntry n)) now" "\<not> serves_policy None now"
  by (simp add: serves_policy_def usable_at_def statsOnly_not_served)
    (simp add: serves_policy_def usable_at_def selectCachedPolicy_def)

lemma discard_covers: "covered k now (discardCachedPolicyState k c s)"
  by (rule coveredI) (simp add: discard_get not_served_stats Let_def)

lemma scheduled_frame [simp]:
  "scheduled (cache_save env s) = scheduled s" "scheduled (observePrefetch r s) = scheduled s"
  "scheduled (cache_set k cs s) = scheduled s" "scheduled (discardCachedPolicyState k c s) = scheduled s"
  "prefetching (cache_save env s) = prefetching s" "prefetching (observePrefetch r s) = prefetching s"
  "prefetching (cache_set k cs s) = prefetching s"
  by (simp_all add: scheduled_def prefetching_def)

lemma discard_serves_other:
  assumes "cacheAfterFailedBranchDiscard jitter c result now = Some updated"
  shows "usable_at (Some updated) now"
proof -
  from assms obtain cs where cs: "failed_branch_cleared jitter c result now = Some cs" "usable_at (Some cs) now"
    and eq: "cs_Dane updated = cs_Dane cs" "cs_MtaSts updated = cs_MtaSts cs"
    by (auto simp: cacheAfterFailedBranchDiscard_def usable_at_def split: option.splits prod.splits if_splits)
  have "hasBranches (Some cs)"
    using cs(1) by (auto simp: failed_branch_cleared_def hasBranches_def recheck_branch_def expireBranch_def HasData_def
        emptyBranch_def policyBranchRecheckTTL_val Let_def split: option.splits if_splits)
  then show ?thesis using selectCachedPolicy_cong [OF eq] cs(2) by (simp add: usable_at_def)
qed

lemma only_key_failed:
  assumes wf: "server_wf s"
  shows "only_key k s (scheduleFailedPolicyPrefetch draw jitter env k c result now s)"
proof -
  let ?r = "retry_until k now (failedPolicyGraceDeadline c result) (observePrefetch ''failure'' s)"
  have r: "only_key k s (snd ?r)"
    using only_key_store(5) [OF wf, of k] retry_until_ok(1) only_key_wf(1) only_key_trans by meson
  then have w: "server_wf (snd ?r)" by (rule only_key_wf)
  have "only_key k (snd ?r) (cache_save env (with_scheduler (\<lambda>sch. case nextPrefetchTime draw sch (Some u) now of
      None \<Rightarrow> sch | Some due \<Rightarrow> schedule k due sch) (cache_set k u (observePrefetch ''discard'' (snd ?r)))))" for u
  proof -
    have "only_key k (snd ?r) (cache_set k u (observePrefetch ''discard'' (snd ?r)))"
      using w only_key_store(2,5) only_key_trans only_key_wf(1) by meson
    moreover have "only_key k t (with_scheduler (\<lambda>sch. case nextPrefetchTime draw sch (Some u) now of
      None \<Rightarrow> sch | Some due \<Rightarrow> schedule k due sch) t)" if "server_wf t" for t
      using that by (rule only_key_scheduler) (simp add: sched.tab_put split: option.split)
    ultimately show ?thesis using only_key_store(3) only_key_trans only_key_wf(1) by meson
  qed
  moreover have "only_key k (snd ?r) (cache_save env (observePrefetch ''discard'' (discardCachedPolicyState k c (snd ?r))))"
    using w only_key_store(3,4,5) only_key_trans only_key_wf(1) by meson
  ultimately show ?thesis
    using r by (auto simp: scheduleFailedPolicyPrefetch_def Let_def split: option.split intro: only_key_trans)
qed

lemma failed_covers:
  assumes "server_wf s" "prefetching s"
  shows "covered k now (scheduleFailedPolicyPrefetch draw jitter env k c result now s)"
proof -
  let ?r = "retry_until k now (failedPolicyGraceDeadline c result) (observePrefetch ''failure'' s)"
  have wf: "server_wf (observePrefetch ''failure'' s)" using assms by (simp add: wf_metrics)
  note r = retry_until_ok(1,3) [OF wf, of k now "failedPolicyGraceDeadline c result"]
  have w: "server_wf (snd ?r)" and p: "prefetching (snd ?r)"
    using r(1) assms(2) by (auto dest: only_key_wf)
  show ?thesis
  proof (cases "fst ?r")
    case True
    then show ?thesis using r(2) by (intro coveredI(1)) (simp add: scheduleFailedPolicyPrefetch_def Let_def)
  next
    case nr: False
    show ?thesis
    proof (cases "cacheAfterFailedBranchDiscard jitter c result now")
      case None
      then show ?thesis
        using nr discard_covers [of k now c "snd ?r"]
        by (simp add: scheduleFailedPolicyPrefetch_def Let_def covered_def)
    next
      case (Some u)
      let ?t = "cache_set k u (observePrefetch ''discard'' (snd ?r))"
      have t: "server_wf ?t" "prefetching ?t" using w p by (simp_all add: wf_cache_set wf_metrics)
      have "covered k now (with_scheduler (\<lambda>sch. case nextPrefetchTime draw sch (Some u) now of
          None \<Rightarrow> sch | Some due \<Rightarrow> schedule k due sch) ?t)"
      proof (cases "serves_policy (Some u) now")
        case True
        then show ?thesis using scheduled_put [OF t] by (intro coveredI(1)) (simp add: served_nextPrefetchTime)
      qed (simp add: covered_def)
      then show ?thesis using nr Some by (simp add: scheduleFailedPolicyPrefetch_def Let_def covered_def)
    qed
  qed
qed

lemma unschedule_covers: "covered k now (unscheduleCachedPolicyPrefetch k (discardCachedPolicyState k c s))"
  using discard_covers [of k now c s]
  by (simp add: covered_def unscheduleCachedPolicyPrefetch_def discard_get not_served_stats Let_def)

lemma only_key_unschedule:
  "server_wf s \<Longrightarrow> only_key k s (unscheduleCachedPolicyPrefetch k (discardCachedPolicyState k c s))"
  unfolding unscheduleCachedPolicyPrefetch_def
  using only_key_store(4) only_key_put_del(2) only_key_trans only_key_wf(1) by meson

lemma covered_absent: "cache_get k s = None \<Longrightarrow> covered k now s"
  by (simp add: covered_def not_served_stats)

lemma select_ok:
  assumes wf: "server_wf s" and p: "prefetching s"
  shows "only_key k s (snd (prefetch_select draw now k s))"
    and "fst (prefetch_select draw now k s) = None \<Longrightarrow> covered k now (snd (prefetch_select draw now k s))"
    and "fst (prefetch_select draw now k s) = Some e \<Longrightarrow> cache_get k s = Some e \<and> snd (prefetch_select draw now k s) = s"
proof -
  show "only_key k s (snd (prefetch_select draw now k s))"
    using only_key_store(1) [OF wf] only_key_unschedule [OF wf] only_key_scheduleCached [OF wf]
    by (simp add: prefetch_select_def Let_def split_beta split: option.split)
  have "covered k now (scheduleCachedPolicyPrefetch draw k (Some (snd c)) now s)" if "cache_get k s = Some c" for c
    using that by (intro scheduleCached_covers [OF wf p]) simp
  then show "fst (prefetch_select draw now k s) = None \<Longrightarrow> covered k now (snd (prefetch_select draw now k s))"
    using covered_absent [of k s now] unschedule_covers
    by (cases "cache_get k s") (simp_all add: prefetch_select_def Let_def split_beta split: if_splits)
  show "fst (prefetch_select draw now k s) = Some e \<Longrightarrow> cache_get k s = Some e \<and> snd (prefetch_select draw now k s) = s"
    by (cases "cache_get k s") (auto simp: prefetch_select_def Let_def split_beta split: if_splits)
qed

lemma resetFailures_ok:
  assumes "server_wf s"
  shows "only_key k s (resetCachedPolicyPrefetchFailures k s)"
    "cache_get j (resetCachedPolicyPrefetchFailures k s) = cache_get j s"
  unfolding resetCachedPolicyPrefetchFailures_def using only_key_put_del(3) [OF assms] by simp_all

lemma only_key_refresh:
  assumes wf: "server_wf s"
  shows "only_key k s (prefetch_refresh draw mj jitter env k c refreshed t s)"
proof -
  let ?m = "mergeCacheResult mj (Some c) refreshed t"
  have set: "only_key k s (cache_set k ?m s)" "only_key k s (observePrefetch ''success'' (cache_set k ?m s))"
    using wf only_key_store(2,5) only_key_trans only_key_wf(1) by meson+
  have sched: "only_key k s (scheduleCachedPolicyPrefetch draw k c' t (resetCachedPolicyPrefetchFailures k u))"
    if "only_key k s u" for c' u
    using that resetFailures_ok(1) only_key_scheduleCached only_key_trans only_key_wf(1) by meson
  have failed: "only_key k s (scheduleFailedPolicyPrefetch draw jitter env k c' refreshed t u)" if "only_key k s u" for c' u
    using that only_key_failed only_key_trans only_key_wf(1) by meson
  have miss: "only_key k s (with_scheduler (schedule k due) (resetCachedPolicyPrefetchFailures k s))" for due
    using wf resetFailures_ok(1) only_key_put_del(1) only_key_trans only_key_wf(1) by meson
  show ?thesis
    using set sched failed miss resetFailures_ok(1) [OF wf] only_key_store(1) [OF wf]
    by (auto simp: prefetch_refresh_def Let_def split: option.split)
qed

lemma refresh_covers:
  assumes wf: "server_wf s" and p: "prefetching s" and c: "cache_get k s = Some e"
  shows "covered k t (prefetch_refresh draw mj jitter env k (snd e) refreshed t s)"
proof -
  let ?m = "mergeCacheResult mj (Some (snd e)) refreshed t"
  let ?s1 = "cache_set k ?m s"
  have s1: "server_wf ?s1" "prefetching ?s1" using wf p by (simp_all add: wf_cache_set)
  have failed: "covered k t (scheduleFailedPolicyPrefetch draw jitter env k c' refreshed t u)"
    if "u = s \<or> u = ?s1" for c' u
    using that s1 wf p failed_covers by blast
  have sched: "covered k t (scheduleCachedPolicyPrefetch draw k (Some c') t (resetCachedPolicyPrefetchFailures k u))"
    if "server_wf u" "prefetching u" "map_option snd (cache_get k u) = Some c'" for c' u
    using that resetFailures_ok [of u k] only_key_wf by (intro scheduleCached_covers) fastforce+
  have obs: "server_wf (observePrefetch ''success'' ?s1)" using s1 by (simp add: wf_metrics)
  have miss: "covered k t (with_scheduler (schedule k due) (resetCachedPolicyPrefetchFailures k s))" for due
    using resetFailures_ok(1) [OF wf, of k] p only_key_wf scheduled_put [of _ k "\<lambda>_. due"] by (intro coveredI(1)) blast
  have "activePrefetchScheduler (resetCachedPolicyPrefetchFailures k s) \<noteq> None"
    using p by (simp add: resetCachedPolicyPrefetchFailures_def with_scheduler_def prefetching_def)
  then show ?thesis
    using failed sched [OF s1] sched [OF obs] sched [OF wf p] s1(2) miss c
    by (auto simp: prefetch_refresh_def Let_def split: option.split)
qed

section \<open>Batches\<close>

text \<open>
  \<^verbatim>\<open>prefetchDuePoliciesContext\<close> as interleaved steps: the loop takes the due keys one by one, blocks on the
  semaphore (of capacity \<open>cap\<close>) before it starts a refresh, and the refreshes end in any order, each with
  whatever its lookup returned. Meanwhile the rest of the server may work on other keys. The
  context may be cancelled at any time. \<open>b_done\<close> records when each key was settled.
\<close>

record batch =
  b_server :: server
  b_keys :: "string list"
  b_waiting :: "(string \<times> entry) option"
  b_running :: "(string \<times> entry) list"
  b_cancelled :: bool
  b_done :: "string \<rightharpoonup> time"

definition batch_start :: "time \<Rightarrow> server \<Rightarrow> batch" where
  "batch_start now s =
     (case activePrefetchScheduler s of
        None \<Rightarrow> \<lparr>b_server = s, b_keys = [], b_waiting = None, b_running = [], b_cancelled = False, b_done = Map.empty\<rparr>
      | Some sch \<Rightarrow>
          (let r = popDue now sch in
           \<lparr>b_server = s\<lparr>activePrefetchScheduler := Some (snd r)\<rparr>, b_keys = fst r, b_waiting = None, b_running = [],
            b_cancelled = False, b_done = Map.empty\<rparr>))"

definition open_keys :: "batch \<Rightarrow> string list" where
  "open_keys b = b_keys b @ (case b_waiting b of None \<Rightarrow> [] | Some w \<Rightarrow> [fst w]) @ map fst (b_running b)"

inductive batch_step :: "nat \<Rightarrow> time \<Rightarrow> batch \<Rightarrow> batch \<Rightarrow> bool" for cap now where
  settle: "b_waiting b = None \<Longrightarrow> b_keys b = k # ks \<Longrightarrow> prefetch_select draw now k (b_server b) = (None, s) \<Longrightarrow>
    batch_step cap now b (b\<lparr>b_server := s, b_keys := ks, b_done := (b_done b)(k \<mapsto> now)\<rparr>)"
| choose: "b_waiting b = None \<Longrightarrow> b_keys b = k # ks \<Longrightarrow> prefetch_select draw now k (b_server b) = (Some e, s) \<Longrightarrow>
    batch_step cap now b (b\<lparr>b_server := s, b_keys := ks, b_waiting := Some (k, e)\<rparr>)"
| acquire: "b_waiting b = Some w \<Longrightarrow> length (b_running b) < cap \<Longrightarrow>
    batch_step cap now b (b\<lparr>b_waiting := None, b_running := b_running b @ [w]\<rparr>)"
| finish: "b_running b = xs @ (k, e) # ys \<Longrightarrow>
    batch_step cap now b (b\<lparr>b_server := prefetch_refresh draw mj jitter env k (snd e) refreshed t (b_server b),
      b_running := xs @ ys, b_done := (b_done b)(k \<mapsto> t)\<rparr>)"
| cancel: "b_keys b \<noteq> [] \<or> b_waiting b \<noteq> None \<Longrightarrow> batch_step cap now b (b\<lparr>b_keys := [], b_waiting := None, b_cancelled := True\<rparr>)"

inductive_cases batch_stepE: "batch_step cap now b b'"

text \<open>A batch among the other goroutines.\<close>

inductive batch_run :: "nat \<Rightarrow> time \<Rightarrow> server \<Rightarrow> batch \<Rightarrow> bool" for cap now s0 where
  start: "batch_run cap now s0 (batch_start now s0)"
| step: "batch_run cap now s0 b \<Longrightarrow> batch_step cap now b b' \<Longrightarrow> batch_run cap now s0 b'"
| other: "batch_run cap now s0 b \<Longrightarrow> only_key j (b_server b) s \<Longrightarrow> j \<notin> set (open_keys b) \<union> dom (b_done b) \<Longrightarrow>
    batch_run cap now s0 (b\<lparr>b_server := s\<rparr>)"

definition held :: "batch \<Rightarrow> (string \<times> entry) set" where
  "held b = set_option (b_waiting b) \<union> set (b_running b)"

definition batch_inv :: "nat \<Rightarrow> string set \<Rightarrow> batch \<Rightarrow> bool" where
  "batch_inv cap K b \<longleftrightarrow> server_wf (b_server b) \<and> prefetching (b_server b) \<and> distinct (open_keys b)
     \<and> set (open_keys b) \<inter> dom (b_done b) = {} \<and> length (b_running b) \<le> cap
     \<and> (\<forall>(k, e) \<in> held b. cache_get k (b_server b) = Some e)
     \<and> (\<forall>k t. b_done b k = Some t \<longrightarrow> covered k t (b_server b))
     \<and> (b_cancelled b \<or> set (open_keys b) \<union> dom (b_done b) = K)"

lemma batch_inv_start:
  assumes "server_wf s" "activePrefetchScheduler s = Some sch"
  shows "batch_inv cap {k. \<exists>d. timetable sch k = Some d \<and> d \<le> now} (batch_start now s)"
  using assms popDue_ok [of sch now]
  by (auto simp: batch_inv_def batch_start_def server_wf_def open_keys_def held_def prefetching_def Let_def)

text \<open>An operation on one key keeps what the invariant says of the others.\<close>

lemma held_other:
  assumes "\<forall>(k, e) \<in> H. cache_get k s = Some e" "only_key j s t" "j \<notin> fst ` H"
  shows "\<forall>(k, e) \<in> H. cache_get k t = Some e"
proof (intro ballI, clarify)
  fix k ref c
  assume k: "(k, ref, c) \<in> H"
  then have "k \<noteq> j" using assms(3) by (metis fst_conv image_eqI)
  then show "cache_get k t = Some (ref, c)" using only_key_other(1) [OF assms(2)] assms(1) k by auto
qed

lemma done_other:
  assumes "\<forall>k t. D k = Some t \<longrightarrow> covered k t s" "only_key j s u" "j \<notin> dom D"
  shows "\<forall>k t. D k = Some t \<longrightarrow> covered k t u"
proof (intro allI impI)
  fix k t
  assume k: "D k = Some t"
  then have "k \<noteq> j" using assms(3) by auto
  then have "covered k t u = covered k t s" using only_key_other [OF assms(2)] by (intro covered_frame) simp_all
  then show "covered k t u" using assms(1) k by simp
qed

lemma open_keys_simps:
  "b_waiting b = None \<Longrightarrow> open_keys b = b_keys b @ map fst (b_running b)"
  "b_waiting b = Some w \<Longrightarrow> open_keys b = b_keys b @ fst w # map fst (b_running b)"
  by (simp_all add: open_keys_def)

lemma held_open: "fst ` held b \<subseteq> set (open_keys b)"
  by (auto simp: held_def open_keys_def split: option.splits)

lemma batch_inv_settled:
  assumes inv: "batch_inv cap K b" and o: "only_key k (b_server b) (b_server b')" "covered k t (b_server b')"
    and keys: "open_keys b = us @ k # vs" "open_keys b' = us @ vs" "held b' \<subseteq> held b"
    and b': "b_done b' = (b_done b)(k \<mapsto> t)" "b_cancelled b' = b_cancelled b" "length (b_running b') \<le> length (b_running b)"
  shows "batch_inv cap K b'"
proof -
  note inv = inv [unfolded batch_inv_def]
  have "k \<notin> set (open_keys b')" using inv keys by simp
  then have "k \<notin> fst ` held b'" using held_open [of b'] by blast
  moreover have "\<forall>(j, e) \<in> held b'. cache_get j (b_server b) = Some e" using inv keys(3) by blast
  ultimately have "\<forall>(j, e) \<in> held b'. cache_get j (b_server b') = Some e" using held_other o(1) by blast
  moreover have "\<forall>j t. b_done b j = Some t \<longrightarrow> covered j t (b_server b')"
    using inv keys(1) by (intro done_other [OF _ o(1)]) auto
  then have "\<forall>j u. b_done b' j = Some u \<longrightarrow> covered j u (b_server b')" using o(2) b'(1) by simp
  moreover have "distinct (open_keys b')" "set (open_keys b') \<inter> dom (b_done b') = {}"
    "set (open_keys b') \<union> dom (b_done b') = set (open_keys b) \<union> dom (b_done b)"
    using inv keys b'(1) by auto
  ultimately show ?thesis
    using inv only_key_wf [OF o(1)] b'(2,3) by (simp add: batch_inv_def)
qed

lemma batch_inv_step:
  assumes "batch_inv cap K b" "batch_step cap now b b'"
  shows "batch_inv cap K b'"
proof -
  note inv = assms(1) [unfolded batch_inv_def]
  from assms(2) show ?thesis
  proof cases
    case (settle k ks draw s)
    have "only_key k (b_server b) s" "covered k now s"
      using settle(4) inv select_ok(1,2) [where s = "b_server b" and k = k and draw = draw and now = now] by simp_all
    with settle show ?thesis
      by (intro batch_inv_settled [OF assms(1), where us = "[]" and k = k and t = now and vs = "ks @ map fst (b_running b)"])
        (simp_all add: open_keys_simps held_def)
  next
    case (choose k ks draw e s)
    have "cache_get k (b_server b) = Some e" "s = b_server b"
      using choose(4) inv select_ok(3) [where s = "b_server b" and k = k and draw = draw and now = now and e = e] by simp_all
    with choose inv show ?thesis by (simp add: batch_inv_def open_keys_simps held_def insert_commute Un_commute)
  next
    case (acquire w)
    with inv show ?thesis by (cases w) (simp add: batch_inv_def open_keys_simps held_def insert_commute Un_commute)
  next
    case (finish xs k e ys t draw mj jitter env refreshed)
    let ?s = "prefetch_refresh draw mj jitter env k (snd e) refreshed t (b_server b)"
    have "cache_get k (b_server b) = Some e" using inv finish(2) by (auto simp: held_def)
    then have "only_key k (b_server b) ?s" "covered k t ?s"
      using inv by (simp_all add: only_key_refresh refresh_covers)
    with finish show ?thesis
      by (intro batch_inv_settled [OF assms(1), where k = k and t = t and vs = "map fst ys"
            and us = "b_keys b @ (case b_waiting b of None \<Rightarrow> [] | Some w \<Rightarrow> [fst w]) @ map fst xs"])
        (auto simp: open_keys_def held_def)
  next
    case cancel
    with inv show ?thesis by (auto simp: batch_inv_def open_keys_def held_def split: option.splits)
  qed
qed

lemma batch_inv_run:
  assumes "server_wf s0" "activePrefetchScheduler s0 = Some sch" "batch_run cap now s0 b"
  shows "batch_inv cap {k. \<exists>d. timetable sch k = Some d \<and> d \<le> now} b"
  using assms(3)
proof induction
  case start
  show ?case using assms(1,2) by (rule batch_inv_start)
next
  case (step b b')
  then show ?case using batch_inv_step by blast
next
  case (other b j s)
  note inv = other.IH [unfolded batch_inv_def]
  have "\<forall>(k, e) \<in> held b. cache_get k s = Some e"
    using held_other inv other.hyps(2,3) held_open [of b] by blast
  moreover have "\<forall>k t. b_done b k = Some t \<longrightarrow> covered k t s" using done_other inv other.hyps(2,3) by blast
  ultimately show ?case
    using inv only_key_wf [OF other.hyps(2)] by (simp add: batch_inv_def open_keys_def held_def)
qed

text \<open>Every step of the batch brings it closer to its end.\<close>

fun batch_size :: "batch \<Rightarrow> nat" where
  "batch_size b = 3 * length (b_keys b) + (if b_waiting b = None then 0 else 2) + length (b_running b)"

lemma batch_step_smaller: "batch_step cap now b b' \<Longrightarrow> batch_size b' < batch_size b"
  by (induction rule: batch_step.induct) auto

lemma batch_step_possible:
  assumes "0 < cap" "open_keys b \<noteq> []"
  shows "\<exists>b'. batch_step cap now b b' \<and> b_cancelled b' = b_cancelled b"
proof (cases "b_waiting b")
  case None
  show ?thesis
  proof (cases "b_keys b")
    case Nil
    then have "b_running b \<noteq> []" using assms(2) None by (simp add: open_keys_simps)
    then obtain k e xs where "b_running b = [] @ (k, e) # xs" by (cases "b_running b") auto
    from batch_step.finish [OF this, where cap = cap and now = now] show ?thesis by fastforce
  next
    case (Cons k ks)
    obtain r s where r: "prefetch_select 0 now k (b_server b) = (r, s)" by fastforce
    show ?thesis
    proof (cases r)
      case None': None
      from batch_step.settle [OF None Cons r [unfolded None'], where cap = cap] show ?thesis by fastforce
    next
      case (Some e)
      from batch_step.choose [OF None Cons r [unfolded Some], where cap = cap] show ?thesis by fastforce
    qed
  qed
next
  case (Some w)
  show ?thesis
  proof (cases "length (b_running b) < cap")
    case True
    from batch_step.acquire [OF Some True, where now = now] show ?thesis by fastforce
  next
    case False
    then obtain k e xs where "b_running b = [] @ (k, e) # xs" using assms(1) by (cases "b_running b") auto
    from batch_step.finish [OF this, where cap = cap and now = now] show ?thesis by fastforce
  qed
qed

section \<open>Refresh times\<close>

lemma secs_interval: "secs PREFETCH_INTERVAL = 30 * nanos_per_second"
  by (simp add: secs_def PREFETCH_INTERVAL_def)

lemma secs_minus:
  assumes "PREFETCH_INTERVAL < ttl"
  shows "secs (ttl - PREFETCH_INTERVAL) = secs ttl - 30 * nanos_per_second"
proof -
  have "uint (30 :: u32) \<le> uint ttl" using assms by (simp add: PREFETCH_INTERVAL_def word_less_def)
  moreover have "uint ttl < 2 ^ 32" using uint_lt2p [of ttl] by simp
  moreover have "uint (ttl - 30) = (uint ttl - 30) mod 2 ^ 32" by (simp add: uint_word_ariths)
  ultimately have "uint (ttl - 30) = uint ttl - 30" by simp
  then show ?thesis by (simp add: secs_def PREFETCH_INTERVAL_def nanos_per_second_def)
qed

lemma slots_ge_1:
  assumes "11 \<le> uint ttl"
  shows "\<not> go_quot (if secs ttl > secs PREFETCH_INTERVAL then secs PREFETCH_INTERVAL else secs ttl) PREFETCH_SLOT_INTERVAL < 1"
  using assms by (auto simp: secs_def PREFETCH_INTERVAL_def slot_consts go_quot_def not_less)

lemma batchAtOrBefore_some:
  assumes "batchTime s 0 \<le> t" "t < batchOrigin s + sched_horizon"
  shows "\<exists>r. batchAtOrBefore s t = Some r"
proof -
  have "batchOrigin s \<le> t" using assms(1) batchTime_bounds(1) [of 0 s] by simp
  from slot_index(1) [OF this assms(2)]
  have "0 \<le> go_quot (time_Sub t (batchOrigin s)) PREFETCH_SLOT_INTERVAL" .
  then show ?thesis
    using assms(1) by (cases "go_quot (time_Sub t (batchOrigin s)) PREFETCH_SLOT_INTERVAL = 0")
      (auto simp: batchAtOrBefore_def time_Before_def time_After_def Let_def)
qed

lemma nextPolicyPrefetchTime_window:
  assumes ttl: "11 \<le> uint ttl" and first: "batchTime s 0 \<le> now + secs ttl"
    and hor: "now + secs ttl < batchOrigin s + sched_horizon"
  shows "now \<le> nextPolicyPrefetchTime draw s now ttl"
    "now + secs ttl - 30 * nanos_per_second \<le> nextPolicyPrefetchTime draw s now ttl"
    "nextPolicyPrefetchTime draw s now ttl \<le> now + secs ttl"
proof -
  let ?E = "now + secs ttl"
  obtain r where r: "batchAtOrBefore s ?E = Some r" using batchAtOrBefore_some [OF first hor] by blast
  note rb = batchAtOrBefore_bounds [OF hor r]
  have pos: "11 * nanos_per_second \<le> secs ttl" using ttl by (simp add: secs_def nanos_per_second_def)
  define earliest where "earliest = (if ttl > PREFETCH_INTERVAL then time_Add now (secs (ttl - PREFETCH_INTERVAL)) else now)"
  have e: "now \<le> earliest" "?E - 30 * nanos_per_second \<le> earliest" "earliest \<le> max now (?E - 30 * nanos_per_second)"
  proof -
    have "secs ttl \<le> 30 * nanos_per_second" if "\<not> PREFETCH_INTERVAL < ttl"
      using that by (simp add: secs_def PREFETCH_INTERVAL_def not_less word_le_def nanos_per_second_def)
    moreover have "30 * nanos_per_second \<le> secs ttl" if "PREFETCH_INTERVAL < ttl"
      using that by (simp add: secs_def PREFETCH_INTERVAL_def word_less_def nanos_per_second_def)
    ultimately show "now \<le> earliest" "?E - 30 * nanos_per_second \<le> earliest" "earliest \<le> max now (?E - 30 * nanos_per_second)"
      using secs_minus [of ttl] by (auto simp: earliest_def time_Add_def)
  qed
  have er: "earliest \<le> r" using e(3) rb(2) pos by (auto simp: slot_consts)
  have eh: "earliest < batchOrigin s + sched_horizon" using er rb(1) hor by linarith
  define lead where "lead = int (rand_IntN draw (nat (go_quot (if secs ttl > secs PREFETCH_INTERVAL
    then secs PREFETCH_INTERVAL else secs ttl) PREFETCH_SLOT_INTERVAL)) + 1) * PREFETCH_SLOT_INTERVAL"
  define due1 where "due1 = (if time_Before (batchAtOrAfter s (time_Add ?E (- lead))) earliest
    then batchAtOrAfter s earliest else batchAtOrAfter s (time_Add ?E (- lead)))"
  have d1: "earliest \<le> due1" using batchAtOrAfter_bounds(1) [OF eh] by (auto simp: due1_def time_Before_def)
  have "nextPolicyPrefetchTime draw s now ttl = (let due2 = (if time_After due1 ?E then r else due1) in
      if time_Before due2 now then batchAtOrAfter s now else due2)"
    using slots_ge_1 [OF ttl] r
    by (simp add: nextPolicyPrefetchTime_def Let_def time_Add_def due1_def earliest_def lead_def)
  then have "nextPolicyPrefetchTime draw s now ttl = (if ?E < due1 then r else due1)"
    using d1 er e(1) by (simp add: time_Before_def time_After_def Let_def)
  then show "now \<le> nextPolicyPrefetchTime draw s now ttl"
    "now + secs ttl - 30 * nanos_per_second \<le> nextPolicyPrefetchTime draw s now ttl"
    "nextPolicyPrefetchTime draw s now ttl \<le> now + secs ttl"
    using d1 er e rb(1) by auto
qed

section \<open>Properties\<close>

text \<open>C23. A cached policy is refreshed in the last thirty seconds of its lifetime, never after it ended and
  never in the past, whatever slot is drawn: for a lifetime of at least eleven seconds that ends after the
  first batch of the scheduler.\<close>

theorem refresh_is_due_before_expiry:
  assumes "11 \<le> uint ttl" "batchTime s 0 \<le> now + secs ttl" "now + secs ttl < batchOrigin s + sched_horizon"
  shows "max now (now + secs ttl - 30 * nanos_per_second) \<le> nextPolicyPrefetchTime draw s now ttl
    \<and> nextPolicyPrefetchTime draw s now ttl \<le> now + secs ttl"
  using nextPolicyPrefetchTime_window [OF assms] by simp

theorem refresh_is_due_before_expiry_witness:
  "nextPolicyPrefetchTime 2 (newPrefetchSchedulerAt 0 7) 0 600 \<le> secs 600"
proof -
  have "batchTime (newPrefetchSchedulerAt 0 7) 0 \<le> 11 * nanos_per_second"
    using batchTime_bounds(2) [of 0 "newPrefetchSchedulerAt 0 7"] by (simp add: newPrefetchSchedulerAt_def time_Add_def slot_consts)
  then show ?thesis
    using refresh_is_due_before_expiry [of 600 "newPrefetchSchedulerAt 0 7" 0 2]
    by (simp add: secs_def newPrefetchSchedulerAt_def time_Add_def slot_consts sched_horizon_def)
qed

definition fresh_policy :: "PolicyBranch \<Rightarrow> time \<Rightarrow> bool" where
  "fresh_policy b now \<longleftrightarrow> pb_Policy b \<noteq> [] \<and> branch_RemainingTTL b now \<noteq> 0"

definition dane_failed :: "domainResult \<Rightarrow> bool" where
  "dane_failed r \<longleftrightarrow> dr_DaneAttempted r \<and> \<not> HasData (dr_Dane r)"

definition mtasts_failed :: "domainResult \<Rightarrow> bool" where
  "mtasts_failed r \<longleftrightarrow> dr_MtaStsAttempted r \<and> \<not> HasData (dr_MtaSts r)"

lemma recheck_branch_fresh:
  assumes "jitter < 20"
  shows "branch_RemainingTTL (recheck_branch jitter now) now \<noteq> 0" "pb_Policy (recheck_branch jitter now) = []"
  using assms jitter_no_overflow(1) [of "86400" jitter]
  by (simp_all add: recheck_branch_def RemainingTTL_expireBranch policyBranchRecheckTTL_val policy_consts emptyBranch_def)

lemma cleared_cases:
  "failed_branch_cleared jitter (Some e) result now =
     (if dane_failed result \<and> fresh_policy (cs_MtaSts e) now
      then Some ((cloneCacheStruct (Some e))\<lparr>cs_Dane := recheck_branch jitter now, cs_DaneLastAttempt := now\<rparr>)
      else if mtasts_failed result \<and> fresh_policy (cs_Dane e) now
      then Some ((cloneCacheStruct (Some e))\<lparr>cs_MtaSts := recheck_branch jitter now, cs_MtaStsLastAttempt := now\<rparr>)
      else None)"
  by (simp add: failed_branch_cleared_def dane_failed_def mtasts_failed_def fresh_policy_def Let_def)

lemma cleared_select:
  assumes "jitter < 20" "failed_branch_cleared jitter (Some e) result now = Some cs"
  shows "hasBranches (Some cs)" "usable_at (Some cs) now"
    "selection_view (selectCachedPolicy (Some cs) now) =
      (if dane_failed result \<and> fresh_policy (cs_MtaSts e) now then cached_view (cs_MtaSts e) now else cached_view (cs_Dane e) now)"
proof -
  note r = recheck_branch_fresh [OF assms(1), of now]
  have d: "HasData (recheck_branch jitter now)" using branch_RemainingTTL_nonzero(1) [OF r(1)] .
  show hb: "hasBranches (Some cs)"
    using assms(2) d by (auto simp: cleared_cases hasBranches_def split: if_splits)
  show "selection_view (selectCachedPolicy (Some cs) now) =
      (if dane_failed result \<and> fresh_policy (cs_MtaSts e) now then cached_view (cs_MtaSts e) now else cached_view (cs_Dane e) now)"
    using assms(2) r by (auto simp: selection_view_cached [OF hb] cleared_cases cached_view_def policy_view_def fresh_policy_def
        split: if_splits)
  then show "usable_at (Some cs) now"
    using assms(2) by (auto simp: selection_view_def usable_at_def cached_view_def policy_view_def fresh_policy_def cleared_cases
        split: if_splits prod.splits)
qed

text \<open>C22. When a lookup keeps failing, the policy of the other mechanism survives: the failed branch is
  cleared exactly when the other one holds a fresh policy, the cleared entry then serves
  that policy and keeps its branch, and the failed branch holds none. Otherwise the whole entry is given up.\<close>

theorem failed_branch_discard_keeps_other_policy:
  assumes "jitter < 20"
  shows "case cacheAfterFailedBranchDiscard jitter (Some e) result now of
     None \<Rightarrow> \<not> (dane_failed result \<and> fresh_policy (cs_MtaSts e) now) \<and> \<not> (mtasts_failed result \<and> fresh_policy (cs_Dane e) now)
   | Some u \<Rightarrow>
       if dane_failed result \<and> fresh_policy (cs_MtaSts e) now
       then cs_MtaSts u = cs_MtaSts e \<and> pb_Policy (cs_Dane u) = []
         \<and> selection_view (selectCachedPolicy (Some u) now) = PolicyIs (pb_Policy (cs_MtaSts e)) (pb_Report (cs_MtaSts e))
       else mtasts_failed result \<and> cs_Dane u = cs_Dane e \<and> pb_Policy (cs_MtaSts u) = []
         \<and> selection_view (selectCachedPolicy (Some u) now) = PolicyIs (pb_Policy (cs_Dane e)) (pb_Report (cs_Dane e))"
proof (cases "failed_branch_cleared jitter (Some e) result now")
  case None
  then show ?thesis by (auto simp: cacheAfterFailedBranchDiscard_def cleared_cases split: if_splits)
next
  case (Some cs)
  note c = cleared_select [OF assms Some]
  obtain p r ttl where sel: "selectCachedPolicy (Some cs) now = (p, r, ttl, True)"
    using c(2) by (cases "selectCachedPolicy (Some cs) now") (auto simp: usable_at_def)
  define u where "u = cs\<lparr>cs_Policy := p, cs_Report := r, cs_TTL := ttl,
      cs_Expirable := map_option (\<lambda>x. x\<lparr>ex_ExpiresAt := time_Add now (secs ttl)\<rparr>) (cs_Expirable cs)\<rparr>"
  have u: "cacheAfterFailedBranchDiscard jitter (Some e) result now = Some u"
    using Some sel by (simp add: cacheAfterFailedBranchDiscard_def u_def)
  have "selectCachedPolicy (Some u) now = selectCachedPolicy (Some cs) now"
    by (rule selectCachedPolicy_cong) (simp_all add: u_def c(1))
  moreover have "cs_Dane u = cs_Dane cs" "cs_MtaSts u = cs_MtaSts cs" by (simp_all add: u_def)
  ultimately show ?thesis
    using u c(3) Some recheck_branch_fresh(2) [OF assms, of now]
    by (auto simp: cleared_cases cached_view_def policy_view_def fresh_policy_def split: if_splits)
qed

definition sample_mtasts_entry :: CacheStruct where
  "sample_mtasts_entry = (statsOnlyCacheEntry 1)\<lparr>cs_MtaSts := \<lparr>pb_ExpiresAt = 600 * nanos_per_second,
     pb_Policy = ''secure match=a.b'', pb_Report = [], pb_TTL = 600\<rparr>\<rparr>"

definition sample_dane_failure :: domainResult where
  "sample_dane_failure = \<lparr>dr_Policy = ''TEMP'', dr_Report = [], dr_Dane = emptyBranch, dr_MtaSts = emptyBranch, dr_TTL = 0,
     dr_DaneTemp = True, dr_DaneAttempted = True, dr_MtaStsAttempted = False\<rparr>"

theorem failed_branch_discard_keeps_other_policy_witness:
  "\<exists>u. cacheAfterFailedBranchDiscard 3 (Some sample_mtasts_entry) sample_dane_failure 0 = Some u
     \<and> selection_view (selectCachedPolicy (Some u) 0) = PolicyIs ''secure match=a.b'' []"
proof -
  have "seconds_u32 (600 * nanos_per_second) = 600" by (simp add: seconds_u32_def nanos_per_second_def)
  then have f: "dane_failed sample_dane_failure" "fresh_policy (cs_MtaSts sample_mtasts_entry) 0"
    "pb_Policy (cs_MtaSts sample_mtasts_entry) = ''secure match=a.b''" "pb_Report (cs_MtaSts sample_mtasts_entry) = []"
    by (simp_all add: dane_failed_def sample_dane_failure_def fresh_policy_def sample_mtasts_entry_def
        branch_RemainingTTL_def HasData_def time_Sub_def nanos_per_second_def emptyBranch_def time_IsZero_def)
  from failed_branch_discard_keeps_other_policy [where jitter = 3 and e = sample_mtasts_entry
      and result = sample_dane_failure and now = 0] f
  show ?thesis by (auto split: option.splits)
qed


definition sample_server :: server where
  "sample_server = \<lparr>polCache = Cache_New ''c'' (\<lambda>_. None), cacheFiles = (\<lambda>_. None), cacheHitCounters = [],
     activePrefetchScheduler = Some sample_sched,
     metric = \<lparr>metricQueriesTotal = 0, metricDaneTotal = 0, metricDaneOnlyTotal = 0, metricSecureTotal = 0,
       metricNoPolicyTotal = 0, metricCacheHits = 0, metricCacheMisses = 0, metricPrefetchOK = 0,
       metricPrefetchFail = 0, metricPrefetchDrop = 0\<rparr>, nextRef = 0\<rparr>"

lemma sample_server_wf: "server_wf sample_server"
  using reachable_wf [OF sample_sched_reachable]
  by (simp add: server_wf_def sample_server_def cache_wf_def Cache_New_def load_def Let_def)

lemma sample_timetable:
  "timetable sample_sched = [''a.org'' \<mapsto> 10, ''c.org'' \<mapsto> 30, ''b.org'' \<mapsto> 20]"
  unfolding sample_sched_def by (simp add: sched.tab_put sched_wf_new)




end
