(* ===== verification/Go_Sort.thy ===== *)
theory Go_Sort
  imports Main "HOL-Library.Multiset" "HOL-Library.Char_ord" "HOL-Library.List_Lexorder" "HOL-Library.Product_Lexorder"
begin

text \<open>
  Package \<^verbatim>\<open>sort\<close> as the server uses it: \<^verbatim>\<open>sort.Sort\<close> orders a slice by its \<^verbatim>\<open>Less\<close> method. The documentation
  promises a permutation in ascending order and leaves the order of equal elements open; the
  comparisons of the server are total on entries with different keys, so the result is determined, and insertion sort computes
  it.
\<close>

fun insert_by :: "('a \<Rightarrow> 'a \<Rightarrow> bool) \<Rightarrow> 'a \<Rightarrow> 'a list \<Rightarrow> 'a list" where
  "insert_by lt x [] = [x]"
| "insert_by lt x (y # ys) = (if lt y x then y # insert_by lt x ys else x # y # ys)"

fun sort_by :: "('a \<Rightarrow> 'a \<Rightarrow> bool) \<Rightarrow> 'a list \<Rightarrow> 'a list" where
  "sort_by lt [] = []"
| "sort_by lt (x # xs) = insert_by lt x (sort_by lt xs)"

text \<open>A comparison that orders by a rank: what \<^verbatim>\<open>sort.Interface\<close> asks of \<^verbatim>\<open>Less\<close>.\<close>

locale ranked_less =
  fixes lt :: "'a \<Rightarrow> 'a \<Rightarrow> bool"
    and rank :: "'a \<Rightarrow> 'k :: linorder"
  assumes lt_rank: "lt x y \<longleftrightarrow> rank x < rank y"
begin

lemma insert_by_insort: "insert_by lt x xs = insort_key rank x xs"
  by (induction xs) (auto simp: lt_rank)

lemma sort_by_sort_key: "sort_by lt xs = sort_key rank xs"
  by (induction xs) (simp_all add: insert_by_insort)

lemma mset_sort_by [simp]: "mset (sort_by lt xs) = mset xs"
  by (simp add: sort_by_sort_key)

lemma length_sort_by [simp]: "length (sort_by lt xs) = length xs"
  by (simp add: sort_by_sort_key)

lemma set_sort_by [simp]: "set (sort_by lt xs) = set xs"
  by (simp add: sort_by_sort_key)

lemma sorted_sort_by: "sorted_wrt (\<lambda>x y. \<not> lt y x) (sort_by lt xs)"
proof -
  have "sorted (map rank (sort_by lt xs))" by (simp add: sort_by_sort_key)
  then show ?thesis by (simp add: sorted_map sorted_wrt_map lt_rank not_less)
qed

text \<open>Any sorting algorithm gives this result when ranks differ.\<close>

lemma sort_by_unique:
  assumes "mset ys = mset xs" "sorted_wrt (\<lambda>x y. \<not> lt y x) ys" "distinct (map rank xs)"
  shows "ys = sort_by lt xs"
proof (rule map_sorted_distinct_set_unique)
  have set: "set ys = set xs" using assms(1) by (metis set_mset_mset)
  then show "set ys = set (sort_by lt xs)" "inj_on rank (set ys \<union> set (sort_by lt xs))"
    using assms(3) by (simp_all add: distinct_map)
  show "sorted (map rank ys)" "sorted (map rank (sort_by lt xs))"
    using assms(2) sorted_sort_by [of xs] by (simp_all add: sorted_map lt_rank not_less)
  have "mset (map rank ys) = mset (map rank xs)" "mset (map rank (sort_by lt xs)) = mset (map rank xs)"
    using assms(1) by simp_all
  then show "distinct (map rank ys)" "distinct (map rank (sort_by lt xs))"
    using assms(3) mset_eq_imp_distinct_iff by blast+
qed

lemma sort_split:
  assumes "x \<in> set (take n (sort_by lt xs))" "y \<in> set (drop n (sort_by lt xs))"
  shows "rank x \<le> rank y"
proof -
  have "sorted_wrt (\<lambda>x y. \<not> lt y x) (take n (sort_by lt xs) @ drop n (sort_by lt xs))"
    using sorted_sort_by [of xs] by simp
  then show ?thesis using assms unfolding sorted_wrt_append by (auto simp: lt_rank not_less)
qed

end

end
