(* ===== verification/Maintenance.thy ===== *)
theory Maintenance
  imports Prefetch Go_Sort Go_Strings
begin

text \<open>
  Cache maintenance of \<^verbatim>\<open>internal/server.go\<close>: the tidy pass that discards outdated entries and evicts the least
  useful ones above the limit, the purge, and the dump of the cached policies.
\<close>

definition CACHE_MAX_ENTRIES :: nat where "CACHE_MAX_ENTRIES = 50000"
definition CACHE_PRUNE_TARGET :: nat where "CACHE_PRUNE_TARGET = 45000"

type_synonym item = "string \<times> entry"

abbreviation item_value :: "item \<Rightarrow> CacheStruct" where
  "item_value it \<equiv> snd (snd it)"

section \<open>Ranking entries\<close>

record cacheEvictionScore =
  ev_counter :: u32
  ev_ttl :: u32
  ev_hasPolicy :: bool

definition cacheEntrySorter_Less :: "item \<times> cacheEvictionScore \<Rightarrow> item \<times> cacheEvictionScore \<Rightarrow> bool" where
  "cacheEntrySorter_Less a b =
     (if ev_hasPolicy (snd a) \<noteq> ev_hasPolicy (snd b) then \<not> ev_hasPolicy (snd a)
      else if ev_counter (snd a) \<noteq> ev_counter (snd b) then ev_counter (snd a) < ev_counter (snd b)
      else if ev_ttl (snd a) \<noteq> ev_ttl (snd b) then ev_ttl (snd a) < ev_ttl (snd b)
      else fst (fst a) < fst (fst b))"

definition eviction_rank :: "item \<times> cacheEvictionScore \<Rightarrow> bool \<times> u32 \<times> u32 \<times> string" where
  "eviction_rank a = (ev_hasPolicy (snd a), ev_counter (snd a), ev_ttl (snd a), fst (fst a))"

interpretation evict: ranked_less cacheEntrySorter_Less eviction_rank
  by unfold_locales (auto simp: cacheEntrySorter_Less_def eviction_rank_def less_prod_def)

definition eviction_score :: "time \<Rightarrow> server \<Rightarrow> item \<Rightarrow> cacheEvictionScore" where
  "eviction_score now s entry =
     \<lparr>ev_counter = cacheEntryCounter (fst entry) (Some (item_value entry)) s,
      ev_ttl = cs_RemainingTTL (Some (item_value entry)) now,
      ev_hasPolicy = cacheStructHasPolicy (Some (item_value entry))\<rparr>"

definition partitionCacheEntriesForLimit ::
    "item list \<Rightarrow> time \<Rightarrow> nat \<Rightarrow> nat \<Rightarrow> server \<Rightarrow> item list \<times> item list" where
  "partitionCacheEntriesForLimit entries now maxEntries targetEntries s =
     (if length entries \<le> maxEntries then (entries, [])
      else let ranked = map fst (sort_by cacheEntrySorter_Less (map (\<lambda>e. (e, eviction_score now s e)) entries));
               evictCount = length entries - targetEntries
           in (drop evictCount ranked, take evictCount ranked))"

definition cacheCounterSorter_Less :: "item \<times> u32 \<Rightarrow> item \<times> u32 \<Rightarrow> bool" where
  "cacheCounterSorter_Less a b =
     (if snd a \<noteq> snd b then snd a > snd b else fst (fst a) < fst (fst b))"

interpretation by_counter: ranked_less cacheCounterSorter_Less "\<lambda>a. (- uint (snd a), fst (fst a))"
  by unfold_locales (auto simp: cacheCounterSorter_Less_def less_prod_def word_less_def le_less word_uint_eq_iff)

definition sortCacheEntriesByCounter :: "item list \<Rightarrow> server \<Rightarrow> (item \<times> u32) list" where
  "sortCacheEntriesByCounter entries s =
     sort_by cacheCounterSorter_Less (map (\<lambda>e. (e, cacheEntryCounter (fst e) (Some (item_value e)) s)) entries)"

section \<open>The tidy pass\<close>

definition tidy_remove :: "CacheStruct \<Rightarrow> time \<Rightarrow> bool" where
  "tidy_remove c now =
     (let removeEmptyStats = policyStateEmpty (Some c) \<and> cs_Counter c = 0;
          removeExpiredNoPolicy = \<not> policyStateEmpty (Some c) \<and> noPolicyOnly (Some c) \<and> cs_RemainingTTL (Some c) now = 0;
          removeStalePolicy = \<not> policyStateEmpty (Some c) \<and> cs_Age (Some c) now \<ge> CACHE_MAX_AGE;
          removeLegacyBadPolicy = Contains (cs_Report c) ''mx_host_pattern=.'' \<or> Contains (cs_Policy c) ''match= ''
            \<or> Contains (pb_Report (cs_MtaSts c)) ''mx_host_pattern=.'' \<or> Contains (pb_Policy (cs_MtaSts c)) ''match= ''
      in removeEmptyStats \<or> removeExpiredNoPolicy \<or> removeStalePolicy \<or> removeLegacyBadPolicy)"

text \<open>The first loop of \<^verbatim>\<open>tidyCache\<close>, from a snapshot of the items: the entries to keep.\<close>

fun tidy_scan :: "time \<Rightarrow> item list \<Rightarrow> server \<Rightarrow> item list \<times> server" where
  "tidy_scan now [] s = ([], s)"
| "tidy_scan now (entry # rest) s =
     (if tidy_remove (item_value entry) now then
        let d = discardCachedPolicyStateIfCurrent (fst entry) (snd entry) s;
            removed = snd (fst d);
            r = tidy_scan now rest (if removed then unscheduleCachedPolicyPrefetch (fst entry) (snd d) else snd d)
        in ((case fst (fst d) of None \<Rightarrow> [] | Some current \<Rightarrow> if removed then [] else [(fst entry, current)]) @ fst r, snd r)
      else let r = tidy_scan now rest s in (entry # fst r, snd r))"

text \<open>The second loop: entries that changed since the snapshot are kept.\<close>

fun tidy_evict :: "item list \<Rightarrow> server \<Rightarrow> item list \<times> server" where
  "tidy_evict [] s = ([], s)"
| "tidy_evict (entry # rest) s =
     (let d = removeCacheEntryIfCurrent (fst entry) (snd entry) s;
          removed = snd (fst d); s1 = snd d;
          s2 = (if removed then unscheduleCachedPolicyPrefetch (fst entry)
                  (s1\<lparr>cacheHitCounters := AList.delete (fst entry) (cacheHitCounters s1)\<rparr>) else s1);
          r = tidy_evict rest s2
      in ((case fst (fst d) of None \<Rightarrow> [] | Some current \<Rightarrow> if removed then [] else [(fst entry, current)]) @ fst r, snd r))"

definition tidy_limited ::
    "nat \<Rightarrow> nat \<Rightarrow> (string \<Rightarrow> nat) \<Rightarrow> write_env \<Rightarrow> time \<Rightarrow> server \<Rightarrow> item list \<times> server" where
  "tidy_limited maxEntries target draw env now s =
     (let s0 = flushCacheHitCounters s;
          scan = tidy_scan now (Cache_Items (polCache s0)) s0;
          part = partitionCacheEntriesForLimit (fst scan) now maxEntries target (snd scan);
          ev = tidy_evict (snd part) (snd scan);
          entries = fst part @ fst ev;
          s1 = fold (\<lambda>e. scheduleCachedPolicyPrefetch (draw (fst e)) (fst e) (Some (item_value e)) now) entries (snd ev)
      in (entries, cache_save env s1))"

definition tidyCache :: "(string \<Rightarrow> nat) \<Rightarrow> write_env \<Rightarrow> time \<Rightarrow> server \<Rightarrow> item list \<times> server" where
  "tidyCache draw env now s = tidy_limited CACHE_MAX_ENTRIES CACHE_PRUNE_TARGET draw env now s"

text \<open>\<open>free\<close> says whether \<^verbatim>\<open>cachePruneMu.TryLock\<close> succeeds.\<close>

definition enforceCacheLimit :: "bool \<Rightarrow> (string \<Rightarrow> nat) \<Rightarrow> write_env \<Rightarrow> time \<Rightarrow> server \<Rightarrow> server" where
  "enforceCacheLimit free draw env now s =
     (if Cache_Len (polCache s) \<le> CACHE_MAX_ENTRIES \<or> \<not> free then s
      else if Cache_Len (polCache s) > CACHE_MAX_ENTRIES then snd (tidyCache draw env now s) else s)"

section \<open>Purging and dumping\<close>

definition purgeCache :: "write_env \<Rightarrow> server \<Rightarrow> cache_error option \<times> server" where
  "purgeCache env s =
     (case Cache_Purge env (polCache s) (cacheFiles s) of
        (err, c, fs) \<Rightarrow> (err, clearPrefetchSchedule (flushCacheHitCounters (s\<lparr>polCache := c, cacheFiles := fs\<rparr>))))"

text \<open>\<^verbatim>\<open>%-28s\<close> and \<^verbatim>\<open>%6d\<close> pad with blanks to a width in runes.\<close>

definition pad_right :: "nat \<Rightarrow> string \<Rightarrow> string" where
  "pad_right n s = s @ replicate (n - length (runes s)) (CHR '' '')"

definition pad_left :: "nat \<Rightarrow> string \<Rightarrow> string" where
  "pad_left n s = replicate (n - length (runes s)) (CHR '' '') @ s"

definition newline :: string where
  "newline = [CHR 0x0A]"

definition dump_line :: "bool \<Rightarrow> time \<Rightarrow> item \<times> u32 \<Rightarrow> string" where
  "dump_line exporting now entry =
     (case selectCachedPolicy (Some (item_value (fst entry))) now of (policy, report, remainingTTL, ok) \<Rightarrow>
        if \<not> ok \<or> policy = [] \<or> remainingTTL < PREFETCH_INTERVAL + 1 then []
        else if exporting then pad_right 28 (fst (fst entry)) @ '' '' @ policy @ newline
        else pad_right 28 (fst (fst entry)) @ ''  '' @ pad_left 6 (Itoa (unat (snd entry))) @ ''  '' @ policy @ newline)"

definition dumpCachedPolicies :: "(string \<Rightarrow> nat) \<Rightarrow> write_env \<Rightarrow> time \<Rightarrow> time \<Rightarrow> bool \<Rightarrow> server \<Rightarrow> string \<times> server" where
  "dumpCachedPolicies draw env tidyNow now exporting s =
     (let t = tidyCache draw env tidyNow s in
      (concat (map (dump_line exporting now) (sortCacheEntriesByCounter (fst t) (snd t))), snd t))"

section \<open>What the tidy pass does\<close>

definition held_items :: "item list \<Rightarrow> server \<Rightarrow> bool" where
  "held_items xs s \<longleftrightarrow> distinct (map fst xs) \<and> (\<forall>(k, e) \<in> set xs. cache_get k s = Some e)"

lemma held_items_Cons:
  "held_items (x # xs) s \<longleftrightarrow> fst x \<notin> fst ` set xs \<and> cache_get (fst x) s = Some (snd x) \<and> held_items xs s"
  by (auto simp: held_items_def)

lemma held_items_other: "held_items xs s \<Longrightarrow> only_key k s t \<Longrightarrow> k \<notin> fst ` set xs \<Longrightarrow> held_items xs t"
  using held_other [of "set xs" s k t] by (auto simp: held_items_def)

lemma discardIfCurrent_held:
  "cache_get k s = Some e \<Longrightarrow>
   discardCachedPolicyStateIfCurrent k e s = ((None, True), discardCachedPolicyState k (Some (snd e)) s)"
  by (simp add: discardCachedPolicyStateIfCurrent_def)

lemma removeIfCurrent_held: "cache_get k s = Some e \<Longrightarrow> removeCacheEntryIfCurrent k e s = ((None, True), cache_remove k s)"
  by (simp add: removeCacheEntryIfCurrent_def)

text \<open>Both passes touch an entry only if it is still the one of the snapshot: an entry stored
  meanwhile has a new address.\<close>

lemma newer_entry_kept:
  assumes "cache_get k s = Some current" "fst current \<noteq> fst snapshot"
  shows "discardCachedPolicyStateIfCurrent k snapshot s = ((Some current, False), s)"
    "removeCacheEntryIfCurrent k snapshot s = ((Some current, False), s)"
  using assms by (simp_all add: discardCachedPolicyStateIfCurrent_def removeCacheEntryIfCurrent_def)

lemma ref_bound: "server_wf s \<Longrightarrow> cache_get k s = Some e \<Longrightarrow> fst e < nextRef s"
  by (auto simp: server_wf_def list_all_iff cache_get_def Cache_Get_def dest!: map_of_SomeD)

lemma stored_entry_is_newer:
  "server_wf s \<Longrightarrow> cache_get k s = Some old \<Longrightarrow> cache_get k (cache_set k cs s) = Some new \<Longrightarrow> fst new \<noteq> fst old"
  using ref_bound [of s k old] by auto

lemma pending_with_scheduler [simp]: "pending j (with_scheduler f s) = pending j s"
  by (simp add: pending_def with_scheduler_def)

abbreviation cached_value :: "string \<Rightarrow> server \<Rightarrow> CacheStruct option" where
  "cached_value k s \<equiv> map_option snd (cache_get k s)"

definition statistics :: "u32 \<Rightarrow> CacheStruct option" where
  "statistics n = (if n = 0 then None else Some (statsOnlyCacheEntry n))"

text \<open>One discarded entry.\<close>

definition tidied :: "string \<Rightarrow> CacheStruct \<Rightarrow> server \<Rightarrow> server" where
  "tidied k c s = unscheduleCachedPolicyPrefetch k (discardCachedPolicyState k (Some c) s)"

lemma tidied_ok:
  assumes "server_wf s"
  shows "only_key k s (tidied k c s)" "cached_value k (tidied k c s) = statistics (cs_Counter c + pending k s)"
    "j \<noteq> k \<Longrightarrow> pending j (tidied k c s) = pending j s"
  using assms
  by (simp add: tidied_def only_key_unschedule)
    (simp_all add: tidied_def unscheduleCachedPolicyPrefetch_def discard_get discard_pending statistics_def Let_def)

lemma tidy_scan_Cons:
  assumes "cache_get (fst x) s = Some (snd x)"
  shows "tidy_scan now (x # xs) s =
    (if tidy_remove (item_value x) now then tidy_scan now xs (tidied (fst x) (item_value x) s)
     else (x # fst (tidy_scan now xs s), snd (tidy_scan now xs s)))"
  using assms by (simp add: discardIfCurrent_held tidied_def Let_def)

declare tidy_scan.simps(2) [simp del]

lemma tidy_scan_ok:
  "server_wf s \<Longrightarrow> held_items xs s \<Longrightarrow>
   fst (tidy_scan now xs s) = filter (\<lambda>it. \<not> tidy_remove (item_value it) now) xs
   \<and> server_wf (snd (tidy_scan now xs s)) \<and> prefetching (snd (tidy_scan now xs s)) = prefetching s
   \<and> (\<forall>j. j \<notin> fst ` set (filter (\<lambda>it. tidy_remove (item_value it) now) xs) \<longrightarrow>
        cache_get j (snd (tidy_scan now xs s)) = cache_get j s \<and> pending j (snd (tidy_scan now xs s)) = pending j s)
   \<and> (\<forall>it \<in> set xs. tidy_remove (item_value it) now \<longrightarrow>
        cached_value (fst it) (snd (tidy_scan now xs s)) = statistics (cs_Counter (item_value it) + pending (fst it) s))"
proof (induction xs arbitrary: s)
  case (Cons x xs)
  from Cons.prems have x: "fst x \<notin> fst ` set xs" "cache_get (fst x) s = Some (snd x)" "held_items xs s"
    by (simp_all add: held_items_Cons)
  show ?case
  proof (cases "tidy_remove (item_value x) now")
    case False
    with Cons.IH [OF Cons.prems(1) x(3)] show ?thesis by (simp add: tidy_scan_Cons [OF x(2)])
  next
    case True
    let ?t = "tidied (fst x) (item_value x) s"
    note t = tidied_ok [OF Cons.prems(1), where k = "fst x" and c = "item_value x"]
    have pend: "\<forall>it \<in> set xs. pending (fst it) ?t = pending (fst it) s" using t(3) x(1) by (metis image_eqI)
    note IH = Cons.IH [OF only_key_wf(1) [OF t(1)] held_items_other [OF x(3) t(1) x(1)]]
    have "fst x \<notin> fst ` set (filter (\<lambda>it. tidy_remove (item_value it) now) xs)" using x(1) by auto
    then have "cached_value (fst x) (snd (tidy_scan now xs ?t)) = cached_value (fst x) ?t" using IH by simp
    moreover have "\<forall>j. j \<noteq> fst x \<longrightarrow> cache_get j ?t = cache_get j s \<and> pending j ?t = pending j s"
      using t(3) only_key_other(1) [OF t(1)] by simp
    ultimately show ?thesis
      using IH True t(2) pend only_key_wf(2) [OF t(1)] by (simp add: tidy_scan_Cons [OF x(2)])
  qed
qed simp

text \<open>One evicted entry.\<close>

definition evicted :: "string \<Rightarrow> server \<Rightarrow> server" where
  "evicted k s = unscheduleCachedPolicyPrefetch k
     ((cache_remove k s)\<lparr>cacheHitCounters := AList.delete k (cacheHitCounters (cache_remove k s))\<rparr>)"

lemma evicted_ok:
  assumes "server_wf s"
  shows "only_key k s (evicted k s)" "cache_get k (evicted k s) = None"
proof -
  let ?t = "(cache_remove k s)\<lparr>cacheHitCounters := AList.delete k (cacheHitCounters (cache_remove k s))\<rparr>"
  have "distinct (map fst (cacheHitCounters s))" using assms by (simp add: server_wf_def)
  then have w: "server_wf ?t" using assms by (intro wf_hits wf_cache_remove) (simp_all add: distinct_delete)
  then have "only_key k s ?t" by (simp add: only_key_def prefetching_def scheduled_def)
  moreover have "only_key k ?t (evicted k s)"
    using only_key_put_del(2) [OF w, of k] by (simp add: evicted_def unscheduleCachedPolicyPrefetch_def)
  ultimately show "only_key k s (evicted k s)" by (rule only_key_trans)
  show "cache_get k (evicted k s) = None" by (simp add: evicted_def unscheduleCachedPolicyPrefetch_def)
qed

lemma tidy_evict_Cons:
  assumes "cache_get (fst x) s = Some (snd x)"
  shows "tidy_evict (x # xs) s = tidy_evict xs (evicted (fst x) s)"
  using assms by (simp add: removeIfCurrent_held evicted_def Let_def)

declare tidy_evict.simps(2) [simp del]

lemma tidy_evict_ok:
  "server_wf s \<Longrightarrow> held_items xs s \<Longrightarrow>
   fst (tidy_evict xs s) = [] \<and> server_wf (snd (tidy_evict xs s)) \<and> prefetching (snd (tidy_evict xs s)) = prefetching s
   \<and> (\<forall>j. cache_get j (snd (tidy_evict xs s)) = (if j \<in> fst ` set xs then None else cache_get j s))"
proof (induction xs arbitrary: s)
  case (Cons x xs)
  from Cons.prems have x: "fst x \<notin> fst ` set xs" "cache_get (fst x) s = Some (snd x)" "held_items xs s"
    by (simp_all add: held_items_Cons)
  note t = evicted_ok [OF Cons.prems(1), of "fst x"]
  note IH = Cons.IH [OF only_key_wf(1) [OF t(1)] held_items_other [OF x(3) t(1) x(1)]]
  with t(2) x(1) only_key_wf(2) [OF t(1)] only_key_other(1) [OF t(1)] show ?case
    by (auto simp: tidy_evict_Cons [OF x(2)])
qed simp

text \<open>Rescheduling the entries that are kept.\<close>

lemma reschedule_ok:
  "server_wf s \<Longrightarrow> prefetching s = p \<Longrightarrow> held_items xs s \<Longrightarrow>
   (let t = fold (\<lambda>e. scheduleCachedPolicyPrefetch (draw (fst e)) (fst e) (Some (item_value e)) now) xs s in
    server_wf t \<and> prefetching t = p \<and> (\<forall>j. cache_get j t = cache_get j s)
    \<and> (\<forall>j. j \<notin> fst ` set xs \<longrightarrow> scheduled t j = scheduled s j)
    \<and> (p \<longrightarrow> (\<forall>e \<in> set xs. covered (fst e) now t)))"
proof (induction xs arbitrary: s)
  case (Cons x xs)
  from Cons.prems have x: "fst x \<notin> fst ` set xs" "cache_get (fst x) s = Some (snd x)" "held_items xs s"
    by (simp_all add: held_items_Cons)
  let ?t = "scheduleCachedPolicyPrefetch (draw (fst x)) (fst x) (Some (item_value x)) now s"
  have t: "only_key (fst x) s ?t" using Cons.prems(1) by (rule only_key_scheduleCached)
  have "prefetching ?t = p" using only_key_wf(2) [OF t] Cons.prems(2) by simp
  note IH = Cons.IH [OF only_key_wf(1) [OF t] this held_items_other [OF x(3) t x(1)]]
  have c: "covered (fst x) now ?t" if p
    using Cons.prems(1,2) x(2) that by (intro scheduleCached_covers) simp_all
  let ?u = "fold (\<lambda>e. scheduleCachedPolicyPrefetch (draw (fst e)) (fst e) (Some (item_value e)) now) xs ?t"
  have "covered (fst x) now ?u" if p
    using covered_frame [of "fst x" ?u ?t now] c [OF that] IH x(1) by (simp add: Let_def)
  with IH only_key_other(2) [OF t] show ?case by (simp add: Let_def)
qed simp

lemma items_held: "server_wf s \<Longrightarrow> held_items (Cache_Items (polCache s)) s"
  using store.in_entries_iff [of "polCache s"] store.distinct_entries [of "polCache s"]
  by (auto simp: held_items_def server_wf_def cache_get_def)

lemma held_items_subset: "held_items xs s \<Longrightarrow> distinct (map fst ys) \<Longrightarrow> set ys \<subseteq> set xs \<Longrightarrow> held_items ys s"
  by (auto simp: held_items_def)

lemma partition_ok:
  fixes entries now maxE target s
  defines "P \<equiv> partitionCacheEntriesForLimit entries now maxE target s"
  assumes "distinct (map fst entries)"
  shows "mset (fst P) + mset (snd P) = mset entries" "distinct (map fst (fst P))" "distinct (map fst (snd P))"
    "target \<le> maxE \<Longrightarrow> length (fst P) \<le> maxE" "maxE < length entries \<Longrightarrow> target \<le> length entries \<Longrightarrow> length (fst P) = target"
    "x \<in> set (snd P) \<Longrightarrow> y \<in> set (fst P) \<Longrightarrow>
       eviction_rank (x, eviction_score now s x) \<le> eviction_rank (y, eviction_score now s y)"
proof -
  let ?sc = "map (\<lambda>e. (e, eviction_score now s e)) entries"
  let ?r = "sort_by cacheEntrySorter_Less ?sc"
  let ?n = "length entries - target"
  have P: "P = (if length entries \<le> maxE then (entries, []) else (drop ?n (map fst ?r), take ?n (map fst ?r)))"
    by (simp add: P_def partitionCacheEntriesForLimit_def Let_def)
  have m: "mset (map fst ?r) = mset entries"
    using arg_cong [OF evict.mset_sort_by [of ?sc], of "image_mset fst"]
    by (simp add: multiset.map_comp comp_def)
  have split: "mset (drop n xs) + mset (take n xs) = mset xs" for n :: nat and xs :: "item list"
    by (metis append_take_drop_id mset_append union_commute)
  show mm: "mset (fst P) + mset (snd P) = mset entries" using m split by (simp add: P)
  have "mset (map fst (fst P) @ map fst (snd P)) = mset (map fst entries)"
    using arg_cong [OF mm, of "image_mset fst"] by simp
  then have "distinct (map fst (fst P) @ map fst (snd P))" using assms(2) mset_eq_imp_distinct_iff by blast
  then show "distinct (map fst (fst P))" "distinct (map fst (snd P))" by simp_all
  show "target \<le> maxE \<Longrightarrow> length (fst P) \<le> maxE" "maxE < length entries \<Longrightarrow> target \<le> length entries \<Longrightarrow> length (fst P) = target"
    by (simp_all add: P)
  assume xy: "x \<in> set (snd P)" "y \<in> set (fst P)"
  have score: "(e, sc) \<in> set ?r \<Longrightarrow> sc = eviction_score now s e" for e sc by auto
  from xy obtain a b where ab: "a \<in> set (take ?n ?r)" "b \<in> set (drop ?n ?r)" "fst a = x" "fst b = y"
    by (auto simp: P take_map drop_map split: if_splits)
  then have "snd a = eviction_score now s x" "snd b = eviction_score now s y"
    using score [of x "snd a"] score [of y "snd b"] in_set_takeD in_set_dropD by (metis prod.collapse)+
  with evict.sort_split [OF ab(1,2)] ab(3,4)
  show "eviction_rank (x, eviction_score now s x) \<le> eviction_rank (y, eviction_score now s y)"
    by (metis prod.collapse)
qed

lemma held_items_agree: "held_items xs s \<Longrightarrow> (\<And>x. x \<in> set xs \<Longrightarrow> cache_get (fst x) t = cache_get (fst x) s) \<Longrightarrow> held_items xs t"
  by (auto simp: held_items_def)

lemma partition_disjoint:
  assumes "distinct (map fst entries)"
  shows "fst ` set (fst (partitionCacheEntriesForLimit entries now maxE target s))
     \<inter> fst ` set (snd (partitionCacheEntriesForLimit entries now maxE target s)) = {}"
proof -
  let ?P = "partitionCacheEntriesForLimit entries now maxE target s"
  note p = partition_ok(1) [OF assms, where now = now and maxE = maxE and target = target and s = s]
  have "mset (map fst (fst ?P) @ map fst (snd ?P)) = mset (map fst entries)"
    using arg_cong [OF p, of "image_mset fst"] by simp
  then have "distinct (map fst (fst ?P) @ map fst (snd ?P))" using assms mset_eq_imp_distinct_iff by blast
  then show ?thesis by simp
qed

lemma flush_prefetching: "prefetching (flushCacheHitCounters s) = prefetching s"
proof -
  have "prefetching (flush_counter k u) = prefetching u" for k u
    by (simp add: flush_counter_def prefetching_def Let_def split: option.split)
  then have "prefetching (fold (\<lambda>kv. flush_counter (fst kv)) xs u) = prefetching u" for xs u
    by (induction xs arbitrary: u) simp_all
  then show ?thesis by (simp add: flushCacheHitCounters_def)
qed

abbreviation kept_items :: "time \<Rightarrow> item list \<Rightarrow> item list" where
  "kept_items now xs \<equiv> filter (\<lambda>it. \<not> tidy_remove (item_value it) now) xs"

abbreviation removed_items :: "time \<Rightarrow> item list \<Rightarrow> item list" where
  "removed_items now xs \<equiv> filter (\<lambda>it. tidy_remove (item_value it) now) xs"

lemma kept_not_removed:
  "held_items xs s \<Longrightarrow> (k, e) \<in> set (kept_items now xs) \<Longrightarrow> k \<notin> fst ` set (removed_items now xs)"
  by (force simp: held_items_def dest: eq_key_imp_eq_value)

lemma scan_kept_held:
  assumes "server_wf s" "held_items xs s"
  shows "held_items (kept_items now xs) (snd (tidy_scan now xs s))"
proof -
  have "cache_get k (snd (tidy_scan now xs s)) = Some e" if "(k, e) \<in> set (kept_items now xs)" for k e
    using tidy_scan_ok [OF assms, of now] kept_not_removed [OF assms(2) that] that assms(2) by (auto simp: held_items_def)
  then show ?thesis using assms(2) by (auto simp: held_items_def distinct_map_filter)
qed

text \<open>The pass as a whole: \<open>s0\<close> is the state after the counters were flushed, \<open>s1\<close> the one after the scan.\<close>

lemma tidy_limited_ok:
  fixes maxE target draw env now s
  defines "s0 \<equiv> flushCacheHitCounters s"
  defines "xs \<equiv> Cache_Items (polCache s0)"
  defines "s1 \<equiv> snd (tidy_scan now xs s0)"
  defines "P \<equiv> partitionCacheEntriesForLimit (kept_items now xs) now maxE target s1"
  defines "r \<equiv> tidy_limited maxE target draw env now s"
  assumes wf: "server_wf s"
  shows "fst r = fst P" "server_wf (snd r)" "held_items (fst P) (snd r)"
    "cache_get j (snd r) = (if j \<in> fst ` set (snd P) then None else cache_get j s1)"
    "prefetching s \<Longrightarrow> \<forall>e \<in> set (fst P). covered (fst e) now (snd r)"
proof -
  have w0: "server_wf s0" unfolding s0_def using wf by (rule wf_flush)
  have held: "held_items xs s0" unfolding xs_def using w0 by (rule items_held)
  note scan = tidy_scan_ok [OF w0 held, of now, folded s1_def]
  have hk: "held_items (kept_items now xs) s1" unfolding s1_def using w0 held by (rule scan_kept_held)
  then have dk: "distinct (map fst (kept_items now xs))" by (simp add: held_items_def)
  note p = partition_ok [OF dk, where now = now and maxE = maxE and target = target and s = s1, folded P_def]
  have "set (fst P) \<union> set (snd P) = set (kept_items now xs)" using p(1) by (metis set_mset_mset set_mset_union)
  then have hf: "held_items (fst P) s1" and he: "held_items (snd P) s1"
    using held_items_subset [OF hk] p(2,3) by blast+
  have disj: "fst ` set (fst P) \<inter> fst ` set (snd P) = {}" unfolding P_def using dk by (rule partition_disjoint)
  have w1: "server_wf s1" using scan by simp
  note ev = tidy_evict_ok [OF w1 he]
  let ?s2 = "snd (tidy_evict (snd P) s1)"
  have "cache_get (fst x) ?s2 = cache_get (fst x) s1" if "x \<in> set (fst P)" for x
    using ev disj that by (metis disjoint_iff image_eqI)
  then have hf2: "held_items (fst P) ?s2" by (rule held_items_agree [OF hf])
  have w2: "server_wf ?s2" using ev by simp
  note res = reschedule_ok [OF w2 refl hf2, of draw now, unfolded Let_def]
  let ?s3 = "fold (\<lambda>e. scheduleCachedPolicyPrefetch (draw (fst e)) (fst e) (Some (item_value e)) now) (fst P) ?s2"
  have r: "r = (fst P, cache_save env ?s3)"
    using scan ev by (simp add: r_def tidy_limited_def Let_def P_def s1_def xs_def flip: s0_def)
  show "fst r = fst P" "server_wf (snd r)" using res by (simp_all add: r wf_cache_save)
  show "held_items (fst P) (snd r)" using hf2 res by (simp add: r held_items_def)
  show "cache_get j (snd r) = (if j \<in> fst ` set (snd P) then None else cache_get j s1)" using ev res by (simp add: r)
  have "prefetching ?s2 = prefetching s" using ev scan flush_prefetching [of s] by (simp add: s0_def)
  then show "prefetching s \<Longrightarrow> \<forall>e \<in> set (fst P). covered (fst e) now (snd r)" using res by (simp add: r covered_def)
qed

lemma entry_counter_pending: "cacheEntryCounter k (Some c) s = cs_Counter c + pending k s"
  by (simp add: cacheEntryCounter_def pending_def split: option.split)

lemma stats_empty: "policyStateEmpty (Some (statsOnlyCacheEntry n))"
  by (simp add: policyStateEmpty_def statsOnlyCacheEntry_def zeroCacheStruct_def)

text \<open>Entries that survive without being listed hold statistics only.\<close>

lemma tidy_leftovers:
  fixes maxE target draw env now s
  defines "r \<equiv> tidy_limited maxE target draw env now s"
  assumes wf: "server_wf s" and c: "cache_get k (snd r) = Some c"
  shows "(k, c) \<in> set (fst r) \<or> policyStateEmpty (Some (snd c))"
proof -
  define s0 where "s0 = flushCacheHitCounters s"
  define xs where "xs = Cache_Items (polCache s0)"
  define s1 where "s1 = snd (tidy_scan now xs s0)"
  define P where "P = partitionCacheEntriesForLimit (kept_items now xs) now maxE target s1"
  have w0: "server_wf s0" unfolding s0_def using wf by (rule wf_flush)
  have held: "held_items xs s0" unfolding xs_def using w0 by (rule items_held)
  note scan = tidy_scan_ok [OF w0 held, of now, folded s1_def]
  note t = tidy_limited_ok [where maxE = maxE and target = target and draw = draw and env = env and now = now and s = s,
    OF wf, folded s0_def, folded xs_def, folded s1_def, folded P_def, folded r_def]
  have k: "k \<notin> fst ` set (snd P)" "cache_get k s1 = Some c" using c t(4) [of k] by (simp_all split: if_splits)
  show ?thesis
  proof (cases "k \<in> fst ` set (removed_items now xs)")
    case True
    then obtain it where "it \<in> set xs" "tidy_remove (item_value it) now" "fst it = k" by auto
    with scan k(2) have "Some (snd c) = statistics (cs_Counter (item_value it) + pending k s0)" by fastforce
    then show ?thesis by (simp add: statistics_def stats_empty split: if_splits)
  next
    case False
    then have "cache_get k s0 = Some c" using scan k(2) by simp
    then have "(k, c) \<in> set xs"
      using store.in_entries_iff [of "polCache s0" k c] w0 by (simp add: xs_def server_wf_def cache_get_def)
    with False have "(k, c) \<in> set (kept_items now xs)" by force
    then have "(k, c) \<in> set (fst P) \<union> set (snd P)"
      using partition_ok(1) [of "kept_items now xs" now maxE target s1, folded P_def] held
      by (metis Un_iff distinct_map_filter held_items_def set_mset_mset set_mset_union)
    then show ?thesis using k(1) t(1) by force
  qed
qed

lemma tidy_eviction_order:
  fixes maxE target draw env now s
  defines "s0 \<equiv> flushCacheHitCounters s"
  defines "r \<equiv> tidy_limited maxE target draw env now s"
  assumes wf: "server_wf s" and x: "cache_get (fst x) s0 = Some (snd x)" "\<not> tidy_remove (item_value x) now" "x \<notin> set (fst r)"
    and y: "y \<in> set (fst r)"
  shows "eviction_rank (x, eviction_score now s0 x) \<le> eviction_rank (y, eviction_score now s0 y)"
proof -
  define xs where "xs = Cache_Items (polCache s0)"
  define s1 where "s1 = snd (tidy_scan now xs s0)"
  define P where "P = partitionCacheEntriesForLimit (kept_items now xs) now maxE target s1"
  have w0: "server_wf s0" unfolding s0_def using wf by (rule wf_flush)
  have held: "held_items xs s0" unfolding xs_def using w0 by (rule items_held)
  note scan = tidy_scan_ok [OF w0 held, of now, folded s1_def]
  have dk: "distinct (map fst (kept_items now xs))" using held by (simp add: held_items_def distinct_map_filter)
  note p = partition_ok [OF dk, where now = now and maxE = maxE and target = target and s = s1, folded P_def]
  have r: "fst r = fst P"
    using tidy_limited_ok(1) [where maxE = maxE and target = target and draw = draw and env = env and now = now and s = s, OF wf]
    by (simp add: r_def P_def s1_def xs_def s0_def)
  have set: "set (fst P) \<union> set (snd P) = set (kept_items now xs)" using p(1) by (metis set_mset_mset set_mset_union)
  have "x \<in> set xs" using x(1) store.in_entries_iff [of "polCache s0" "fst x" "snd x"] w0
    by (simp add: xs_def server_wf_def cache_get_def)
  with x(2,3) r set have xy: "x \<in> set (snd P)" "y \<in> set (fst P)" using y by auto
  have "eviction_score now s1 z = eviction_score now s0 z" if "z \<in> set (kept_items now xs)" for z
  proof -
    have "fst z \<notin> fst ` set (removed_items now xs)" using kept_not_removed [OF held, of "fst z" "snd z" now] that by simp
    then show ?thesis using scan by (simp add: eviction_score_def entry_counter_pending)
  qed
  then show ?thesis using p(6) [OF xy] xy set by (metis UnCI)
qed

text \<open>C26. A tidy pass keeps at most 50,000 listed entries, none of them outdated, each still cached as it
  was and, while prefetching is on, with its next refresh scheduled if it serves a policy. Everything
  else that remains in the cache holds statistics only. An entry that is evicted ranks no higher than any that is kept:
  entries without a policy go first, then the least used, then those closest to expiry.\<close>

theorem tidy_pass_keeps_the_most_useful_entries:
  assumes "server_wf s"
  shows "length (fst (tidyCache draw env now s)) \<le> CACHE_MAX_ENTRIES \<and> server_wf (snd (tidyCache draw env now s))
    \<and> (\<forall>k c. (k, c) \<in> set (fst (tidyCache draw env now s)) \<longrightarrow>
         cache_get k (snd (tidyCache draw env now s)) = Some c \<and> (prefetching s \<longrightarrow> covered k now (snd (tidyCache draw env now s))))
    \<and> (\<forall>k c. cache_get k (snd (tidyCache draw env now s)) = Some c \<longrightarrow>
         (k, c) \<in> set (fst (tidyCache draw env now s)) \<or> policyStateEmpty (Some (snd c)))
    \<and> (\<forall>x y. cache_get (fst x) (flushCacheHitCounters s) = Some (snd x) \<and> \<not> tidy_remove (item_value x) now
         \<and> x \<notin> set (fst (tidyCache draw env now s)) \<and> y \<in> set (fst (tidyCache draw env now s)) \<longrightarrow>
         eviction_rank (x, eviction_score now (flushCacheHitCounters s) x)
           \<le> eviction_rank (y, eviction_score now (flushCacheHitCounters s) y))"
proof -
  let ?r = "tidy_limited CACHE_MAX_ENTRIES CACHE_PRUNE_TARGET draw env now s"
  let ?s0 = "flushCacheHitCounters s" let ?xs = "Cache_Items (polCache ?s0)"
  let ?P = "partitionCacheEntriesForLimit (kept_items now ?xs) now CACHE_MAX_ENTRIES CACHE_PRUNE_TARGET
    (snd (tidy_scan now ?xs ?s0))"
  note t = tidy_limited_ok [where maxE = CACHE_MAX_ENTRIES and target = CACHE_PRUNE_TARGET and draw = draw
    and env = env and now = now and s = s, OF assms]
  have "distinct (map fst (kept_items now ?xs))"
    using items_held [OF wf_flush [OF assms]] by (simp add: held_items_def distinct_map_filter)
  then have len: "length (fst ?P) \<le> CACHE_MAX_ENTRIES"
    by (rule partition_ok(4)) (simp add: CACHE_MAX_ENTRIES_def CACHE_PRUNE_TARGET_def)
  have held: "\<forall>k c. (k, c) \<in> set (fst ?r) \<longrightarrow> cache_get k (snd ?r) = Some c \<and> (prefetching s \<longrightarrow> covered k now (snd ?r))"
    using t(1,3,5) by (fastforce simp: held_items_def)
  have "length (fst ?r) \<le> CACHE_MAX_ENTRIES" using len t(1) by simp
  then show ?thesis
    unfolding tidyCache_def using t(2) held tidy_leftovers [OF assms] tidy_eviction_order [OF assms] by blast
qed

theorem tidy_pass_keeps_the_most_useful_entries_witness:
  "length (fst (tidyCache (\<lambda>_. 0) \<lparr>fails_at = None, tmp_name = ''t'', remove_ok = True\<rparr> 0
      (cache_set ''x.org'' sample_mtasts_entry sample_server))) \<le> CACHE_MAX_ENTRIES"
  using tidy_pass_keeps_the_most_useful_entries [OF wf_cache_set [OF sample_server_wf]] by blast

text \<open>A single pass does not bound the number of cached entries: outdated policies with hits turn into
  statistics, which this pass neither lists nor counts. If all entries are of this kind, the cache is as large after
  the pass as before.\<close>

theorem stale_entries_stay_as_statistics:
  assumes wf: "server_wf s"
    and stale: "\<And>k c. cache_get k (flushCacheHitCounters s) = Some c \<Longrightarrow>
      tidy_remove (snd c) now \<and> cached_hits k (flushCacheHitCounters s) \<noteq> 0"
  shows "Cache_Len (polCache (snd (tidyCache draw env now s))) = Cache_Len (polCache (flushCacheHitCounters s))"
proof -
  let ?s0 = "flushCacheHitCounters s" let ?xs = "Cache_Items (polCache ?s0)" let ?s1 = "snd (tidy_scan now ?xs ?s0)"
  let ?t = "snd (tidyCache draw env now s)"
  have w0: "server_wf ?s0" using wf by (rule wf_flush)
  note held = items_held [OF w0] and scan = tidy_scan_ok [OF w0 items_held [OF w0], of now]
  have get: "(k, c) \<in> set ?xs \<longleftrightarrow> cache_get k ?s0 = Some c" for k c
    using store.in_entries_iff [of "polCache ?s0" k c] w0 by (simp add: server_wf_def cache_get_def)
  have rm: "tidy_remove (item_value it) now" if "it \<in> set ?xs" for it
    using that stale [of "fst it" "snd it"] get [of "fst it" "snd it"] by simp
  then have none: "kept_items now ?xs = []" by (simp add: filter_empty_conv)
  note t = tidy_limited_ok [where maxE = CACHE_MAX_ENTRIES and target = CACHE_PRUNE_TARGET and draw = draw
    and env = env and now = now and s = s, OF wf, unfolded none, folded tidyCache_def]
  have eq: "cache_get j ?t = cache_get j ?s1" for j
    using t(4) [of j] by (simp add: partitionCacheEntriesForLimit_def)
  have "cache_get j ?t \<noteq> None \<longleftrightarrow> cache_get j ?s0 \<noteq> None" for j
  proof (cases "cache_get j ?s0")
    case None
    then have "j \<notin> fst ` set (removed_items now ?xs)" using get by auto
    then show ?thesis using None scan eq by simp
  next
    case (Some c)
    then have it: "(j, c) \<in> set ?xs" using get by simp
    have "\<forall>it \<in> set ?xs. cached_value (fst it) ?s1 = statistics (cs_Counter (item_value it) + pending (fst it) ?s0)"
      using scan rm by blast
    from bspec [OF this it] have "cached_value j ?s1 = statistics (cs_Counter (snd c) + pending j ?s0)" by simp
    moreover have "cs_Counter (snd c) + pending j ?s0 \<noteq> 0" using stale [OF Some] Some by (simp add: cached_hits_alt)
    ultimately show ?thesis using eq Some by (auto simp: statistics_def)
  qed
  then have "dom (\<lambda>j. Cache_Get j (polCache ?t)) = dom (\<lambda>j. Cache_Get j (polCache ?s0))"
    by (auto simp: cache_get_def dom_def)
  then show ?thesis
    using Cache_Len_dom [of "polCache ?t"] Cache_Len_dom [of "polCache ?s0"] t(2) w0 by (simp add: server_wf_def)
qed

end
