(* ===== verification/Socketmap.thy ===== *)
theory Socketmap
  imports Maintenance Netstring Valid
begin

text \<open>
  The socketmap connections of \<^verbatim>\<open>internal/server.go\<close>: reading queries, answering them from the cache or by a
  lookup, storing what was learned, and the control commands.

  The network is an argument. A connection is what was written to it, the results its next calls of
  \<^verbatim>\<open>Write\<close> return (all of them complete when the list is exhausted; an expired write deadline is a failing
  call), and the address of the peer. Each round of the loop has a record of what the round depends on: the
  clock, the random draws, the lookups, the outcome of the deadline calls. \<^verbatim>\<open>singleflight\<close> may hand a round
  the result of a lookup another connection started for the same domain. \<^verbatim>\<open>json.Marshal\<close> is an argument as well.
\<close>

section \<open>Connections\<close>

datatype addr_kind = UnixAddr | TCPAddr "nat list" nat string | OtherAddr

record net_addr =
  addr_type :: addr_kind
  addr_network :: string
  addr_string :: string

record conn =
  c_out :: string
  c_writes :: "(int \<times> bool) list"
  c_remote :: "net_addr option"

definition conn_Write :: "string \<Rightarrow> conn \<Rightarrow> (int \<times> bool) \<times> conn" where
  "conn_Write response c = (case c_writes c of
     [] \<Rightarrow> ((int (length response), False), c\<lparr>c_out := c_out c @ response\<rparr>)
   | w # ws \<Rightarrow> (w, c\<lparr>c_out := c_out c @ take (nat (fst w)) response, c_writes := ws\<rparr>))"

datatype write_error = ConnError | ErrShortWrite

function writeConnection :: "string \<Rightarrow> conn \<Rightarrow> write_error option \<times> conn" where
  "writeConnection response c =
     (if response = [] then (None, c)
      else let r = conn_Write response c; n = fst (fst r) in
        if snd (fst r) then (Some ConnError, snd r)
        else if n \<le> 0 \<or> n > int (length response) then (Some ErrShortWrite, snd r)
        else writeConnection (drop (nat n) response) (snd r))"
  by pat_completeness auto
termination by (relation "measure (\<lambda>(response, c). length response)") auto

declare writeConnection.simps [simp del]

definition writeConnectionResponse :: "string \<Rightarrow> conn \<Rightarrow> bool \<times> conn" where
  "writeConnectionResponse response c =
     (let r = writeConnection response c in (fst r = None, snd r))"

definition SOCKETMAP_MAX_QUERY_BYTES :: int where "SOCKETMAP_MAX_QUERY_BYTES = 10000"
definition SOCKETMAP_MAX_REPLY_BYTES :: nat where "SOCKETMAP_MAX_REPLY_BYTES = 100000"

definition NS_NOTFOUND :: string where "NS_NOTFOUND = Marshal ''NOTFOUND ''"
definition NS_TEMP :: string where "NS_TEMP = Marshal ''TEMP ''"
definition NS_PERM :: string where "NS_PERM = Marshal ''PERM ''"

definition writeSocketmapReply :: "string \<Rightarrow> conn \<Rightarrow> bool \<times> conn" where
  "writeSocketmapReply payload c =
     (if length payload > SOCKETMAP_MAX_REPLY_BYTES then writeConnectionResponse NS_TEMP c
      else writeConnectionResponse (Marshal payload) c)"

section \<open>Commands\<close>

definition canonicalSocketmapCommand :: "unicode_tables \<Rightarrow> string \<Rightarrow> string" where
  "canonicalSocketmapCommand u command =
     (if command \<in> {''QUERYWITHTLSRPT'', ''QUERY'', ''JSON'', ''DUMP'', ''EXPORT'', ''PURGE''} then command
      else ToUpper u command)"

definition isControlCommand :: "string \<Rightarrow> bool" where
  "isControlCommand cmd \<longleftrightarrow> cmd \<in> {''JSON'', ''DUMP'', ''EXPORT'', ''PURGE''}"

definition isLocalControlConnection :: "conn \<Rightarrow> bool" where
  "isLocalControlConnection c = (case c_remote c of
     None \<Rightarrow> False
   | Some addr \<Rightarrow>
       (case addr_type addr of
          UnixAddr \<Rightarrow> True
        | TCPAddr ip port zone \<Rightarrow> IP_IsLoopback ip
        | OtherAddr \<Rightarrow>
            if HasPrefix (addr_network addr) ''unix'' then True
            else case SplitHostPort (addr_string addr) of
              None \<Rightarrow> False
            | Some hp \<Rightarrow> (case ParseIP (fst hp) of None \<Rightarrow> False | Some ip \<Rightarrow> IP_IsLoopback ip)))"

definition normalizeDomain :: "unicode_tables \<Rightarrow> string \<Rightarrow> string" where
  "normalizeDomain u domain = TrimSuffix (ToLower u (TrimSpace domain)) ''.''"

section \<open>One round\<close>

record DanePolicy =
  dp_Policy :: string
  dp_Time :: duration
  dp_TTL :: u32

record MtaStsPolicy =
  mp_Policy :: string
  mp_Report :: string
  mp_Time :: duration
  mp_TTL :: u32

record Result =
  res_Version :: string
  res_Domain :: string
  res_Dane :: DanePolicy
  res_MtaSts :: MtaStsPolicy

record round =
  rd_idle :: bool
  rd_clear_fails :: bool
  rd_arm_fails :: bool
  rd_reset_fails :: bool
  rd_now_cache :: time
  rd_now_query :: time
  rd_now_store :: time
  rd_now_tidy :: time
  rd_dane_done :: time
  rd_mtasts_done :: time
  rd_jitter :: u32
  rd_draw :: "string \<Rightarrow> nat"
  rd_write :: write_env
  rd_prune_free :: bool
  rd_flight :: "domainResult option"
  rd_checkDane :: dane_check
  rd_checkMtaSts :: mtasts_check

record settings =
  set_tables :: unicode_tables
  set_TlsRpt :: bool
  set_Version :: string
  set_json :: "Result \<Rightarrow> string option"
  set_error_text :: "cache_error \<Rightarrow> string"

definition readSocketmapQuery :: "round \<Rightarrow> Reader \<Rightarrow> string option \<times> Reader" where
  "readSocketmapQuery rd reader =
     (if rd_idle rd \<and> rd_clear_fails rd then (None, reader)
      else if rd_idle rd \<and> rbuf reader = [] then (None, reader)
      else if rd_arm_fails rd then (None, reader)
      else case Read reader SOCKETMAP_MAX_QUERY_BYTES of
        (Inl readErr, reader') \<Rightarrow> (None, reader')
      | (Inr payload, reader') \<Rightarrow> if rd_reset_fails rd then (None, reader') else (Some payload, reader'))"

definition truncate_milli :: "duration \<Rightarrow> duration" where
  "truncate_milli d = d - (if d < 0 then - ((- d) mod nanos_per_milli) else d mod nanos_per_milli)"

definition json_result :: "settings \<Rightarrow> round \<Rightarrow> string \<Rightarrow> Result" where
  "json_result cfg rd domain =
     (let ta = rd_now_query rd; d = rd_checkDane rd domain True; m = rd_checkMtaSts rd domain True in
      \<lparr>res_Version = set_Version cfg, res_Domain = domain,
       res_Dane = \<lparr>dp_Policy = fst d, dp_Time = truncate_milli (time_Sub (rd_dane_done rd) ta), dp_TTL = snd d\<rparr>,
       res_MtaSts = \<lparr>mp_Policy = fst m, mp_Report = fst (snd m),
          mp_Time = truncate_milli (time_Sub (rd_mtasts_done rd) ta), mp_TTL = snd (snd m)\<rparr>\<rparr>)"

definition replyJson :: "settings \<Rightarrow> round \<Rightarrow> string \<Rightarrow> conn \<Rightarrow> conn" where
  "replyJson cfg rd domain c =
     (case set_json cfg (json_result cfg rd domain) of
        None \<Rightarrow> c
      | Some b \<Rightarrow> snd (writeConnectionResponse (b @ newline) c))"

definition replySocketmap :: "string \<Rightarrow> string \<Rightarrow> bool \<Rightarrow> server \<Rightarrow> conn \<Rightarrow> server \<times> conn" where
  "replySocketmap policy report withTlsRpt s c =
     (let r = (if policy = [] then writeConnectionResponse NS_NOTFOUND c
               else if policy = ''TEMP'' then writeConnectionResponse NS_TEMP c
               else writeSocketmapReply (''OK '' @ (if withTlsRpt then policy @ '' '' @ report else policy)) c)
      in (if fst r then observePolicy policy s else s, snd r))"

definition tryCachedPolicy :: "round \<Rightarrow> string \<Rightarrow> bool \<Rightarrow> server \<Rightarrow> conn \<Rightarrow> (CacheStruct option \<times> bool) \<times> server \<times> conn" where
  "tryCachedPolicy rd domain withTlsRpt s c = (case cache_get domain s of
     None \<Rightarrow> ((None, False), s, c)
   | Some entry \<Rightarrow>
       (case selectCachedPolicy (Some (snd entry)) (rd_now_cache rd) of (policy, report, ttl, ok) \<Rightarrow>
          if ok then
            let r = (if policy = [] then writeConnectionResponse NS_NOTFOUND c
                     else writeSocketmapReply (''OK '' @ (if withTlsRpt then policy @ '' '' @ report else policy)) c);
                s1 = (if fst r then observePolicy policy s else s)
            in ((Some (snd entry), True), addCacheHitCounter domain (observeCacheRequest True s1), snd r)
          else ((Some (snd entry), False), s, c)))"

definition refreshDomain :: "round \<Rightarrow> string \<Rightarrow> CacheStruct option \<Rightarrow> domainResult" where
  "refreshDomain rd domain c = (case rd_flight rd of
     Some shared \<Rightarrow> shared
   | None \<Rightarrow> refreshDomainOnceImpl (rd_checkDane rd) (rd_checkMtaSts rd) domain c (rd_now_query rd))"

text \<open>The end of the loop body: what a lookup taught is stored and scheduled.\<close>

definition store_result :: "round \<Rightarrow> string \<Rightarrow> CacheStruct option \<Rightarrow> domainResult \<Rightarrow> server \<Rightarrow> server" where
  "store_result rd domain c result s =
     (if dr_TTL result \<noteq> 0 \<or> HasData (dr_Dane result) \<or> HasData (dr_MtaSts result)
         \<or> (c \<noteq> None \<and> (dr_DaneAttempted result \<or> dr_MtaStsAttempted result)) then
        let now = rd_now_store rd;
            merged = mergeCacheResult (rd_jitter rd) c result now;
            d = drainCacheHitCounter domain s;
            cs = merged\<lparr>cs_Counter := cs_Counter merged + fst d + 1\<rparr>;
            s1 = enforceCacheLimit (rd_prune_free rd) (rd_draw rd) (rd_write rd) (rd_now_tidy rd)
                   (cache_set domain cs (snd d));
            s2 = (if usable_at (Some cs) now then resetCachedPolicyPrefetchFailures domain s1 else s1)
        in scheduleCachedPolicyPrefetch (rd_draw rd domain) domain (Some cs) now s2
      else s)"

text \<open>Cache or lookup, for a valid domain.\<close>

definition answer_query :: "round \<Rightarrow> string \<Rightarrow> bool \<Rightarrow> server \<Rightarrow> conn \<Rightarrow> server \<times> conn" where
  "answer_query rd domain withTlsRpt s0 c0 =
     (let t = tryCachedPolicy rd domain withTlsRpt s0 c0;
          c = fst (fst t) in
      if snd (fst t) then snd t
      else let result = refreshDomain rd domain c;
               r = replySocketmap (dr_Policy result) (dr_Report result) withTlsRpt
                     (observeCacheRequest False (fst (snd t))) (snd (snd t))
           in (store_result rd domain c result (fst r), snd r))"

definition valid_domain :: "string \<Rightarrow> bool" where
  "valid_domain domain \<longleftrightarrow> IsDNSName domain \<and> \<not> HasPrefix domain ''.''"

text \<open>The body of the loop, after a query was read: whether the loop goes on, the state, the connection.\<close>

definition handle_command :: "settings \<Rightarrow> round \<Rightarrow> string \<Rightarrow> server \<Rightarrow> conn \<Rightarrow> bool \<times> server \<times> conn" where
  "handle_command cfg rd query s0 c =
     (case Cut query (CHR '' '') of (rawCommand, argument, hasArgument) \<Rightarrow>
        let cmd = canonicalSocketmapCommand (set_tables cfg) rawCommand in
        if isControlCommand cmd \<and> \<not> isLocalControlConnection c then
          (False, s0, snd (writeConnectionResponse NS_PERM c))
        else if cmd = ''DUMP'' then
          (let d = dumpCachedPolicies (rd_draw rd) (rd_write rd) (rd_now_tidy rd) (rd_now_store rd) False s0
           in (False, snd d, snd (writeConnection (fst d) c)))
        else if cmd = ''EXPORT'' then
          (let d = dumpCachedPolicies (rd_draw rd) (rd_write rd) (rd_now_tidy rd) (rd_now_store rd) True s0
           in (False, snd d, snd (writeConnection (fst d) c)))
        else if cmd = ''PURGE'' then
          (let p = purgeCache (rd_write rd) s0
           in (False, snd p, snd (conn_Write (case fst p of
                 Some err \<Rightarrow> ''ERROR: cache purge is not durable: '' @ set_error_text cfg err @ newline
               | None \<Rightarrow> ''OK'' @ newline) c)))
        else if cmd \<noteq> ''QUERYWITHTLSRPT'' \<and> cmd \<noteq> ''QUERY'' \<and> cmd \<noteq> ''JSON'' then
          (False, s0, snd (writeConnectionResponse NS_PERM c))
        else
          let withTlsRpt = (cmd = ''QUERYWITHTLSRPT'' \<or> set_TlsRpt cfg);
              s = (if cmd = ''JSON'' then s0 else addMetricQuery s0);
              domain = normalizeDomain (set_tables cfg) argument in
          if \<not> hasArgument \<or> \<not> valid_domain domain then (True, s, snd (writeConnectionResponse NS_NOTFOUND c))
          else if cmd = ''JSON'' then (True, s, replyJson cfg rd domain c)
          else let r = answer_query rd domain withTlsRpt s c in (True, fst r, snd r))"

section \<open>The connection\<close>

lemma read_consumes: "readSocketmapQuery rd reader = (Some query, reader') \<Longrightarrow> length (rbuf reader') < length (rbuf reader)"
  by (auto simp: readSocketmapQuery_def Read_Inr_iff Marshal_def split: if_splits prod.splits sum.splits)

text \<open>The loop, for a given body; \<open>rds\<close> lists the rounds.\<close>

function session ::
    "(round \<Rightarrow> string \<Rightarrow> server \<Rightarrow> conn \<Rightarrow> bool \<times> server \<times> conn) \<Rightarrow> (nat \<Rightarrow> round) \<Rightarrow> Reader \<Rightarrow> server \<Rightarrow> conn \<Rightarrow> server \<times> conn" where
  "session body rds reader s c =
     (case readSocketmapQuery (rds 0) reader of
        (None, reader') \<Rightarrow> (s, c)
      | (Some query, reader') \<Rightarrow>
          let r = body (rds 0) query s c in
          if fst r then session body (\<lambda>i. rds (Suc i)) reader' (fst (snd r)) (snd (snd r))
          else snd r)"
  by pat_completeness auto
termination
  by (relation "measure (\<lambda>(body, rds, reader, s, c). length (rbuf reader))") (auto dest: read_consumes [OF sym])

declare session.simps [simp del]

definition handleSocketmapConnection :: "settings \<Rightarrow> (nat \<Rightarrow> round) \<Rightarrow> Reader \<Rightarrow> server \<Rightarrow> conn \<Rightarrow> server \<times> conn" where
  "handleSocketmapConnection cfg rds reader s c = session (handle_command cfg) rds reader s c"

text \<open>The two ways a round can go, and induction over the rounds.\<close>

lemma session_end: "readSocketmapQuery (rds 0) reader = (None, reader') \<Longrightarrow> session body rds reader s c = (s, c)"
  by (subst session.simps) simp

lemma session_round:
  "readSocketmapQuery (rds 0) reader = (Some query, reader') \<Longrightarrow>
   session body rds reader s c =
     (if fst (body (rds 0) query s c)
      then session body (\<lambda>i. rds (Suc i)) reader' (fst (snd (body (rds 0) query s c))) (snd (snd (body (rds 0) query s c)))
      else snd (body (rds 0) query s c))"
  by (subst session.simps) (simp add: Let_def)

lemma session_induct [case_names stop round]:
  assumes stop: "\<And>rds reader reader' s c. readSocketmapQuery (rds 0) reader = (None, reader') \<Longrightarrow> P rds reader s c"
    and round: "\<And>rds reader query reader' s c. readSocketmapQuery (rds 0) reader = (Some query, reader') \<Longrightarrow>
      (\<And>t d. P (\<lambda>i. rds (Suc i)) reader' t d) \<Longrightarrow> P rds reader s c"
  shows "P rds reader s c"
proof (induction "length (rbuf reader)" arbitrary: rds reader s c rule: less_induct)
  case less
  obtain q reader' where q: "readSocketmapQuery (rds 0) reader = (q, reader')" by fastforce
  show ?case
  proof (cases q)
    case None
    then show ?thesis using stop q by simp
  next
    case (Some query)
    with q have "length (rbuf reader') < length (rbuf reader)" using read_consumes by simp
    then show ?thesis using round [where rds = rds and reader = reader, OF q [unfolded Some]] less.hyps by blast
  qed
qed

lemma session_invariant:
  assumes body: "\<And>rd q s c. P s c \<Longrightarrow> P (fst (snd (body rd q s c))) (snd (snd (body rd q s c)))"
  shows "P s c \<Longrightarrow> P (fst (session body rds reader s c)) (snd (session body rds reader s c))"
  by (induction rds reader s c rule: session_induct) (simp_all add: session_end session_round body)

lemma session_cong:
  assumes eq: "\<And>rd q s c. P c \<Longrightarrow> body rd q s c = body' rd q s c" and keep: "\<And>rd q s c. P c \<Longrightarrow> P (snd (snd (body rd q s c)))"
  shows "P c \<Longrightarrow> session body rds reader s c = session body' rds reader s c"
proof (induction rds reader s c rule: session_induct)
  case (round rds reader query reader' s c)
  then show ?case by (simp add: session_round eq [OF round.prems, symmetric] keep)
qed (simp add: session_end)

section \<open>Writing\<close>

lemma conn_Write_remote [simp]: "c_remote (snd (conn_Write r c)) = c_remote c"
  by (simp add: conn_Write_def split: list.split)

lemma writeConnection_remote [simp]: "c_remote (snd (writeConnection r c)) = c_remote c"
proof (induction r c rule: writeConnection.induct)
  case (1 r c)
  then show ?case by (subst writeConnection.simps) (auto simp: Let_def)
qed

lemma writeConnection_ok:
  assumes "c_writes c = []"
  shows "writeConnection r c = (None, c\<lparr>c_out := c_out c @ r\<rparr>)"
  using assms writeConnection.simps [of "[]"] by (subst writeConnection.simps) (simp add: conn_Write_def)

text \<open>Whatever the connection does, it has received a prefix of the response, and all of it if the write
  succeeded.\<close>

lemma writeConnection_prefix:
  "\<exists>p. c_out (snd (writeConnection r c)) = c_out c @ p \<and> (fst (writeConnection r c) = None \<longrightarrow> p = r) \<and> (\<exists>q. r = p @ q)"
proof (induction r c rule: writeConnection.induct)
  case (1 r c)
  let ?w = "conn_Write r c"
  show ?case
  proof (cases "r = [] \<or> snd (fst ?w) \<or> fst (fst ?w) \<le> 0 \<or> fst (fst ?w) > int (length r)")
    case True
    have "\<exists>p q. c_out (snd ?w) = c_out c @ p \<and> r = p @ q"
      by (auto simp: conn_Write_def split: list.split) (metis append_take_drop_id)
    with True show ?thesis by (subst (1 2) writeConnection.simps) (auto simp: Let_def)
  next
    case False
    then have w: "c_out (snd ?w) = c_out c @ take (nat (fst (fst ?w))) r"
      by (auto simp: conn_Write_def split: list.splits)
    have eq: "writeConnection r c = writeConnection (drop (nat (fst (fst ?w))) r) (snd ?w)"
      using False by (subst writeConnection.simps) (auto simp: Let_def)
    have "\<exists>p. c_out (snd (writeConnection r c)) = c_out (snd ?w) @ p
        \<and> (fst (writeConnection r c) = None \<longrightarrow> p = drop (nat (fst (fst ?w))) r) \<and> (\<exists>q. drop (nat (fst (fst ?w))) r = p @ q)"
      unfolding eq using False by (intro "1.IH" [OF _ refl refl]) simp_all
    then obtain p q where p: "c_out (snd (writeConnection r c)) = c_out (snd ?w) @ p"
      "fst (writeConnection r c) = None \<longrightarrow> p = drop (nat (fst (fst ?w))) r" "drop (nat (fst (fst ?w))) r = p @ q"
      by (elim exE conjE) (rule that)
    from p(3) have "r = (take (nat (fst (fst ?w))) r @ p) @ q" by (metis append.assoc append_take_drop_id)
    moreover have "take (nat (fst (fst ?w))) r @ drop (nat (fst (fst ?w))) r = r" by simp
    ultimately show ?thesis using p(1,2) w by (intro exI [of _ "take (nat (fst (fst ?w))) r @ p"]) auto
  qed
qed

section \<open>Peers that are not local\<close>

text \<open>A server that knows no commands but the two queries.\<close>

definition public_command :: "settings \<Rightarrow> round \<Rightarrow> string \<Rightarrow> server \<Rightarrow> conn \<Rightarrow> bool \<times> server \<times> conn" where
  "public_command cfg rd query s c =
     (case Cut query (CHR '' '') of (rawCommand, argument, hasArgument) \<Rightarrow>
        let cmd = canonicalSocketmapCommand (set_tables cfg) rawCommand;
            domain = normalizeDomain (set_tables cfg) argument in
        if cmd \<noteq> ''QUERY'' \<and> cmd \<noteq> ''QUERYWITHTLSRPT'' then (False, s, snd (writeConnectionResponse NS_PERM c))
        else if hasArgument \<and> valid_domain domain
        then (True, answer_query rd domain (cmd = ''QUERYWITHTLSRPT'' \<or> set_TlsRpt cfg) (addMetricQuery s) c)
        else (True, addMetricQuery s, snd (writeConnectionResponse NS_NOTFOUND c)))"

lemma response_remote [simp]:
  "c_remote (snd (writeConnectionResponse r c)) = c_remote c" "c_remote (snd (writeSocketmapReply p c)) = c_remote c"
  by (simp_all add: writeConnectionResponse_def writeSocketmapReply_def Let_def)

lemma answer_remote [simp]: "c_remote (snd (answer_query rd domain rpt s c)) = c_remote c"
proof -
  have "c_remote (snd (snd (tryCachedPolicy rd domain rpt s c))) = c_remote c" for s
    by (simp add: tryCachedPolicy_def Let_def split_beta split: option.split)
  moreover have "c_remote (snd (replySocketmap p r rpt s d)) = c_remote d" for p r s d
    by (simp add: replySocketmap_def Let_def)
  ultimately show ?thesis by (simp add: answer_query_def Let_def)
qed

lemma command_remote [simp]: "c_remote (snd (snd (handle_command cfg rd q s c))) = c_remote c"
  by (auto simp: handle_command_def replyJson_def Let_def split: prod.split option.split)

lemma local_cong: "c_remote c = c_remote d \<Longrightarrow> isLocalControlConnection c = isLocalControlConnection d"
  by (simp add: isLocalControlConnection_def)

lemma handle_public:
  "\<not> isLocalControlConnection c \<Longrightarrow> handle_command cfg rd q s c = public_command cfg rd q s c"
  by (auto simp: handle_command_def public_command_def isControlCommand_def Let_def split: prod.split)

section \<open>Replies\<close>

definition bounded_reply :: "string \<Rightarrow> string" where
  "bounded_reply payload = (if length payload > SOCKETMAP_MAX_REPLY_BYTES then ''TEMP '' else payload)"

definition policy_reply :: "bool \<Rightarrow> string \<Rightarrow> string \<Rightarrow> string" where
  "policy_reply withTlsRpt policy report =
     (if policy = [] then ''NOTFOUND '' else bounded_reply (''OK '' @ (if withTlsRpt then policy @ '' '' @ report else policy)))"

definition lookup_reply :: "bool \<Rightarrow> string \<Rightarrow> string \<Rightarrow> string" where
  "lookup_reply withTlsRpt policy report = (if policy = ''TEMP'' then ''TEMP '' else policy_reply withTlsRpt policy report)"

lemma reply_length: "length (policy_reply w p r) \<le> 100000" "length (lookup_reply w p r) \<le> 100000"
  by (simp_all add: policy_reply_def lookup_reply_def bounded_reply_def SOCKETMAP_MAX_REPLY_BYTES_def)

text \<open>The reply the serving rule asks for: from the cache while it serves the domain, from a lookup otherwise.\<close>

definition expected_reply :: "round \<Rightarrow> string \<Rightarrow> bool \<Rightarrow> server \<Rightarrow> string" where
  "expected_reply rd domain withTlsRpt s =
     (let c = cached_value domain s in
      if usable_at c (rd_now_cache rd)
      then policy_reply withTlsRpt (fst (selectCachedPolicy c (rd_now_cache rd))) (fst (snd (selectCachedPolicy c (rd_now_cache rd))))
      else lookup_reply withTlsRpt (dr_Policy (refreshDomain rd domain c)) (dr_Report (refreshDomain rd domain c)))"

lemma response_ok: "c_writes c = [] \<Longrightarrow> writeConnectionResponse r c = (True, c\<lparr>c_out := c_out c @ r\<rparr>)"
  by (simp add: writeConnectionResponse_def writeConnection_ok)

lemma reply_ok: "c_writes c = [] \<Longrightarrow> writeSocketmapReply p c = (True, c\<lparr>c_out := c_out c @ Marshal (bounded_reply p)\<rparr>)"
  by (simp add: writeSocketmapReply_def response_ok bounded_reply_def NS_TEMP_def)

lemma usable_None [simp]: "\<not> usable_at None now"
  by (simp add: usable_at_def selectCachedPolicy_def)

lemma answer_query_reply:
  assumes "c_writes c = []"
  shows "snd (answer_query rd domain rpt s c) = c\<lparr>c_out := c_out c @ Marshal (expected_reply rd domain rpt s)\<rparr>"
proof (cases "cache_get domain s")
  case None
  then show ?thesis
    using assms by (simp add: answer_query_def tryCachedPolicy_def replySocketmap_def expected_reply_def response_ok reply_ok
        lookup_reply_def policy_reply_def NS_TEMP_def NS_NOTFOUND_def Let_def)
next
  case (Some e)
  show ?thesis
  proof (cases "usable_at (Some (snd e)) (rd_now_cache rd)")
    case True
    then show ?thesis
      using assms Some by (cases "selectCachedPolicy (Some (snd e)) (rd_now_cache rd)")
        (simp add: answer_query_def tryCachedPolicy_def expected_reply_def response_ok reply_ok usable_at_def
          policy_reply_def NS_NOTFOUND_def Let_def)
  next
    case False
    then show ?thesis
      using assms Some by (cases "selectCachedPolicy (Some (snd e)) (rd_now_cache rd)")
        (simp add: answer_query_def tryCachedPolicy_def replySocketmap_def expected_reply_def response_ok reply_ok usable_at_def
          lookup_reply_def policy_reply_def NS_TEMP_def NS_NOTFOUND_def Let_def)
  qed
qed

section \<open>The shared state\<close>

lemma wf_tidyCache: "server_wf s \<Longrightarrow> server_wf (snd (tidyCache draw env now s))"
  unfolding tidyCache_def by (rule tidy_limited_ok(2))

lemma wf_enforce: "server_wf s \<Longrightarrow> server_wf (enforceCacheLimit free draw env now s)"
  by (simp add: enforceCacheLimit_def wf_tidyCache)

lemma wf_purge: "server_wf s \<Longrightarrow> server_wf (snd (purgeCache env s))"
proof -
  assume wf: "server_wf s"
  have "data (fst (snd (Cache_Purge env (polCache s) (cacheFiles s)))) = []" by (simp add: Cache_Purge_def Cache_Clear_def)
  then have "server_wf (s\<lparr>polCache := fst (snd (Cache_Purge env (polCache s) (cacheFiles s))),
      cacheFiles := snd (snd (Cache_Purge env (polCache s) (cacheFiles s)))\<rparr>)"
    using wf by (simp add: server_wf_def cache_wf_def)
  then show ?thesis
    by (simp add: purgeCache_def split_beta clearPrefetchSchedule_def wf_with_scheduler wf_flush sched_wf_clear)
qed

lemma wf_schedule: "server_wf s \<Longrightarrow> server_wf (scheduleCachedPolicyPrefetch draw k c now s)"
  "server_wf s \<Longrightarrow> server_wf (resetCachedPolicyPrefetchFailures k s)"
  using only_key_scheduleCached resetFailures_ok(1) only_key_wf(1) by blast+

lemma wf_store: "server_wf s \<Longrightarrow> server_wf (store_result rd domain c result s)"
  by (simp add: store_result_def Let_def wf_schedule wf_enforce wf_cache_set wf_counters)

lemma wf_answer: "server_wf s \<Longrightarrow> server_wf (fst (answer_query rd domain rpt s c))"
proof -
  assume wf: "server_wf s"
  then have "server_wf (fst (snd (tryCachedPolicy rd domain rpt s c)))"
    by (simp add: tryCachedPolicy_def Let_def split_beta wf_counters wf_metrics split: option.split)
  moreover have "server_wf (fst (replySocketmap p r rpt t d))" if "server_wf t" for p r t d
    using that by (simp add: replySocketmap_def Let_def wf_metrics)
  ultimately show ?thesis by (simp add: answer_query_def Let_def wf_store wf_metrics)
qed

lemma wf_command: "server_wf s \<Longrightarrow> server_wf (fst (snd (handle_command cfg rd q s c)))"
  by (simp add: handle_command_def Let_def split_beta wf_answer wf_metrics wf_purge wf_tidyCache dumpCachedPolicies_def)

text \<open>While the cache is below its limit, a lookup result ends up in the cache with its hits counted, its next
  refresh is scheduled, and no other domain is touched.\<close>

lemma store_result_stored:
  fixes rd domain c result s
  defines "now \<equiv> rd_now_store rd"
  defines "merged \<equiv> mergeCacheResult (rd_jitter rd) c result now"
  defines "cs \<equiv> merged\<lparr>cs_Counter := cs_Counter merged + pending domain s + 1\<rparr>"
  assumes wf: "server_wf s" and data: "HasData (dr_Dane result) \<or> HasData (dr_MtaSts result)"
    and room: "Cache_Len (polCache (cache_set domain cs (snd (drainCacheHitCounter domain s)))) \<le> CACHE_MAX_ENTRIES"
  shows "cached_value domain (store_result rd domain c result s) = Some cs" "only_key domain s (store_result rd domain c result s)"
    "prefetching s \<Longrightarrow> covered domain now (store_result rd domain c result s)"
proof -
  let ?s1 = "cache_set domain cs (snd (drainCacheHitCounter domain s))"
  let ?s2 = "if usable_at (Some cs) now then resetCachedPolicyPrefetchFailures domain ?s1 else ?s1"
  have w1: "server_wf ?s1" using wf by (simp add: wf_cache_set wf_counters)
  then have "only_key domain s ?s1" by (simp add: only_key_def prefetching_def scheduled_def)
  moreover have "only_key domain ?s1 ?s2" using w1 by (simp add: resetFailures_ok only_key_store)
  ultimately have o2: "only_key domain s ?s2" by (rule only_key_trans)
  have r: "store_result rd domain c result s = scheduleCachedPolicyPrefetch (rd_draw rd domain) domain (Some cs) now ?s2"
    using data room by (auto simp: store_result_def enforceCacheLimit_def cs_def merged_def now_def Let_def)
  have v2: "cached_value domain ?s2 = Some cs" by (simp add: resetFailures_ok [OF w1])
  then show "cached_value domain (store_result rd domain c result s) = Some cs" by (simp add: r)
  show "only_key domain s (store_result rd domain c result s)"
    unfolding r using o2 only_key_scheduleCached only_key_trans only_key_wf(1) by blast
  show "prefetching s \<Longrightarrow> covered domain now (store_result rd domain c result s)"
    unfolding r using o2 v2 only_key_wf [OF o2] by (intro scheduleCached_covers) simp_all
qed



text \<open>C7. To a peer that is neither on a Unix socket nor on the loopback interface the server is one without
  control commands: the whole connection, its effects on the shared state and everything
  written to the peer are those of a server that knows only the two queries and answers PERM to anything else.\<close>

theorem remote_peers_can_only_query:
  assumes "\<not> isLocalControlConnection c"
  shows "handleSocketmapConnection cfg rds reader s c = session (public_command cfg) rds reader s c"
  unfolding handleSocketmapConnection_def
proof (rule session_cong [where P = "\<lambda>c. \<not> isLocalControlConnection c"])
  fix rd q s and c :: conn
  assume c: "\<not> isLocalControlConnection c"
  then show "handle_command cfg rd q s c = public_command cfg rd q s c" by (rule handle_public)
  show "\<not> isLocalControlConnection (snd (snd (handle_command cfg rd q s c)))"
    using c local_cong [OF command_remote] by simp
qed (rule assms)

definition sample_conn :: "nat list \<Rightarrow> conn" where
  "sample_conn ip = \<lparr>c_out = [], c_writes = [], c_remote = Some \<lparr>addr_type = TCPAddr ip 40000 [], addr_network = ''tcp'',
     addr_string = []\<rparr>\<rparr>"

theorem remote_peers_can_only_query_witness:
  "\<forall>cfg rds reader s. handleSocketmapConnection cfg rds reader s (sample_conn [192, 0, 2, 1]) =
     session (public_command cfg) rds reader s (sample_conn [192, 0, 2, 1])"
  by (intro allI remote_peers_can_only_query)
    (simp add: isLocalControlConnection_def sample_conn_def IP_IsLoopback_def To4_def)

lemma query_reply:
  assumes "c_writes c = []" "valid_domain (normalizeDomain (set_tables cfg) argument)"
  shows "handle_command cfg rd (''QUERY '' @ argument) s c =
    (True, fst (answer_query rd (normalizeDomain (set_tables cfg) argument) (set_TlsRpt cfg) (addMetricQuery s) c),
     c\<lparr>c_out := c_out c @ Marshal (expected_reply rd (normalizeDomain (set_tables cfg) argument) (set_TlsRpt cfg) s)\<rparr>)"
proof -
  let ?d = "normalizeDomain (set_tables cfg) argument"
  have cut: "Cut (''QUERY '' @ argument) (CHR '' '') = (''QUERY'', argument, True)" by (simp add: Cut_def)
  have "expected_reply rd ?d (set_TlsRpt cfg) (addMetricQuery s) = expected_reply rd ?d (set_TlsRpt cfg) s"
    by (simp add: expected_reply_def Let_def)
  then show ?thesis
    using assms answer_query_reply [OF assms(1), of rd ?d "set_TlsRpt cfg" "addMetricQuery s"]
    unfolding handle_command_def cut by (simp add: canonicalSocketmapCommand_def isControlCommand_def prod_eq_iff Let_def)
qed

text \<open>C6. A query for a valid domain is answered by exactly one netstring of at most 100,000 bytes, which the
  client's reader gets back, and whose content is what the serving rule asks for: the cached policy while the cache
  serves the domain, the result of a lookup otherwise, NOTFOUND without a policy, TEMP when
  the lookup failed temporarily or the reply would be too long.\<close>

theorem query_gets_one_bounded_reply:
  assumes "c_writes c = []" "valid_domain (normalizeDomain (set_tables cfg) argument)"
  shows "\<exists>payload. snd (snd (handle_command cfg rd (''QUERY '' @ argument) s c)) = c\<lparr>c_out := c_out c @ Marshal payload\<rparr>
    \<and> fst (handle_command cfg rd (''QUERY '' @ argument) s c)
    \<and> payload = expected_reply rd (normalizeDomain (set_tables cfg) argument) (set_TlsRpt cfg) s
    \<and> fst (Read \<lparr>rbuf = Marshal payload @ rest, rerr = err\<rparr> 100000) = Inr payload"
proof -
  let ?p = "expected_reply rd (normalizeDomain (set_tables cfg) argument) (set_TlsRpt cfg) s"
  have "length ?p \<le> 100000" using reply_length by (simp add: expected_reply_def Let_def)
  then have "Read \<lparr>rbuf = Marshal ?p @ rest, rerr = err\<rparr> 100000 = (Inr ?p, \<lparr>rbuf = rest, rerr = err\<rparr>)"
    by (simp add: Read_Inr_iff maxInt_def)
  then show ?thesis unfolding query_reply [OF assms] by simp
qed

theorem query_gets_one_bounded_reply_witness:
  "\<forall>cfg rd s. \<exists>payload. snd (snd (handle_command cfg rd ''QUERY a.org'' s (sample_conn [127, 0, 0, 1]))) =
      (sample_conn [127, 0, 0, 1])\<lparr>c_out := Marshal payload\<rparr> \<and> payload = expected_reply rd ''a.org'' (set_TlsRpt cfg) s"
proof (intro allI)
  fix cfg :: settings and rd :: round and s
  have n: "normalizeDomain (set_tables cfg) ''a.org'' = ''a.org''"
    by (simp add: normalizeDomain_def TrimSpace_ascii ToLower_ascii is_ascii_def ascii_space_def ascii_lower_def is_upper_def
        TrimSuffix_def HasSuffix_def)
  have v: "valid_domain ''a.org''" by (simp add: valid_domain_def HasPrefix_def) code_simp
  from query_gets_one_bounded_reply [of "sample_conn [127, 0, 0, 1]" cfg "''a.org''" rd s "[]" EOF] n v
  show "\<exists>payload. snd (snd (handle_command cfg rd ''QUERY a.org'' s (sample_conn [127, 0, 0, 1]))) =
      (sample_conn [127, 0, 0, 1])\<lparr>c_out := Marshal payload\<rparr> \<and> payload = expected_reply rd ''a.org'' (set_TlsRpt cfg) s"
    by (auto simp: sample_conn_def)
qed

end
