(* ===== verification/Config.thy ===== *)
theory Config
  imports Go_Net Go_Sort
begin

unbundle bit_operations_syntax

text \<open>
  The configuration of \<^verbatim>\<open>internal/config.go\<close>: defaults and validation of \<^verbatim>\<open>config.yaml\<close>, the address of the DNS
  resolver, and the watcher that follows changes of \<^verbatim>\<open>/etc/resolv.conf\<close> by inotify events.

  The YAML decoder and the parser of \<^verbatim>\<open>resolv.conf\<close> are third-party code: decoding is a function from
  the prefilled record to an error or the filled record, with the keys the document has, and reading
  \<^verbatim>\<open>resolv.conf\<close> yields the list of servers or fails.
\<close>

section \<open>Configuration records\<close>

record ServerConfig =
  sc_Address :: string
  sc_MetricsAddress :: string
  sc_CacheFile :: string
  sc_NamedLogLevel :: string
  sc_LogFormat :: string
  sc_LogLevel :: int
  sc_SocketPermissions :: u32
  sc_TlsRpt :: bool
  sc_Prefetch :: bool
  sc_addressConfigured :: bool

record DnsConfig =
  dc_Address :: "string option"

record Config =
  cfg_Dns :: DnsConfig
  cfg_Server :: ServerConfig

datatype config_error =
    OpenFailed | ReadFailed | TooLarge | YamlError string | InvalidLogLevel string | EmptyAddress string
  | EmptySocketPath string | InvalidAddress string string | EmptyCacheFile | UnsupportedModeBits | InvalidLogFormat string
  | NoResolvConf | NoNameservers

text \<open>\<^verbatim>\<open>slog.Level.UnmarshalText\<close>: a level name with an optional signed offset.\<close>

definition parse_level :: "unicode_tables \<Rightarrow> string \<Rightarrow> int option" where
  "parse_level u s =
     (let name = takeWhile (\<lambda>c. c \<noteq> CHR ''+'' \<and> c \<noteq> CHR ''-'') s;
          rest = dropWhile (\<lambda>c. c \<noteq> CHR ''+'' \<and> c \<noteq> CHR ''-'') s;
          offset = (if rest = [] then Some 0 else Atoi rest);
          up = ToUpper u name;
          base = (if up = ''DEBUG'' then Some (- 4) else if up = ''INFO'' then Some 0
                  else if up = ''WARN'' then Some 4 else if up = ''ERROR'' then Some 8 else None)
      in case offset of None \<Rightarrow> None | Some k \<Rightarrow> map_option (\<lambda>b. b + k) base)"

section \<open>Decoding\<close>

text \<open>A decoder fills a record. The keys of the document's mapping are listed beside it. Decoding gives the
  warnings it logs and the filled record or an error.\<close>

type_synonym 'a decoder = "'a \<Rightarrow> config_error + 'a"

text \<open>The keys that are reported as unknown, in order and with their section.\<close>

definition warnUnknownConfigKeys :: "string list \<Rightarrow> string \<Rightarrow> string list \<Rightarrow> string list" where
  "warnUnknownConfigKeys keys prefix known =
     map (\<lambda>key. if prefix \<noteq> [] then prefix @ ''.'' @ key else key)
       (sort_by (<) (filter (\<lambda>key. key \<notin> set known) (remdups keys)))"

definition server_defaults :: "ServerConfig \<Rightarrow> ServerConfig \<Rightarrow> ServerConfig" where
  "server_defaults dflt c =
     c\<lparr>sc_Address := sc_Address dflt, sc_MetricsAddress := sc_MetricsAddress dflt,
       sc_SocketPermissions := sc_SocketPermissions dflt, sc_NamedLogLevel := sc_NamedLogLevel dflt,
       sc_LogFormat := sc_LogFormat dflt, sc_TlsRpt := False, sc_Prefetch := sc_Prefetch dflt,
       sc_CacheFile := sc_CacheFile dflt\<rparr>"

definition server_keys :: "string list" where
  "server_keys = [''address'', ''metrics-address'', ''cache-file'', ''log-level'', ''log-format'', ''socket-permissions'',
     ''tlsrpt'', ''prefetch'']"

definition ServerConfig_UnmarshalYAML ::
    "unicode_tables \<Rightarrow> ServerConfig \<Rightarrow> ServerConfig decoder \<Rightarrow> (config_error + string list) \<Rightarrow> ServerConfig \<Rightarrow>
     string list \<times> (config_error + ServerConfig)" where
  "ServerConfig_UnmarshalYAML u dflt decode doc c =
     (case decode (server_defaults dflt c) of
        Inl err \<Rightarrow> ([], Inl err)
      | Inr c1 \<Rightarrow>
          (case doc of
             Inl err \<Rightarrow> ([], Inl err)
           | Inr keys \<Rightarrow>
               (warnUnknownConfigKeys keys ''server'' server_keys,
                case parse_level u (ToLower u (sc_NamedLogLevel c1)) of
                  None \<Rightarrow> Inl (InvalidLogLevel (sc_NamedLogLevel c1))
                | Some lvl \<Rightarrow> Inr (c1\<lparr>sc_addressConfigured := (''address'' \<in> set keys), sc_LogLevel := lvl\<rparr>))))"

definition DnsConfig_UnmarshalYAML ::
    "DnsConfig \<Rightarrow> DnsConfig decoder \<Rightarrow> (config_error + string list) \<Rightarrow> DnsConfig \<Rightarrow>
     string list \<times> (config_error + DnsConfig)" where
  "DnsConfig_UnmarshalYAML dflt decode doc c =
     (case decode (c\<lparr>dc_Address := dc_Address dflt\<rparr>) of
        Inl err \<Rightarrow> ([], Inl err)
      | Inr c1 \<Rightarrow> (case doc of
          Inl err \<Rightarrow> ([], Inl err)
        | Inr keys \<Rightarrow> (warnUnknownConfigKeys keys ''dns'' [''address''], Inr c1)))"

text \<open>The decoder of the whole document calls the two above for the sections it finds.\<close>

definition Config_UnmarshalYAML ::
    "(Config \<Rightarrow> string list \<times> (config_error + Config)) \<Rightarrow> (config_error + string list) \<Rightarrow> Config \<Rightarrow>
     string list \<times> (config_error + Config)" where
  "Config_UnmarshalYAML decode doc c =
     (case decode c of
        (warned, Inl err) \<Rightarrow> (warned, Inl err)
      | (warned, Inr c1) \<Rightarrow> (case doc of
          Inl err \<Rightarrow> (warned, Inl err)
        | Inr keys \<Rightarrow> (warned @ warnUnknownConfigKeys keys [] [''dns'', ''server''], Inr c1)))"

section \<open>Validation\<close>

definition validateListenAddress :: "string \<Rightarrow> string \<Rightarrow> bool \<Rightarrow> config_error option" where
  "validateListenAddress name address0 allowEmpty =
     (let address = TrimSpace address0 in
      if address = [] then (if allowEmpty then None else Some (EmptyAddress name))
      else if HasPrefix address ''unix:'' then
        (if TrimSpace (drop 5 address) = [] then Some (EmptySocketPath name) else None)
      else case SplitHostPort address of
        None \<Rightarrow> Some (InvalidAddress name address)
      | Some hp \<Rightarrow> None)"

definition ModePerm :: u32 where "ModePerm = 511"

definition trim_addresses :: "Config \<Rightarrow> Config" where
  "trim_addresses config =
     (let s = cfg_Server config in
      config\<lparr>cfg_Server := s\<lparr>sc_Address := TrimSpace (sc_Address s), sc_MetricsAddress := TrimSpace (sc_MetricsAddress s),
                              sc_CacheFile := TrimSpace (sc_CacheFile s)\<rparr>\<rparr>)"

definition validateConfig :: "unicode_tables \<Rightarrow> Config \<Rightarrow> config_error + Config" where
  "validateConfig u config0 =
     (let config1 = trim_addresses config0; s = cfg_Server config1 in
      case validateListenAddress ''server.address'' (sc_Address s) True of
        Some err \<Rightarrow> Inl err
      | None \<Rightarrow>
          (case validateListenAddress ''server.metrics-address'' (sc_MetricsAddress s) True of
             Some err \<Rightarrow> Inl err
           | None \<Rightarrow>
               if sc_CacheFile s = [] then Inl EmptyCacheFile
               else if sc_SocketPermissions s AND NOT ModePerm \<noteq> 0 then Inl UnsupportedModeBits
               else let format = ToLower u (TrimSpace (sc_LogFormat s));
                        config2 = config1\<lparr>cfg_Server := s\<lparr>sc_LogFormat := format\<rparr>\<rparr> in
                 if format \<noteq> ''text'' \<and> format \<noteq> ''json'' then Inl (InvalidLogFormat format)
                 else case dc_Address (cfg_Dns config2) of
                   None \<Rightarrow> Inr config2
                 | Some a \<Rightarrow>
                     let address = TrimSpace a in
                     (case SplitHostPort address of
                        None \<Rightarrow> Inl (InvalidAddress ''dns.address'' address)
                      | Some hp \<Rightarrow> Inr (config2\<lparr>cfg_Dns := (cfg_Dns config2)\<lparr>dc_Address := Some address\<rparr>\<rparr>))))"

definition CONFIG_MAX_SIZE :: nat where "CONFIG_MAX_SIZE = 2 ^ 20"

text \<open>\<open>file\<close> is what opening and reading the file gives: nothing, a read error, or its bytes. The only caller
  reports an error and ends, so that the configuration returned beside an error is dropped here.\<close>

definition loadConfig ::
    "unicode_tables \<Rightarrow> (string \<Rightarrow> config_error + Config) \<Rightarrow> (config_error + string) option \<Rightarrow> config_error + Config" where
  "loadConfig u yaml_Load file = (case file of
     None \<Rightarrow> Inl OpenFailed
   | Some (Inl err) \<Rightarrow> Inl err
   | Some (Inr contents) \<Rightarrow>
       let bytes = take (CONFIG_MAX_SIZE + 1) contents in
       if length bytes > CONFIG_MAX_SIZE then Inl TooLarge
       else case yaml_Load bytes of
         Inl err \<Rightarrow> Inl err
       | Inr config \<Rightarrow> validateConfig u config)"

section \<open>The resolver address\<close>

type_synonym resolv_conf = "string list option"

text \<open>\<^verbatim>\<open>ResolvConf.load\<close> keeps the old configuration when the file cannot be read; \<^verbatim>\<open>Get\<close> tries again while
  there is none.\<close>

definition ResolvConf_load :: "resolv_conf \<Rightarrow> resolv_conf \<Rightarrow> bool \<times> resolv_conf" where
  "ResolvConf_load fromFile rc = (case fromFile of None \<Rightarrow> (False, rc) | Some servers \<Rightarrow> (True, Some servers))"

definition ResolvConf_Get :: "resolv_conf \<Rightarrow> resolv_conf \<Rightarrow> resolv_conf \<times> resolv_conf" where
  "ResolvConf_Get fromFile rc =
     (if rc \<noteq> None then (rc, rc) else let rc' = snd (ResolvConf_load fromFile rc) in (rc', rc'))"

definition GetResolverAddress :: "resolv_conf \<Rightarrow> DnsConfig \<Rightarrow> resolv_conf \<Rightarrow> (config_error + string) \<times> resolv_conf" where
  "GetResolverAddress fromFile c rc = (case dc_Address c of
     Some address \<Rightarrow> (Inr address, rc)
   | None \<Rightarrow>
       (let g = ResolvConf_Get fromFile rc in
        ((case fst g of
            None \<Rightarrow> Inl NoResolvConf
          | Some servers \<Rightarrow> if servers = [] then Inl NoNameservers else Inr (JoinHostPort (hd servers) ''53'')), snd g)))"

section \<open>Watching resolv.conf\<close>

definition IN_CLOSE_WRITE :: u32 where "IN_CLOSE_WRITE = 0x8"
definition IN_MOVED_TO :: u32 where "IN_MOVED_TO = 0x80"
definition IN_CREATE :: u32 where "IN_CREATE = 0x100"
definition IN_DELETE_SELF :: u32 where "IN_DELETE_SELF = 0x400"
definition IN_MOVE_SELF :: u32 where "IN_MOVE_SELF = 0x800"
definition IN_IGNORED :: u32 where "IN_IGNORED = 0x8000"

record resolvConfWatcher =
  w_conf :: resolv_conf
  w_base :: string
  w_dirWD :: int
  w_fileWD :: int

text \<open>What the system calls give while one event is handled: a new watch, the contents of the file.\<close>

record event_env =
  ee_watch :: "int option"
  ee_file :: resolv_conf

definition addFileWatch :: "event_env \<Rightarrow> resolvConfWatcher \<Rightarrow> resolvConfWatcher" where
  "addFileWatch env w = (case ee_watch env of None \<Rightarrow> w | Some wd \<Rightarrow> w\<lparr>w_fileWD := wd\<rparr>)"

definition watcher_load :: "event_env \<Rightarrow> resolvConfWatcher \<Rightarrow> resolvConfWatcher" where
  "watcher_load env w = w\<lparr>w_conf := snd (ResolvConf_load (ee_file env) (w_conf w))\<rparr>"

definition handleEvent :: "event_env \<Rightarrow> int \<Rightarrow> u32 \<Rightarrow> string \<Rightarrow> resolvConfWatcher \<Rightarrow> resolvConfWatcher" where
  "handleEvent env wd evMask name w =
     (let isFileEvent = (wd = w_fileWD w);
          isPathEvent = (isFileEvent \<or> (wd = w_dirWD w \<and> name = w_base w)) in
      if \<not> isPathEvent then w
      else
        let w1 = (if isFileEvent \<and> evMask AND (IN_IGNORED OR IN_DELETE_SELF OR IN_MOVE_SELF) \<noteq> 0
                  then w\<lparr>w_fileWD := 0\<rparr> else w);
            w2 = (if evMask AND (IN_CREATE OR IN_MOVED_TO OR IN_IGNORED OR IN_DELETE_SELF OR IN_MOVE_SELF) \<noteq> 0
                  then addFileWatch env w1 else w1)
        in if evMask AND (IN_CLOSE_WRITE OR IN_MOVED_TO OR IN_IGNORED OR IN_DELETE_SELF OR IN_MOVE_SELF) \<noteq> 0
           then watcher_load env w2 else w2)"

text \<open>Events arrive as C structures in the byte order of the machine: watch descriptor, mask, cookie and the
  length of the name field, which is padded with zero bytes.\<close>

definition u32_at :: "bool \<Rightarrow> string \<Rightarrow> u32" where
  "u32_at bigEndian bs =
     word_of_nat (foldr (\<lambda>c n. byte c + 256 * n) (if bigEndian then rev (take 4 bs) else take 4 bs) 0)"

definition SizeofInotifyEvent :: nat where "SizeofInotifyEvent = 16"

function handleEvents :: "bool \<Rightarrow> (nat \<Rightarrow> event_env) \<Rightarrow> string \<Rightarrow> resolvConfWatcher \<Rightarrow> resolvConfWatcher" where
  "handleEvents be envs bytes w =
     (if length bytes < SizeofInotifyEvent then w
      else let wd = sint (u32_at be bytes); evMask = u32_at be (drop 4 bytes);
               len = u32_at be (drop 12 bytes) in
        if unat len > length bytes - SizeofInotifyEvent then w
        else let eventLen = SizeofInotifyEvent + unat len;
                 nameBytes = drop SizeofInotifyEvent (take eventLen bytes);
                 name = takeWhile (\<lambda>c. byte c \<noteq> 0) nameBytes
             in handleEvents be (\<lambda>i. envs (Suc i)) (drop eventLen bytes) (handleEvent (envs 0) wd evMask name w))"
  by pat_completeness auto
termination
  by (relation "measure (\<lambda>(be, envs, bytes, w). length bytes)") (auto simp: SizeofInotifyEvent_def)

declare handleEvents.simps [simp del]

text \<open>
  Starting the watcher: \<^verbatim>\<open>inotify_init\<close> and the watch on the directory may fail, and then nothing is watched;
  a missing watch on the file is not fatal, since the directory is watched. The directory's and the file's name are
  the results of \<^verbatim>\<open>filepath.Dir\<close> and \<^verbatim>\<open>filepath.Base\<close> on the path.
\<close>

definition addDirWatch :: "int option \<Rightarrow> resolvConfWatcher \<Rightarrow> resolvConfWatcher option" where
  "addDirWatch wd w = map_option (\<lambda>d. w\<lparr>w_dirWD := d\<rparr>) wd"

definition startWatch :: "bool \<Rightarrow> int option \<Rightarrow> event_env \<Rightarrow> string \<Rightarrow> resolv_conf \<Rightarrow> resolvConfWatcher option" where
  "startWatch inotifyOk dirWd env base rc =
     (if \<not> inotifyOk then None
      else case addDirWatch dirWd \<lparr>w_conf = rc, w_base = base, w_dirWD = 0, w_fileWD = 0\<rparr> of
        None \<Rightarrow> None
      | Some w \<Rightarrow> Some (addFileWatch env w))"

definition NewResolvConf :: "bool \<Rightarrow> int option \<Rightarrow> event_env \<Rightarrow> string \<Rightarrow> resolv_conf \<times> resolvConfWatcher option" where
  "NewResolvConf inotifyOk dirWd env base =
     (let rc = snd (ResolvConf_load (ee_file env) None) in (rc, startWatch inotifyOk dirWd env base rc))"

text \<open>The loop of the watcher, over the results of its reads: interrupted, failed, or a buffer of events.\<close>

datatype read_result = EINTR | ReadError | ReadBytes string "nat \<Rightarrow> event_env"

fun watch :: "bool \<Rightarrow> read_result list \<Rightarrow> resolvConfWatcher \<Rightarrow> resolvConfWatcher" where
  "watch be [] w = w"
| "watch be (EINTR # rs) w = watch be rs w"
| "watch be (ReadError # rs) w = w"
| "watch be (ReadBytes buf envs # rs) w = watch be rs (handleEvents be envs buf w)"

section \<open>Host and port round trip\<close>

lemma last_index_append: "c \<notin> set b \<Longrightarrow> last_index c (a @ c # b) = Some (length a)"
proof -
  assume c: "c \<notin> set b"
  have "takeWhile (\<lambda>d. d \<noteq> c) (rev b @ c # rev a) = rev b"
    using c by (subst takeWhile_append2) auto
  then show ?thesis by (simp add: last_index_def)
qed

lemma first_index_append: "c \<notin> set a \<Longrightarrow> first_index c (a @ c # b) = Some (length a)"
  by (induction a) (auto simp: first_index_def split: if_splits)

definition plain_host :: "string \<Rightarrow> bool" where
  "plain_host h \<longleftrightarrow> CHR ''['' \<notin> set h \<and> CHR '']'' \<notin> set h"

lemma Split_JoinHostPort:
  assumes "plain_host h" "plain_host p" "CHR '':'' \<notin> set p"
  shows "SplitHostPort (JoinHostPort h p) = Some (h, p)"
proof (cases "CHR '':'' \<in> set h \<or> CHR ''%'' \<in> set h")
  case True
  let ?hp = "CHR ''['' # h @ CHR '']'' # CHR '':'' # p"
  have j: "JoinHostPort h p = ?hp" using True by (simp add: JoinHostPort_def)
  have "last_index (CHR '':'') ((CHR ''['' # h @ [CHR '']'']) @ CHR '':'' # p) = Some (length h + 2)"
    using last_index_append [OF assms(3), of "CHR ''['' # h @ [CHR '']'']"] by simp
  then have li: "last_index (CHR '':'') ?hp = Some (length h + 2)" by simp
  have "first_index (CHR '']'') ((CHR ''['' # h) @ CHR '']'' # CHR '':'' # p) = Some (length h + 1)"
    using assms(1) first_index_append [of "CHR '']''" "CHR ''['' # h"] by (simp add: plain_host_def)
  then have fi: "first_index (CHR '']'') ?hp = Some (length h + 1)" by simp
  show ?thesis unfolding j SplitHostPort_def using li fi assms by (simp add: plain_host_def)
next
  case False
  then have j: "JoinHostPort h p = h @ CHR '':'' # p" by (simp add: JoinHostPort_def)
  have li: "last_index (CHR '':'') (h @ CHR '':'' # p) = Some (length h)" using assms(3) by (rule last_index_append)
  have "hd (h @ CHR '':'' # p) \<noteq> CHR ''[''" using assms(1) by (cases h) (auto simp: plain_host_def)
  then show ?thesis unfolding j SplitHostPort_def using li False assms by (simp add: plain_host_def)
qed

section \<open>Inotify events\<close>

definition u32_bytes :: "bool \<Rightarrow> u32 \<Rightarrow> string" where
  "u32_bytes bigEndian w =
     (let n = unat w;
          bs = [char_of (n mod 256), char_of (n div 256 mod 256), char_of (n div 65536 mod 256), char_of (n div 16777216)]
      in if bigEndian then rev bs else bs)"

lemma length_u32_bytes [simp]: "length (u32_bytes be w) = 4"
  by (simp add: u32_bytes_def Let_def)

lemma u32_at_bytes [simp]: "u32_at be (u32_bytes be w @ rest) = w"
proof -
  let ?n = "unat w"
  have n: "?n < 4294967296" using unsigned_less [of w, where 'a = nat] by simp
  then have d: "?n div 16777216 < 256" by (simp add: less_mult_imp_div_less)
  have q: "?n div 65536 = ?n div 256 div 256" "?n div 16777216 = ?n div 256 div 256 div 256"
    by (simp_all flip: div_mult2_eq)
  have "?n mod 256 + 256 * (?n div 256 mod 256 + 256 * (?n div 65536 mod 256 + 256 * (?n div 16777216))) = ?n"
    unfolding q by (simp only: mod_mult_div_eq)
  with d show ?thesis by (simp add: u32_at_def u32_bytes_def Let_def)
qed

record inotify_event =
  ie_wd :: u32
  ie_mask :: u32
  ie_cookie :: u32
  ie_name :: string

definition encode_event :: "bool \<Rightarrow> inotify_event \<Rightarrow> string" where
  "encode_event be e = u32_bytes be (ie_wd e) @ u32_bytes be (ie_mask e) @ u32_bytes be (ie_cookie e)
     @ u32_bytes be (word_of_nat (length (ie_name e))) @ ie_name e"

definition event_ok :: "inotify_event \<Rightarrow> bool" where
  "event_ok e \<longleftrightarrow> length (ie_name e) < 4294967296"

definition apply_event :: "event_env \<Rightarrow> inotify_event \<Rightarrow> resolvConfWatcher \<Rightarrow> resolvConfWatcher" where
  "apply_event env e w = handleEvent env (sint (ie_wd e)) (ie_mask e) (takeWhile (\<lambda>c. byte c \<noteq> 0) (ie_name e)) w"

fun apply_events :: "(nat \<Rightarrow> event_env) \<Rightarrow> inotify_event list \<Rightarrow> resolvConfWatcher \<Rightarrow> resolvConfWatcher" where
  "apply_events envs [] w = w"
| "apply_events envs (e # es) w = apply_events (\<lambda>i. envs (Suc i)) es (apply_event (envs 0) e w)"

lemma handleEvents_encoded:
  assumes "event_ok e"
  shows "handleEvents be envs (encode_event be e @ rest) w =
    handleEvents be (\<lambda>i. envs (Suc i)) rest (apply_event (envs 0) e w)"
proof -
  let ?b = "encode_event be e @ rest"
  have len: "length ?b = 16 + length (ie_name e) + length rest" by (simp add: encode_event_def)
  have w: "u32_at be ?b = ie_wd e" by (simp add: encode_event_def)
  have m: "u32_at be (drop 4 ?b) = ie_mask e" by (simp add: encode_event_def)
  have l: "unat (u32_at be (drop 12 ?b)) = length (ie_name e)"
    using assms by (simp add: encode_event_def event_ok_def unat_of_nat)
  have n: "drop 16 (take (16 + length (ie_name e)) ?b) = ie_name e" "drop (16 + length (ie_name e)) ?b = rest"
    by (simp_all add: encode_event_def drop_take)
  show ?thesis
    by (subst handleEvents.simps) (simp only: Let_def SizeofInotifyEvent_def len w m l n apply_event_def, simp)
qed

lemma handleEvents_short: "length bytes < 16 \<Longrightarrow> handleEvents be envs bytes w = w"
  by (subst handleEvents.simps) (simp add: SizeofInotifyEvent_def)

lemma handleEvents_concat:
  assumes "list_all event_ok es" "length tail < 16"
  shows "handleEvents be envs (concat (map (encode_event be) es) @ tail) w = apply_events envs es w"
  using assms by (induction es arbitrary: envs w) (simp_all add: handleEvents_short handleEvents_encoded)

lemma handleEvent_conf: "w_conf w \<noteq> None \<Longrightarrow> w_conf (handleEvent env wd m name w) \<noteq> None"
  by (simp add: handleEvent_def watcher_load_def addFileWatch_def ResolvConf_load_def Let_def split: option.splits)

lemma handleEvents_conf: "w_conf w \<noteq> None \<Longrightarrow> w_conf (handleEvents be envs bytes w) \<noteq> None"
proof (induction be envs bytes w rule: handleEvents.induct)
  case (1 be envs bytes w)
  then show ?case by (subst handleEvents.simps) (simp add: Let_def handleEvent_conf del: not_None_eq)
qed

lemma watch_conf: "w_conf w \<noteq> None \<Longrightarrow> w_conf (watch be rs w) \<noteq> None"
  by (induction be rs w rule: watch.induct) (simp_all add: handleEvents_conf del: not_None_eq)

text \<open>A file that is written, or moved into place, under the watched name is read.\<close>

lemma replaced_file_is_read:
  assumes "wd = w_fileWD w \<or> (wd = w_dirWD w \<and> name = w_base w)"
    and "m AND (IN_CLOSE_WRITE OR IN_MOVED_TO) \<noteq> 0" "ee_file env = Some servers"
  shows "w_conf (handleEvent env wd m name w) = Some servers"
proof -
  have "m AND (IN_CLOSE_WRITE OR IN_MOVED_TO OR IN_IGNORED OR IN_DELETE_SELF OR IN_MOVE_SELF) \<noteq> 0"
    using assms(2) by (auto simp: bit.conj_disj_distrib or_eq_0_iff or.assoc)
  then show ?thesis
    using assms(1,3) by (auto simp: handleEvent_def watcher_load_def ResolvConf_load_def Let_def)
qed

section \<open>Properties\<close>

lemma validateConfig_dns:
  assumes "validateConfig u config0 = Inr config"
  shows "dc_Address (cfg_Dns config) = map_option TrimSpace (dc_Address (cfg_Dns config0))"
    "dc_Address (cfg_Dns config) = Some a \<Longrightarrow> SplitHostPort a \<noteq> None"
  using assms by (auto simp: validateConfig_def trim_addresses_def Let_def split: option.splits if_splits)


definition sample_config :: Config where
  "sample_config = \<lparr>cfg_Dns = \<lparr>dc_Address = None\<rparr>, cfg_Server = \<lparr>sc_Address = ''127.0.0.1:8642'', sc_MetricsAddress = [],
     sc_CacheFile = ''c.db'', sc_NamedLogLevel = ''info'', sc_LogFormat = ''text'', sc_LogLevel = 0, sc_SocketPermissions = 438,
     sc_TlsRpt = False, sc_Prefetch = True, sc_addressConfigured = False\<rparr>\<rparr>"


text \<open>C40. The watcher takes the buffer of inotify events apart exactly as the kernel put it together: every
  complete event is handled, in order, with its descriptor, mask and name without padding, and an
  incomplete rest is left alone. A resolver configuration, once read, is never lost, whatever bytes the watcher's
  reads return, however they fail, and whether or not the file can be read then.\<close>

theorem inotify_events_are_decoded:
  assumes "list_all event_ok es" "length tail < 16"
  shows "handleEvents be envs (concat (map (encode_event be) es) @ tail) w = apply_events envs es w
    \<and> (w_conf w \<noteq> None \<longrightarrow> w_conf (watch be rs w) \<noteq> None)"
  using handleEvents_concat [OF assms] watch_conf by blast

theorem inotify_events_are_decoded_witness:
  "\<forall>envs. handleEvents False envs (encode_event False \<lparr>ie_wd = 1, ie_mask = 8, ie_cookie = 0, ie_name = ''resolv.conf''\<rparr> @ ''x'')
      \<lparr>w_conf = None, w_base = ''resolv.conf'', w_dirWD = 1, w_fileWD = 0\<rparr> =
    handleEvent (envs 0) 1 8 ''resolv.conf'' \<lparr>w_conf = None, w_base = ''resolv.conf'', w_dirWD = 1, w_fileWD = 0\<rparr>"
proof
  fix envs
  show "handleEvents False envs (encode_event False \<lparr>ie_wd = 1, ie_mask = 8, ie_cookie = 0, ie_name = ''resolv.conf''\<rparr> @ ''x'')
      \<lparr>w_conf = None, w_base = ''resolv.conf'', w_dirWD = 1, w_fileWD = 0\<rparr> =
    handleEvent (envs 0) 1 8 ''resolv.conf'' \<lparr>w_conf = None, w_base = ''resolv.conf'', w_dirWD = 1, w_fileWD = 0\<rparr>"
    using inotify_events_are_decoded [of "[\<lparr>ie_wd = 1, ie_mask = 8, ie_cookie = 0, ie_name = ''resolv.conf''\<rparr>]" "''x''" False envs]
    by (simp add: event_ok_def apply_event_def)
qed

end
