(* ===== verification/Listeners.thy ===== *)
theory Listeners
  imports Socketmap Config
begin

text \<open>
  Listening (\<^verbatim>\<open>internal/server.go\<close>): the listener that bounds the number of open connections, sockets inherited from
  systemd, the match of configured and inherited addresses, the environment overrides, and the start of the
  servers. System calls are arguments that say what they return.
\<close>

section \<open>Limited listeners\<close>

definition SOCKETMAP_MAX_CONNECTIONS :: nat where "SOCKETMAP_MAX_CONNECTIONS = 512"
definition METRICS_MAX_CONNECTIONS :: nat where "METRICS_MAX_CONNECTIONS = 64"

text \<open>
  The state of a limited listener: the capacity of its semaphore and the tokens in it, the goroutines that hold a
  token and wait in the inner \<^verbatim>\<open>Accept\<close>, the connections handed out with the state of their \<^verbatim>\<open>sync.Once\<close> (\<open>True\<close>
  while the token is held), whether the listener is closed, and the error of the inner \<^verbatim>\<open>Close\<close>.
\<close>

record limitedListener =
  ll_limit :: nat
  ll_sem :: nat
  ll_accepting :: nat
  ll_conns :: "(nat \<times> bool) list"
  ll_done :: bool
  ll_closeErr :: "string option"

text \<open>A limit that is not positive leaves the inner listener as it is (\<open>None\<close>).\<close>

definition newLimitedListener :: "int \<Rightarrow> limitedListener option" where
  "newLimitedListener limit = (if limit \<le> 0 then None
     else Some \<lparr>ll_limit = nat limit, ll_sem = 0, ll_accepting = 0, ll_conns = [], ll_done = False, ll_closeErr = None\<rparr>)"

definition release :: "limitedListener \<Rightarrow> limitedListener" where
  "release l = l\<lparr>ll_sem := ll_sem l - 1\<rparr>"

text \<open>
  The two halves of \<^verbatim>\<open>Accept\<close>: the select, which takes a token when the semaphore has room, returns
  \<^verbatim>\<open>net.ErrClosed\<close> when the listener is closed, and may do either when both hold; and what the inner listener
  returned, an error or a connection.
\<close>

definition accept_take :: "limitedListener \<Rightarrow> limitedListener option" where
  "accept_take l = (if ll_sem l < ll_limit l then Some (l\<lparr>ll_sem := ll_sem l + 1, ll_accepting := ll_accepting l + 1\<rparr>)
     else None)"

definition accept_result :: "string + nat \<Rightarrow> limitedListener \<Rightarrow> limitedListener \<times> (string + nat)" where
  "accept_result r l = (let l1 = l\<lparr>ll_accepting := ll_accepting l - 1\<rparr> in
     case r of
       Inl err \<Rightarrow> (release l1, Inl err)
     | Inr conn \<Rightarrow> (l1\<lparr>ll_conns := AList.update conn True (ll_conns l1)\<rparr>, Inr conn))"

definition limitedConn_Close :: "nat \<Rightarrow> limitedListener \<Rightarrow> limitedListener" where
  "limitedConn_Close conn l = (case map_of (ll_conns l) conn of
     Some True \<Rightarrow> release (l\<lparr>ll_conns := AList.update conn False (ll_conns l)\<rparr>)
   | _ \<Rightarrow> l)"

definition limitedListener_Close :: "string option \<Rightarrow> limitedListener \<Rightarrow> limitedListener \<times> string option" where
  "limitedListener_Close inner_err l =
     (let l1 = (if ll_done l then l else l\<lparr>ll_done := True, ll_closeErr := inner_err\<rparr>)
      in (l1, ll_closeErr l1))"

text \<open>The goroutines that share a listener interleave these steps. The inner listener hands out new connections.\<close>

inductive listener_step :: "limitedListener \<Rightarrow> limitedListener \<Rightarrow> bool" where
  take: "accept_take l = Some l' \<Longrightarrow> listener_step l l'"
| refuse: "ll_done l \<Longrightarrow> listener_step l l"
| accepted: "0 < ll_accepting l \<Longrightarrow> map_of (ll_conns l) conn = None \<Longrightarrow> listener_step l (fst (accept_result (Inr conn) l))"
| failed: "0 < ll_accepting l \<Longrightarrow> listener_step l (fst (accept_result (Inl err) l))"
| conn_close: "listener_step l (limitedConn_Close conn l)"
| close: "listener_step l (fst (limitedListener_Close err l))"

inductive_cases listener_stepE: "listener_step l l'"

definition open_conns :: "limitedListener \<Rightarrow> nat list" where
  "open_conns l = map fst (filter snd (ll_conns l))"

definition listener_inv :: "nat \<Rightarrow> limitedListener \<Rightarrow> bool" where
  "listener_inv limit l \<longleftrightarrow> ll_limit l = limit \<and> distinct (map fst (ll_conns l)) \<and>
     ll_sem l = ll_accepting l + length (open_conns l) \<and> ll_sem l \<le> limit"

lemma open_new: "map_of xs c = None \<Longrightarrow> map fst (filter snd (AList.update c True xs)) = map fst (filter snd xs) @ [c]"
  by (induction xs) (auto split: if_splits)

lemma open_closed:
  "map_of xs c = Some True \<Longrightarrow> distinct (map fst xs) \<Longrightarrow>
   Suc (length (filter snd (AList.update c False xs))) = length (filter snd xs)"
  by (induction xs) (auto split: if_splits)

lemma listener_inv_step: "listener_step l l' \<Longrightarrow> listener_inv limit l \<Longrightarrow> listener_inv limit l'"
proof (induction rule: listener_step.induct)
  case (accepted l conn)
  then show ?case
    by (simp add: listener_inv_def accept_result_def open_conns_def open_new distinct_update Let_def)
next
  case (conn_close l conn)
  show ?case
  proof (cases "map_of (ll_conns l) conn = Some True")
    case True
    with conn_close open_closed [OF True] show ?thesis
      by (auto simp: listener_inv_def limitedConn_Close_def release_def open_conns_def distinct_update)
  next
    case False
    then have "limitedConn_Close conn l = l" by (auto simp: limitedConn_Close_def split: option.split bool.split)
    with conn_close show ?thesis by simp
  qed
qed (auto simp: listener_inv_def accept_take_def accept_result_def release_def limitedListener_Close_def open_conns_def
       Let_def split: if_splits)

lemma listener_inv_new: "newLimitedListener limit = Some l \<Longrightarrow> listener_inv (nat limit) l"
  by (auto simp: newLimitedListener_def listener_inv_def open_conns_def split: if_splits)

lemma listener_inv_reach:
  "listener_step\<^sup>*\<^sup>* l l' \<Longrightarrow> listener_inv limit l \<Longrightarrow> listener_inv limit l'"
  by (induction rule: rtranclp_induct) (blast intro: listener_inv_step)+

lemma map_of_update_closed: "map_of xs c = Some b \<Longrightarrow> map_of (AList.update c v xs) c = Some v"
  by (simp add: update_conv')

lemma limitedConn_Close_idem [simp]: "limitedConn_Close c (limitedConn_Close c l) = limitedConn_Close c l"
  by (auto simp: limitedConn_Close_def release_def update_conv' split: option.split bool.split)

text \<open>Once the listener is closed it stays closed, and the error of the first \<^verbatim>\<open>Close\<close> is the answer to every
  later one.\<close>

lemma close_sticks: "listener_step l l' \<Longrightarrow> ll_done l \<Longrightarrow> ll_done l' \<and> ll_closeErr l' = ll_closeErr l"
  by (induction rule: listener_step.induct)
    (auto simp: accept_take_def accept_result_def release_def limitedConn_Close_def limitedListener_Close_def Let_def
       split: if_splits option.split bool.split)

lemma close_sticks_reach: "listener_step\<^sup>*\<^sup>* l l' \<Longrightarrow> ll_done l \<Longrightarrow> ll_done l' \<and> ll_closeErr l' = ll_closeErr l"
  by (induction rule: rtranclp_induct) (auto dest: close_sticks)

text \<open>
  C30. A limited listener never has more connections open than its limit. Whatever the goroutines that accept,
  handle and close connections do, and in whatever order, the tokens of the semaphore are exactly the pending
  accepts and the open connections, and never more than the limit. Closing a connection twice gives back one token
  only, and when no accept is pending and every connection is closed the listener has its whole capacity again:
  no sequence of failures and double closes can leak capacity or exceed it. A closed listener stays closed and
  every later close reports the error of the first one.
\<close>
theorem open_connections_are_limited:
  assumes "newLimitedListener limit = Some l0" and "listener_step\<^sup>*\<^sup>* l0 l"
    and "listener_step\<^sup>*\<^sup>* (fst (limitedListener_Close err l)) l'"
  shows "int (length (open_conns l)) \<le> limit \<and> int (ll_sem l) \<le> limit \<and>
    ll_sem l = ll_accepting l + length (open_conns l) \<and>
    (accept_take l = None \<longleftrightarrow> int (ll_accepting l + length (open_conns l)) = limit) \<and>
    limitedConn_Close c (limitedConn_Close c l) = limitedConn_Close c l \<and>
    ll_done l' \<and> snd (limitedListener_Close err' l') = snd (limitedListener_Close err l)"
proof -
  have pos: "0 < limit" using assms(1) by (auto simp: newLimitedListener_def split: if_splits)
  have inv: "listener_inv (nat limit) l"
    using listener_inv_reach [OF assms(2) listener_inv_new [OF assms(1)]] .
  have "int (length (open_conns l)) \<le> limit \<and> int (ll_sem l) \<le> limit \<and>
      ll_sem l = ll_accepting l + length (open_conns l) \<and>
      (accept_take l = None \<longleftrightarrow> int (ll_accepting l + length (open_conns l)) = limit)"
    using inv pos by (auto simp: listener_inv_def accept_take_def)
  moreover have "ll_done l' \<and> snd (limitedListener_Close err' l') = snd (limitedListener_Close err l)"
    using close_sticks_reach [OF assms(3)] by (auto simp: limitedListener_Close_def Let_def)
  ultimately show ?thesis by simp
qed

definition busy_listener :: limitedListener where
  "busy_listener = \<lparr>ll_limit = 1, ll_sem = 1, ll_accepting = 0, ll_conns = [(7, True)], ll_done = False, ll_closeErr = None\<rparr>"

theorem open_connections_are_limited_witness:
  "accept_take busy_listener = None \<and>
   (\<forall>err'. snd (limitedListener_Close err' (fst (limitedListener_Close (Some ''failed'') busy_listener))) = Some ''failed'') \<and>
   limitedConn_Close 7 (limitedConn_Close 7 busy_listener) = limitedConn_Close 7 busy_listener"
proof -
  let ?l0 = "\<lparr>ll_limit = 1, ll_sem = 0, ll_accepting = 0, ll_conns = [], ll_done = False, ll_closeErr = None\<rparr>"
  let ?l1 = "?l0\<lparr>ll_sem := 1, ll_accepting := 1\<rparr>"
  have new: "newLimitedListener 1 = Some ?l0" by (simp add: newLimitedListener_def)
  have "listener_step ?l0 ?l1" by (rule listener_step.take) (simp add: accept_take_def)
  moreover have "listener_step ?l1 (fst (accept_result (Inr 7) ?l1))" by (rule listener_step.accepted) simp_all
  ultimately have "listener_step\<^sup>*\<^sup>* ?l0 busy_listener"
    by (auto simp: accept_result_def busy_listener_def intro: converse_rtranclp_into_rtranclp)
  from open_connections_are_limited [where err = "Some ''failed''" and c = 7, OF new this rtranclp.rtrancl_refl] show ?thesis
    by (simp add: busy_listener_def limitedListener_Close_def open_conns_def)
qed

section \<open>Environment\<close>

datatype start_error =
    EnvMustBeBool string | CouldNotOpenFd nat | NotInheritable nat string | InheritFailed start_error
  | NoAddress | ListenFailed string | NoListeners | MetricsFailed string

definition env_bool :: "string \<Rightarrow> (string \<rightharpoonup> string) \<Rightarrow> bool \<Rightarrow> start_error + bool" where
  "env_bool name env old = (case env name of
     None \<Rightarrow> Inr old
   | Some v \<Rightarrow> if v \<noteq> ''0'' \<and> v \<noteq> ''1'' then Inl (EnvMustBeBool name) else Inr (v = ''1''))"

definition readEnv :: "(string \<rightharpoonup> string) \<Rightarrow> ServerConfig \<Rightarrow> start_error option \<times> ServerConfig" where
  "readEnv env c =
     (case env_bool ''TLSPOL_PREFETCH'' env (sc_Prefetch c) of
        Inl err \<Rightarrow> (Some err, c)
      | Inr p \<Rightarrow>
          let c1 = c\<lparr>sc_Prefetch := p\<rparr> in
          (case env_bool ''TLSPOL_TLSRPT'' env (sc_TlsRpt c1) of
             Inl err \<Rightarrow> (Some err, c1)
           | Inr t \<Rightarrow> (None, c1\<lparr>sc_TlsRpt := t\<rparr>)))"

section \<open>Sockets\<close>

text \<open>
  A listener is a descriptor with its address. The process has its environment, the listeners that are open, the
  global list of active listeners that a signal closes, and whether it has warned that the configured address is
  ignored. What the operating system answers is a record of functions:
  the socket behind an inherited descriptor, the removal of a stale socket file (with the answer of
  \<^verbatim>\<open>os.IsNotExist\<close>), listening, and changing the mode of the socket file.
\<close>

record listener =
  ln_id :: nat
  ln_addr :: "net_addr option"

datatype fd_result = NoFile | NotSocket string | Inherited listener

record os =
  os_pid :: int
  os_fd :: "nat \<Rightarrow> fd_result"
  os_remove :: "string \<Rightarrow> (bool \<times> string) option"
  os_listen :: "string \<Rightarrow> string \<Rightarrow> string + listener"
  os_chmod :: "string \<Rightarrow> u32 \<Rightarrow> string option"

record process =
  p_env :: "string \<rightharpoonup> string"
  p_open :: "listener list"
  p_active :: "listener list"
  p_ignoredAddress :: bool

definition opened :: "listener \<Rightarrow> process \<Rightarrow> process" where
  "opened l p = p\<lparr>p_open := l # p_open p\<rparr>"

definition closeListeners :: "listener list \<Rightarrow> process \<Rightarrow> process" where
  "closeListeners toClose p = p\<lparr>p_open := filter (\<lambda>l. l \<notin> set toClose) (p_open p)\<rparr>"

definition setActiveListeners :: "listener list \<Rightarrow> process \<Rightarrow> process" where
  "setActiveListeners active p = p\<lparr>p_active := active\<rparr>"

definition clearActiveListeners :: "process \<Rightarrow> process" where
  "clearActiveListeners p = p\<lparr>p_active := []\<rparr>"

definition closeActiveListeners :: "process \<Rightarrow> process" where
  "closeActiveListeners p = closeListeners (p_active p) p"

fun inherit_fds :: "os \<Rightarrow> nat list \<Rightarrow> listener list \<Rightarrow> process \<Rightarrow> (start_error + listener list) \<times> process" where
  "inherit_fds os [] ls p = (Inr ls, p)"
| "inherit_fds os (i # is) ls p =
     (let fdNum = 3 + i in
      case os_fd os fdNum of
        NoFile \<Rightarrow> (Inl (CouldNotOpenFd fdNum), closeListeners ls p)
      | NotSocket err \<Rightarrow> (Inl (NotInheritable fdNum err), closeListeners ls p)
      | Inherited l \<Rightarrow> inherit_fds os is (ls @ [l]) (opened l p))"

text \<open>The descriptors of systemd count only when they are addressed to this process. \<open>None\<close> stands for no
  inherited sockets. The allocation of the list of listeners is taken to succeed.\<close>

definition listenSystemdSocket :: "os \<Rightarrow> process \<Rightarrow> (start_error + listener list option) \<times> process" where
  "listenSystemdSocket os p =
     (case map_option (\<lambda>s. Atoi (TrimSpace s)) (p_env p ''LISTEN_PID'') of
        Some (Some pid) \<Rightarrow>
          if pid \<noteq> os_pid os then (Inr None, p)
          else (case map_option (\<lambda>s. Atoi (TrimSpace s)) (p_env p ''LISTEN_FDS'') of
            Some (Some fds) \<Rightarrow>
              if fds < 1 then (Inr None, p)
              else (case inherit_fds os [0..<nat fds] [] p of
                  (Inl err, p1) \<Rightarrow> (Inl err, p1)
                | (Inr ls, p1) \<Rightarrow>
                    (Inr (Some ls), p1\<lparr>p_env := (p_env p1)(''LISTEN_PID'' := None, ''LISTEN_FDS'' := None, ''LISTEN_FDNAMES'' := None)\<rparr>))
          | _ \<Rightarrow> (Inr None, p))
      | _ \<Rightarrow> (Inr None, p))"

definition ip_matches :: "string \<Rightarrow> ip \<Rightarrow> bool" where
  "ip_matches host a = (case ParseIP host of None \<Rightarrow> False | Some configuredIP \<Rightarrow> IP_Equal configuredIP a)"

definition listenerAddressMatchesConfigured :: "string \<Rightarrow> net_addr option \<Rightarrow> bool" where
  "listenerAddressMatchesConfigured address listenerAddress =
     (case listenerAddress of
        None \<Rightarrow> False
      | Some l \<Rightarrow>
          if HasPrefix address ''unix:'' then HasPrefix (addr_network l) ''unix'' \<and> drop 5 address = addr_string l
          else if \<not> HasPrefix (addr_network l) ''tcp'' then False
          else if address = addr_string l then True
          else (case addr_type l of
              TCPAddr ip tcpPort zone \<Rightarrow>
                (case SplitHostPort address of
                   None \<Rightarrow> False
                 | Some (host, portText) \<Rightarrow>
                     (case Atoi portText of
                        None \<Rightarrow> False
                      | Some port \<Rightarrow>
                          if port \<noteq> int tcpPort then False
                          else if host = [] then IP_IsUnspecified ip
                          else (case last_index (CHR ''%'') host of
                              None \<Rightarrow> ip_matches host ip
                            | Some z \<Rightarrow> if drop (z + 1) host \<noteq> zone then False else ip_matches (take z host) ip)))
            | _ \<Rightarrow> False))"

definition configuredAddressProvidedBySystemd :: "string \<Rightarrow> bool \<Rightarrow> listener list \<Rightarrow> bool" where
  "configuredAddressProvidedBySystemd address0 addressConfigured ls =
     (let address = TrimSpace address0 in
      if \<not> addressConfigured \<or> address = [] then True
      else list_ex (\<lambda>l. listenerAddressMatchesConfigured address (ln_addr l)) ls)"

definition listenConfiguredAddress :: "os \<Rightarrow> string \<Rightarrow> u32 \<Rightarrow> process \<Rightarrow> (string + listener) \<times> process" where
  "listenConfiguredAddress os address permissions p =
     (if HasPrefix address ''unix:'' then
        let socketPath = drop 5 address in
        (case os_remove os socketPath of
           Some (False, err) \<Rightarrow> (Inl err, p)
         | _ \<Rightarrow>
             (case os_listen os ''unix'' socketPath of
                Inl err \<Rightarrow> (Inl err, p)
              | Inr l \<Rightarrow>
                  (case os_chmod os socketPath permissions of
                     Some err \<Rightarrow> (Inl err, closeListeners [l] (opened l p))
                   | None \<Rightarrow> (Inr l, opened l p))))
      else (case os_listen os ''tcp'' address of
          Inl err \<Rightarrow> (Inl err, p)
        | Inr l \<Rightarrow> (Inr l, opened l p)))"

section \<open>Starting the servers\<close>

definition socketmap_listeners :: "os \<Rightarrow> ServerConfig \<Rightarrow> process \<Rightarrow> (start_error + listener list \<times> bool) \<times> process" where
  "socketmap_listeners os c p =
     (case listenSystemdSocket os p of
        (Inl err, p1) \<Rightarrow> (Inl (InheritFailed err), p1)
      | (Inr (Some ls), p1) \<Rightarrow> (Inr (ls, True), p1)
      | (Inr None, p1) \<Rightarrow>
          if TrimSpace (sc_Address c) = [] then (Inl NoAddress, p1)
          else (case listenConfiguredAddress os (sc_Address c) (sc_SocketPermissions c) p1 of
              (Inl err, p2) \<Rightarrow> (Inl (ListenFailed err), p2)
            | (Inr l, p2) \<Rightarrow> (Inr ([l], False), p2)))"

definition metrics_listener :: "os \<Rightarrow> ServerConfig \<Rightarrow> listener list \<Rightarrow> process \<Rightarrow> (start_error + listener option) \<times> process" where
  "metrics_listener os c active p =
     (let metricsAddress = TrimSpace (sc_MetricsAddress c) in
      if metricsAddress = [] then (Inr None, p)
      else (case listenConfiguredAddress os metricsAddress (sc_SocketPermissions c) p of
          (Inl err, p1) \<Rightarrow> (Inl (MetricsFailed err), closeListeners active p1)
        | (Inr l, p1) \<Rightarrow> (Inr (Some l), p1)))"

text \<open>The end of the start: an error, a start cancelled by a signal, or a socketmap server for every listener with an
  optional metrics server. \<^verbatim>\<open>startServer\<close> then waits for the servers and clears the active listeners.\<close>

datatype started = StartFailed start_error | StartCancelled | Serving "listener list" "listener option"

definition startServer :: "os \<Rightarrow> ServerConfig \<Rightarrow> bool \<Rightarrow> process \<Rightarrow> started \<times> process" where
  "startServer os c cancelled p =
     (case socketmap_listeners os c p of
        (Inl err, p1) \<Rightarrow> (StartFailed err, p1)
      | (Inr (ls, inherited), p1) \<Rightarrow>
          if ls = [] then (StartFailed NoListeners, p1)
          else
            let p2 = (if inherited \<and> \<not> configuredAddressProvidedBySystemd (sc_Address c) (sc_addressConfigured c) ls
                      then p1\<lparr>p_ignoredAddress := True\<rparr> else p1) in
            (case metrics_listener os c ls p2 of
               (Inl err, p3) \<Rightarrow> (StartFailed err, p3)
             | (Inr m, p3) \<Rightarrow>
                 let activeListeners = (case m of None \<Rightarrow> ls | Some l \<Rightarrow> ls @ [l]);
                     p4 = setActiveListeners activeListeners p3 in
                 if cancelled then (StartCancelled, clearActiveListeners (closeListeners activeListeners p4))
                 else (Serving ls m, p4)))"

definition servers_terminated :: "process \<Rightarrow> process" where
  "servers_terminated p = clearActiveListeners p"

text \<open>\<^verbatim>\<open>serveSocketmapListener\<close>: the results of the listener's \<^verbatim>\<open>Accept\<close> in order, and the connections that get a
  handler. An end of file or a closed listener ends the loop, any other error is waited out.\<close>

datatype accept_outcome = AcceptClosed | AcceptError string | Accepted conn

fun serveSocketmapListener :: "accept_outcome list \<Rightarrow> conn list" where
  "serveSocketmapListener [] = []"
| "serveSocketmapListener (AcceptClosed # rs) = []"
| "serveSocketmapListener (AcceptError err # rs) = serveSocketmapListener rs"
| "serveSocketmapListener (Accepted c # rs) = c # serveSocketmapListener rs"

section \<open>No listener is left behind\<close>

text \<open>The operating system hands out descriptors that are not in use, each socket under one descriptor.\<close>

definition handed_out :: "os \<Rightarrow> listener set" where
  "handed_out os = {l. \<exists>fd. os_fd os fd = Inherited l} \<union> {l. \<exists>network address. os_listen os network address = Inr l}"

definition fresh :: "os \<Rightarrow> process \<Rightarrow> bool" where
  "fresh os p \<longleftrightarrow> handed_out os \<inter> set (p_open p) = {}"

text \<open>Where a step leaves the sockets: what it returned is open on top of what was open before, and a failed step
  leaves what was open.\<close>

definition socket_step :: "process \<Rightarrow> listener list \<Rightarrow> process \<Rightarrow> bool" where
  "socket_step p ls p' \<longleftrightarrow> p_open p' = rev ls @ p_open p \<and> p_active p' = p_active p"

lemma socket_step_close:
  assumes "socket_step p ls p'" "set ls \<inter> set (p_open p) = {}"
  shows "socket_step p [] (closeListeners ls p')"
proof -
  have "filter (\<lambda>l. l \<notin> set ls) (p_open p) = p_open p" using assms(2) by (auto simp: filter_id_conv)
  then show ?thesis using assms(1) by (simp add: socket_step_def closeListeners_def)
qed

lemma inherit_fds_sockets:
  assumes "inherit_fds os is ls p = (r, p')" "fresh os p0" "socket_step p0 ls p" "set ls \<subseteq> handed_out os"
  shows "case r of
      Inl err \<Rightarrow> socket_step p0 [] p'
    | Inr ls' \<Rightarrow> socket_step p0 ls' p' \<and> set ls' \<subseteq> handed_out os \<and> length ls' = length ls + length is"
  using assms(1,3,4)
proof (induction "is" arbitrary: ls p)
  case (Cons i "is")
  have d: "set ls \<inter> set (p_open p0) = {}" using assms(2) Cons.prems(3) by (auto simp: fresh_def)
  show ?case
  proof (cases "os_fd os (3 + i)")
    case (Inherited l)
    then have "l \<in> handed_out os" by (auto simp: handed_out_def)
    then have "socket_step p0 (ls @ [l]) (opened l p)" "set (ls @ [l]) \<subseteq> handed_out os"
      using Cons.prems by (auto simp: socket_step_def opened_def)
    from Cons.IH [OF _ this] Inherited Cons.prems(1) show ?thesis by (cases r) simp_all
  qed (use socket_step_close [OF Cons.prems(2) d] Cons.prems(1) in auto)
qed auto

lemma listenSystemdSocket_sockets:
  assumes "listenSystemdSocket os p = (r, p')" "fresh os p"
  shows "case r of
      Inl err \<Rightarrow> socket_step p [] p'
    | Inr None \<Rightarrow> p' = p
    | Inr (Some ls) \<Rightarrow> socket_step p ls p' \<and> set ls \<subseteq> handed_out os \<and> ls \<noteq> []"
proof -
  have s: "socket_step p [] p" by (simp add: socket_step_def)
  have i: "inherit_fds os [0..<nat n] [] p = (r, p') \<Longrightarrow> 1 \<le> n \<Longrightarrow> case r of
      Inl err \<Rightarrow> socket_step p [] p'
    | Inr ls' \<Rightarrow> socket_step p ls' p' \<and> set ls' \<subseteq> handed_out os \<and> ls' \<noteq> []" for n r p'
    using inherit_fds_sockets [OF _ assms(2) s, of "[0..<nat n]" r p'] by (auto split: sum.splits)
  show ?thesis
    using assms(1) unfolding listenSystemdSocket_def
    by (auto simp: socket_step_def split: option.splits prod.splits sum.splits if_splits dest!: i)
qed

lemma listenConfiguredAddress_sockets:
  assumes "listenConfiguredAddress os address permissions p = (r, p')" "handed_out os \<inter> set (p_open p) = {}"
  shows "case r of
      Inl err \<Rightarrow> socket_step p [] p'
    | Inr l \<Rightarrow> socket_step p [l] p' \<and> l \<in> handed_out os"
proof -
  have "os_listen os n a = Inr l \<Longrightarrow> filter (\<lambda>x. x \<noteq> l) (p_open p) = p_open p" for n a l
    using assms(2) by (auto simp: filter_id_conv handed_out_def)
  with assms(1) show ?thesis
    by (auto simp: listenConfiguredAddress_def socket_step_def opened_def closeListeners_def handed_out_def Let_def
        split: option.splits prod.splits sum.splits bool.splits if_splits)
qed

lemma metrics_listener_sockets:
  assumes "metrics_listener os c ls p = (r, p')" "fresh os p0" "socket_step p0 ls p" "set ls \<subseteq> handed_out os"
  shows "case r of
      Inl err \<Rightarrow> socket_step p0 [] p'
    | Inr None \<Rightarrow> p' = p
    | Inr (Some l) \<Rightarrow> socket_step p0 (ls @ [l]) p' \<and> l \<in> handed_out os"
proof -
  have ls: "filter (\<lambda>x. x \<notin> set ls) (p_open p0) = p_open p0" "filter (\<lambda>x. x \<notin> set ls) (rev ls) = []"
    using assms(2,4) by (auto simp: filter_id_conv filter_empty_conv fresh_def)
  have l: "filter (\<lambda>x. x \<notin> set ls \<and> x \<noteq> l) (p_open p0) = p_open p0"
    "filter (\<lambda>x. x \<noteq> l \<and> x \<notin> set ls) (p_open p0) = p_open p0" if "os_listen os n a = Inr l" for n a l
  proof -
    have "l \<in> handed_out os" using that by (auto simp: handed_out_def)
    then show "filter (\<lambda>x. x \<notin> set ls \<and> x \<noteq> l) (p_open p0) = p_open p0"
      "filter (\<lambda>x. x \<noteq> l \<and> x \<notin> set ls) (p_open p0) = p_open p0"
      using assms(2,4) by (auto simp: filter_id_conv fresh_def)
  qed
  have r: "filter (\<lambda>x. x \<noteq> l \<and> x \<notin> set ls) (rev ls) = []" "filter (\<lambda>x. x \<notin> set ls \<and> x \<noteq> l) (rev ls) = []" for l
    by (auto simp: filter_empty_conv)
  show ?thesis
    using assms(1,3) l
    by (auto simp: metrics_listener_def listenConfiguredAddress_def socket_step_def opened_def closeListeners_def
        handed_out_def ls r Let_def split: option.splits prod.splits sum.splits bool.splits if_splits)
qed

lemma socketmap_listeners_sockets:
  assumes "socketmap_listeners os c p = (r, p')" "fresh os p"
  shows "case r of
      Inl err \<Rightarrow> socket_step p [] p' \<and> err \<noteq> NoListeners
    | Inr li \<Rightarrow> socket_step p (fst li) p' \<and> set (fst li) \<subseteq> handed_out os \<and> fst li \<noteq> []"
proof -
  obtain r1 p1 where s: "listenSystemdSocket os p = (r1, p1)" by fastforce
  note sys = listenSystemdSocket_sockets [OF s assms(2)]
  have direct: "listenConfiguredAddress os a m p = (r2, p2) \<Longrightarrow>
      case r2 of Inl err \<Rightarrow> socket_step p [] p2 | Inr l \<Rightarrow> socket_step p [l] p2 \<and> l \<in> handed_out os" for a m r2 p2
    using listenConfiguredAddress_sockets assms(2) by (auto simp: fresh_def)
  show ?thesis
    using assms(1) sys unfolding socketmap_listeners_def s
    by (auto simp: socket_step_def split: option.splits prod.splits sum.splits if_splits dest!: direct)
qed


definition sample_process :: process where
  "sample_process = \<lparr>p_env = [''LISTEN_PID'' \<mapsto> ''7'', ''LISTEN_FDS'' \<mapsto> ''2''], p_open = [\<lparr>ln_id = 0, ln_addr = None\<rparr>], p_active = [],
     p_ignoredAddress = False\<rparr>"

definition sample_os :: os where
  "sample_os = \<lparr>os_pid = 7, os_fd = (\<lambda>fd. if fd < 3 then NoFile else Inherited \<lparr>ln_id = fd, ln_addr = None\<rparr>), os_remove = (\<lambda>path. None),
     os_listen = (\<lambda>network address. Inl ''refused''), os_chmod = (\<lambda>path mode. None)\<rparr>"


end
