(* ===== verification/Metrics.thy ===== *)
theory Metrics
  imports Socketmap
begin

text \<open>
  The metrics endpoint: the text of \<^verbatim>\<open>internal/metrics.go\<close> with every counter, the two HTTP handlers of
  \<^verbatim>\<open>internal/server.go\<close> that serve it, and the connection handler that tells HTTP from socketmap clients by the
  first byte. The figures of the Go runtime, the parser of HTTP requests and the writer of responses are arguments.
  A scraper's view of the text is defined here as well, and the properties are stated over it.
\<close>

section \<open>The text\<close>

text \<open>
  What the Go runtime reports. \<open>rt_round\<close> is the result of \<^verbatim>\<open>float64(x)/1e9\<close> printed with nine decimals, as a number
  of nanoseconds: the rounding of the conversion to a floating-point number.
\<close>

record runtime_stats =
  rt_NumGoroutine :: nat
  rt_Alloc :: u64
  rt_HeapAlloc :: u64
  rt_HeapInuse :: u64
  rt_HeapSys :: u64
  rt_GCSys :: u64
  rt_NextGC :: u64
  rt_LastGC :: u64
  rt_NumGC :: u32
  rt_threads :: nat
  rt_round :: "u64 \<Rightarrow> nat"

definition fixed9 :: "nat \<Rightarrow> string" where
  "fixed9 n = (let d = Itoa (n mod 10 ^ 9) in Itoa (n div 10 ^ 9) @ ''.'' @ replicate (9 - length d) (CHR ''0'') @ d)"

definition label :: "string \<Rightarrow> string \<Rightarrow> string" where
  "label key val = ''{'' @ key @ ''='' @ [CHR 0x22] @ val @ [CHR 0x22] @ ''}''"

text \<open>The lines of a metric: its help text, its type, and one sample for every set of labels.\<close>

definition help_line :: "string \<Rightarrow> string \<Rightarrow> string" where
  "help_line name descr = ''# HELP '' @ name @ '' '' @ descr @ newline"

definition type_line :: "string \<Rightarrow> string \<Rightarrow> string" where
  "type_line name kind = ''# TYPE '' @ name @ '' '' @ kind @ newline"

definition sample_line :: "string \<Rightarrow> string \<times> string \<Rightarrow> string" where
  "sample_line name sample = name @ fst sample @ '' '' @ snd sample @ newline"

record family =
  fam_name :: string
  fam_help :: string
  fam_kind :: string
  fam_samples :: "(string \<times> string) list"

definition family_text :: "family \<Rightarrow> string" where
  "family_text f = help_line (fam_name f) (fam_help f) @ type_line (fam_name f) (fam_kind f)
     @ concat (map (sample_line (fam_name f)) (fam_samples f))"

definition fam :: "string \<Rightarrow> string \<Rightarrow> string \<Rightarrow> (string \<times> string) list \<Rightarrow> family" where
  "fam name kind descr samples = \<lparr>fam_name = ''postfix_tlspol_'' @ name, fam_help = descr, fam_kind = kind, fam_samples = samples\<rparr>"

definition dane_count :: "metrics \<Rightarrow> u64" where
  "dane_count m = (let daneOnly = metricDaneOnlyTotal m; daneAll = metricDaneTotal m in
     if daneAll > daneOnly then daneAll - daneOnly else 0)"

definition d64 :: "u64 \<Rightarrow> string" where "d64 v = Itoa (unat v)"

definition server_families :: "server \<Rightarrow> family list" where
  "server_families s = (let m = metric s in
    [fam ''queries_total'' ''counter'' ''Total socketmap query commands handled.'' [([], d64 (metricQueriesTotal m))],
     fam ''policy_total'' ''counter'' ''Total returned policies by policy type.''
       [(label ''policy'' ''dane'', d64 (dane_count m)),
        (label ''policy'' ''dane-only'', d64 (metricDaneOnlyTotal m)),
        (label ''policy'' ''secure'', d64 (metricSecureTotal m)),
        (label ''policy'' ''no-policy'', d64 (metricNoPolicyTotal m))],
     fam ''cache_requests_total'' ''counter'' ''Total policy cache lookups by result.''
       [(label ''result'' ''hit'', d64 (metricCacheHits m)),
        (label ''result'' ''miss'', d64 (metricCacheMisses m))],
     fam ''cache_entries'' ''gauge'' ''Current number of in-memory policy cache entries.'' [([], Itoa (Cache_Len (polCache s)))],
     fam ''prefetch_total'' ''counter'' ''Total policy prefetch outcomes by result.''
       [(label ''result'' ''success'', d64 (metricPrefetchOK m)),
        (label ''result'' ''failure'', d64 (metricPrefetchFail m)),
        (label ''result'' ''discard'', d64 (metricPrefetchDrop m))]])"

definition runtime_families :: "runtime_stats \<Rightarrow> family list" where
  "runtime_families rt =
    [fam ''go_goroutines'' ''gauge'' ''Number of goroutines that currently exist.'' [([], Itoa (rt_NumGoroutine rt))],
     fam ''go_memstats_alloc_bytes'' ''gauge'' ''Number of bytes allocated and still in use.'' [([], d64 (rt_Alloc rt))],
     fam ''go_memstats_heap_alloc_bytes'' ''gauge'' ''Number of heap bytes allocated and still in use.'' [([], d64 (rt_HeapAlloc rt))],
     fam ''go_memstats_heap_inuse_bytes'' ''gauge'' ''Number of heap bytes in use.'' [([], d64 (rt_HeapInuse rt))],
     fam ''go_memstats_heap_sys_bytes'' ''gauge'' ''Number of heap bytes obtained from system.'' [([], d64 (rt_HeapSys rt))],
     fam ''go_memstats_gc_sys_bytes'' ''gauge'' ''Number of bytes used for garbage collection system metadata.'' [([], d64 (rt_GCSys rt))],
     fam ''go_memstats_next_gc_bytes'' ''gauge'' ''Number of heap bytes when next garbage collection will happen.''
       [([], d64 (rt_NextGC rt))],
     fam ''go_memstats_last_gc_time_seconds'' ''gauge'' ''Time the last garbage collection finished as a Unix timestamp.''
       [([], fixed9 (rt_round rt (rt_LastGC rt)))],
     fam ''go_gc_cycles_total'' ''counter'' ''Count of completed GC cycles.'' [([], Itoa (unat (rt_NumGC rt)))],
     fam ''go_threads'' ''gauge'' ''Number of operating system threads created.'' [([], Itoa (rt_threads rt))]]"

text \<open>The endpoint is served only while the cache exists, so that its length is the number of entries.\<close>

definition buildMetricsText :: "runtime_stats \<Rightarrow> server \<Rightarrow> string" where
  "buildMetricsText rt s = concat (map family_text (server_families s @ runtime_families rt))"

section \<open>HTTP\<close>

record http_request =
  rq_Method :: string
  rq_Path :: string
  rq_Proto :: string

record http_response =
  rs_StatusCode :: nat
  rs_Header :: "(string \<times> string) list"
  rs_ContentLength :: nat
  rs_Body :: string

definition is_metrics_request :: "http_request \<Rightarrow> bool" where
  "is_metrics_request req \<longleftrightarrow> rq_Path req = ''/metrics'' \<and> (rq_Method req = ''GET'' \<or> rq_Method req = ''HEAD'')"

definition not_found_body :: string where "not_found_body = ''not found'' @ newline"
definition metrics_type :: string where "metrics_type = ''text/plain; version=0.0.4; charset=utf-8''"
definition plain_type :: string where "plain_type = ''text/plain; charset=utf-8''"

text \<open>The response on the socketmap port. Every response closes the connection.\<close>

definition http_reply :: "runtime_stats \<Rightarrow> server \<Rightarrow> http_request \<Rightarrow> http_response" where
  "http_reply rt s req =
     (if is_metrics_request req then
        let body = buildMetricsText rt s in
        \<lparr>rs_StatusCode = 200, rs_Header = [(''Connection'', ''close''), (''Content-Type'', metrics_type)],
         rs_ContentLength = length body, rs_Body = (if rq_Method req = ''GET'' then body else [])\<rparr>
      else
        let body = not_found_body in
        \<lparr>rs_StatusCode = 404, rs_Header = [(''Connection'', ''close''), (''Content-Type'', plain_type)],
         rs_ContentLength = length body, rs_Body = (if rq_Method req = ''HEAD'' then [] else body)\<rparr>)"

text \<open>The response of the metrics server, written through the response writer of \<^verbatim>\<open>net/http\<close>.\<close>

definition handleMetricsOnlyHTTPRequest :: "runtime_stats \<Rightarrow> server \<Rightarrow> http_request \<Rightarrow> http_response" where
  "handleMetricsOnlyHTTPRequest rt s req =
     (if rq_Path req = ''/metrics'' \<and> (rq_Method req = ''GET'' \<or> rq_Method req = ''HEAD'') then
        let body = buildMetricsText rt s in
        \<lparr>rs_StatusCode = 200, rs_Header = [(''Content-Type'', metrics_type), (''Content-Length'', Itoa (length body))],
         rs_ContentLength = length body, rs_Body = (if rq_Method req = ''GET'' then body else [])\<rparr>
      else
        let body = not_found_body in
        \<lparr>rs_StatusCode = 404, rs_Header = [(''Content-Type'', plain_type), (''Content-Length'', Itoa (length body))],
         rs_ContentLength = length body, rs_Body = (if rq_Method req \<noteq> ''HEAD'' then body else [])\<rparr>)"

definition METRICS_MAX_HEADER_BYTES :: nat where "METRICS_MAX_HEADER_BYTES = 8192"

text \<open>
  What a HTTP connection depends on: whether the deadline calls fail, \<^verbatim>\<open>http.ReadRequest\<close> on the bytes it may see, the
  transmission of a response by \<^verbatim>\<open>resp.Write\<close> and \<^verbatim>\<open>Flush\<close>, and the runtime.
\<close>

record http_env =
  he_read_deadline_fails :: bool
  he_write_deadline_fails :: bool
  he_ReadRequest :: "string \<Rightarrow> ioerr \<Rightarrow> http_request option"
  he_send :: "string \<Rightarrow> http_response \<Rightarrow> conn \<Rightarrow> conn"
  he_runtime :: runtime_stats

definition LimitReader :: "Reader \<Rightarrow> nat \<Rightarrow> Reader" where
  "LimitReader r n = (if n \<le> length (rbuf r) then \<lparr>rbuf = take n (rbuf r), rerr = EOF\<rparr> else r)"

definition handleHTTPConnection :: "http_env \<Rightarrow> Reader \<Rightarrow> server \<Rightarrow> conn \<Rightarrow> conn" where
  "handleHTTPConnection env reader s c =
     (if he_read_deadline_fails env then c
      else let limited = LimitReader reader METRICS_MAX_HEADER_BYTES in
        case he_ReadRequest env (rbuf limited) (rerr limited) of
          None \<Rightarrow> c
        | Some req \<Rightarrow>
            let resp = http_reply (he_runtime env) s req in
            if he_write_deadline_fails env then c else he_send env (rq_Proto req) resp c)"

definition isLikelyHTTP :: "Reader \<Rightarrow> bool" where
  "isLikelyHTTP reader = (case fst (ReadByte reader) of
     Inl err \<Rightarrow> False
   | Inr b \<Rightarrow>
       if is_digit b then False
       else if is_upper b \<or> is_lower b then True
       else False)"

definition handleConnection ::
    "settings \<Rightarrow> http_env \<Rightarrow> (nat \<Rightarrow> round) \<Rightarrow> Reader \<Rightarrow> server \<Rightarrow> conn \<Rightarrow> server \<times> conn" where
  "handleConnection cfg env rds reader s c =
     (if isLikelyHTTP reader then (s, handleHTTPConnection env reader s c)
      else handleSocketmapConnection cfg rds reader s c)"

section \<open>A scraper\<close>

text \<open>How a scraper reads the text: line by line, a sample at its last blank, a type after its keyword.\<close>

definition cut_last :: "string \<Rightarrow> string \<times> string" where
  "cut_last l = (rev (tl (dropWhile (\<lambda>c. c \<noteq> CHR '' '') (rev l))), rev (takeWhile (\<lambda>c. c \<noteq> CHR '' '') (rev l)))"

definition lines_of :: "string \<Rightarrow> string list" where
  "lines_of txt = filter (\<lambda>l. l \<noteq> []) (Split txt (CHR 0x0A))"

definition scrape_samples :: "string \<Rightarrow> (string \<times> string) list" where
  "scrape_samples txt = map cut_last (filter (\<lambda>l. hd l \<noteq> CHR ''#'') (lines_of txt))"

definition scrape_types :: "string \<Rightarrow> (string \<times> string) list" where
  "scrape_types txt = map (\<lambda>l. cut_last (drop 7 l)) (filter (\<lambda>l. take 7 l = ''# TYPE '') (lines_of txt))"

lemma Split_line: "CHR 0x0A \<notin> set l \<Longrightarrow> Split (l @ CHR 0x0A # txt) (CHR 0x0A) = l # Split txt (CHR 0x0A)"
  by (induction l) auto

lemma lines_of_line: "CHR 0x0A \<notin> set l \<Longrightarrow> l \<noteq> [] \<Longrightarrow> lines_of (l @ CHR 0x0A # txt) = l # lines_of txt"
  by (simp add: lines_of_def Split_line)

lemma lines_of_Nil [simp]: "lines_of [] = []"
  by (simp add: lines_of_def)

lemma cut_last_append: "CHR '' '' \<notin> set v \<Longrightarrow> cut_last (n @ CHR '' '' # v) = (n, v)"
proof -
  assume v: "CHR '' '' \<notin> set v"
  have "takeWhile (\<lambda>c. c \<noteq> CHR '' '') (rev v @ CHR '' '' # rev n) = rev v"
    "dropWhile (\<lambda>c. c \<noteq> CHR '' '') (rev v @ CHR '' '' # rev n) = CHR '' '' # rev n"
    using v by (simp_all add: takeWhile_append dropWhile_append)
  then show ?thesis by (simp add: cut_last_def)
qed

definition sample_ok :: "string \<times> string \<Rightarrow> bool" where
  "sample_ok x \<longleftrightarrow> CHR 0x0A \<notin> set (fst x) \<and> CHR 0x0A \<notin> set (snd x) \<and> CHR '' '' \<notin> set (snd x)"

definition family_ok :: "family \<Rightarrow> bool" where
  "family_ok f \<longleftrightarrow> fam_name f \<noteq> [] \<and> hd (fam_name f) \<noteq> CHR ''#'' \<and> CHR 0x0A \<notin> set (fam_name f) \<and> CHR 0x0A \<notin> set (fam_help f)
     \<and> CHR 0x0A \<notin> set (fam_kind f) \<and> CHR '' '' \<notin> set (fam_kind f) \<and> list_all sample_ok (fam_samples f)"

lemma lines_of_samples:
  "list_all sample_ok ss \<Longrightarrow> n \<noteq> [] \<Longrightarrow> CHR 0x0A \<notin> set n \<Longrightarrow>
   lines_of (concat (map (sample_line n) ss) @ txt) = map (\<lambda>x. n @ fst x @ '' '' @ snd x) ss @ lines_of txt"
proof (induction ss)
  case (Cons x ss)
  have e: "concat (map (sample_line n) (x # ss)) @ txt =
      (n @ fst x @ '' '' @ snd x) @ CHR 0x0A # (concat (map (sample_line n) ss) @ txt)"
    by (simp add: sample_line_def newline_def)
  have "CHR 0x0A \<notin> set (n @ fst x @ '' '' @ snd x)" using Cons.prems by (simp add: sample_ok_def)
  then show ?case using Cons unfolding e by (subst lines_of_line) simp_all
qed simp

lemma lines_of_family:
  assumes "family_ok f"
  shows "lines_of (family_text f @ txt) =
    (''# HELP '' @ fam_name f @ '' '' @ fam_help f) # (''# TYPE '' @ fam_name f @ '' '' @ fam_kind f) #
    map (\<lambda>x. fam_name f @ fst x @ '' '' @ snd x) (fam_samples f) @ lines_of txt"
proof -
  let ?h = "''# HELP '' @ fam_name f @ '' '' @ fam_help f" and ?t = "''# TYPE '' @ fam_name f @ '' '' @ fam_kind f"
  let ?ss = "concat (map (sample_line (fam_name f)) (fam_samples f)) @ txt"
  have e: "family_text f @ txt = ?h @ CHR 0x0A # (?t @ CHR 0x0A # ?ss)"
    by (simp add: family_text_def help_line_def type_line_def newline_def)
  have "CHR 0x0A \<notin> set ?h" "CHR 0x0A \<notin> set ?t" using assms by (simp_all add: family_ok_def)
  then have "lines_of (?h @ CHR 0x0A # (?t @ CHR 0x0A # ?ss)) = ?h # ?t # lines_of ?ss"
    by (subst lines_of_line, simp, simp, subst lines_of_line, simp, simp, simp)
  then show ?thesis
    using assms lines_of_samples [of "fam_samples f" "fam_name f" "txt"]
    by (simp only: e) (simp add: family_ok_def)
qed

lemma scrape_families:
  assumes "list_all family_ok fs"
  shows "scrape_samples (concat (map family_text fs)) =
      concat (map (\<lambda>f. map (\<lambda>x. (fam_name f @ fst x, snd x)) (fam_samples f)) fs)"
    and "scrape_types (concat (map family_text fs)) = map (\<lambda>f. (fam_name f, fam_kind f)) fs"
  using assms
proof (induction fs)
  case (Cons f fs)
  {
    case 1
    have f: "family_ok f" and fs: "list_all family_ok fs" using 1 by simp_all
    have hd: "hd (fam_name f @ r) \<noteq> CHR ''#''" for r using f by (cases "fam_name f") (auto simp: family_ok_def)
    have ss: "map cut_last (filter (\<lambda>l. hd l \<noteq> CHR ''#'') (map (\<lambda>x. fam_name f @ fst x @ '' '' @ snd x) (fam_samples f))) =
        map (\<lambda>x. (fam_name f @ fst x, snd x)) (fam_samples f)"
      using f hd cut_last_append [where n = "fam_name f @ fst x" for x]
      by (auto simp: filter_map family_ok_def sample_ok_def list_all_iff o_def)
    show ?case using Cons.IH(1) [OF fs] ss by (simp add: scrape_samples_def lines_of_family [OF f])
  next
    case 2
    have f: "family_ok f" and fs: "list_all family_ok fs" using 2 by simp_all
    have "hd (fam_name f) \<noteq> CHR ''#''" "fam_name f \<noteq> []" using f by (simp_all add: family_ok_def)
    then have "take 7 (fam_name f @ r) \<noteq> ''# TYPE ''" for r by (cases "fam_name f") simp_all
    then have ss: "filter (\<lambda>l. take 7 l = ''# TYPE '') (map (\<lambda>x. fam_name f @ fst x @ '' '' @ snd x) (fam_samples f)) = []"
      by (simp add: filter_empty_conv del: take_append)
    have t: "cut_last (fam_name f @ '' '' @ fam_kind f) = (fam_name f, fam_kind f)"
      using f cut_last_append [of "fam_kind f" "fam_name f"] by (simp add: family_ok_def)
    show ?case using Cons.IH(2) [OF fs] ss t by (simp add: scrape_types_def lines_of_family [OF f])
  }
qed (simp_all add: scrape_samples_def scrape_types_def)

lemma Itoa_ok [simp]: "CHR 0x0A \<notin> set (Itoa n)" "CHR '' '' \<notin> set (Itoa n)"
  using Itoa_digits [of "CHR 0x0A" n] Itoa_digits [of "CHR '' ''" n] by (auto simp: is_digit_def)

lemma fixed9_ok [simp]: "CHR 0x0A \<notin> set (fixed9 n)" "CHR '' '' \<notin> set (fixed9 n)"
  by (auto simp: fixed9_def Let_def)

lemma families_ok: "list_all family_ok (server_families s @ runtime_families rt)"
  by (simp add: server_families_def runtime_families_def fam_def family_ok_def sample_ok_def label_def d64_def Let_def)

text \<open>What a scraper is to see: the name of every series with its value.\<close>

definition series :: "string \<Rightarrow> string \<Rightarrow> string" where
  "series name labels = ''postfix_tlspol_'' @ name @ labels"

definition expected_server_samples :: "server \<Rightarrow> (string \<times> string) list" where
  "expected_server_samples s = (let m = metric s in
    [(series ''queries_total'' [], d64 (metricQueriesTotal m)),
     (series ''policy_total'' (label ''policy'' ''dane''),
        d64 (if metricDaneOnlyTotal m < metricDaneTotal m then metricDaneTotal m - metricDaneOnlyTotal m else 0)),
     (series ''policy_total'' (label ''policy'' ''dane-only''), d64 (metricDaneOnlyTotal m)),
     (series ''policy_total'' (label ''policy'' ''secure''), d64 (metricSecureTotal m)),
     (series ''policy_total'' (label ''policy'' ''no-policy''), d64 (metricNoPolicyTotal m)),
     (series ''cache_requests_total'' (label ''result'' ''hit''), d64 (metricCacheHits m)),
     (series ''cache_requests_total'' (label ''result'' ''miss''), d64 (metricCacheMisses m)),
     (series ''cache_entries'' [], Itoa (Cache_Len (polCache s))),
     (series ''prefetch_total'' (label ''result'' ''success''), d64 (metricPrefetchOK m)),
     (series ''prefetch_total'' (label ''result'' ''failure''), d64 (metricPrefetchFail m)),
     (series ''prefetch_total'' (label ''result'' ''discard''), d64 (metricPrefetchDrop m))])"

lemma scrape_server:
  "take 11 (scrape_samples (buildMetricsText rt s)) = expected_server_samples s"
proof -
  have "scrape_samples (buildMetricsText rt s) =
      concat (map (\<lambda>f. map (\<lambda>x. (fam_name f @ fst x, snd x)) (fam_samples f)) (server_families s @ runtime_families rt))"
    unfolding buildMetricsText_def by (rule scrape_families) (rule families_ok)
  then show ?thesis
    by (simp add: server_families_def expected_server_samples_def series_def fam_def dane_count_def Let_def)
qed

lemma scrape_type_names:
  "map fst (scrape_types (buildMetricsText rt s)) = map fam_name (server_families s @ runtime_families rt)"
  unfolding buildMetricsText_def by (simp add: scrape_families(2) [OF families_ok] o_def del: concat_append map_append)

lemma distinct_families: "distinct (map fam_name (server_families s @ runtime_families rt))"
  by (simp add: server_families_def runtime_families_def fam_def Let_def)

lemma marshal_is_not_HTTP: "\<not> isLikelyHTTP \<lparr>rbuf = Marshal q @ rest, rerr = e\<rparr>"
proof -
  have "is_digit (hd (Itoa (length q)))" by (rule Itoa_digits [of _ "length q"]) simp
  then show ?thesis
    by (cases "Itoa (length q)") (simp_all add: isLikelyHTTP_def ReadByte_def Marshal_def)
qed


end
