(* ===== verification/Cli.thy ===== *)
theory Cli
  imports Socketmap Config
begin

text \<open>
  The command line client of \<^verbatim>\<open>internal/cli.go\<close>: where it looks for a running server, the commands it sends, and what
  it does with the answers. The network, the decoder of JSON, the terminal with its helper programs \<^verbatim>\<open>jq\<close> and
  \<^verbatim>\<open>less\<close> are arguments. The server's answer is a function of the bytes sent to it, so that the
  client can be composed with the connection handler.
\<close>

section \<open>Finding the server\<close>

record dialTarget =
  dt_network :: string
  dt_address :: string

definition appendDialTarget ::
    "string \<Rightarrow> string \<Rightarrow> dialTarget list \<times> string set \<Rightarrow> dialTarget list \<times> string set" where
  "appendDialTarget network address0 ts =
     (let address = TrimSpace address0; key = network @ ''|'' @ address in
      if address = [] then ts
      else if key \<in> snd ts then ts
      else (fst ts @ [\<lparr>dt_network = network, dt_address = address\<rparr>], insert key (snd ts)))"

definition dial_targets :: "ServerConfig \<Rightarrow> dialTarget list" where
  "dial_targets c =
     (let t0 = (if HasPrefix (sc_Address c) ''unix:'' then appendDialTarget ''unix'' (drop 5 (sc_Address c)) ([], {})
                else appendDialTarget ''tcp'' (sc_Address c) ([], {}));
          t1 = appendDialTarget ''unix'' ''/run/postfix-tlspol/tlspol.sock'' t0;
          t2 = appendDialTarget ''tcp'' ''127.0.0.1:8642'' t1;
          t3 = appendDialTarget ''tcp'' ''localhost:8642'' t2
      in fst t3)"

definition endpoint :: "dialTarget \<Rightarrow> string" where
  "endpoint t = dt_network t @ '':'' @ dt_address t"

fun dial_loop :: "(dialTarget \<Rightarrow> string + 'c) \<Rightarrow> dialTarget list \<Rightarrow> string list \<Rightarrow> string \<Rightarrow> (string + 'c) \<times> string" where
  "dial_loop dial [] attempts lastErr = (Inl lastErr, Join attempts '', '')"
| "dial_loop dial (t # ts) attempts lastErr =
     (case dial t of
        Inr conn \<Rightarrow> (Inr conn, endpoint t)
      | Inl err \<Rightarrow> dial_loop dial ts (attempts @ [endpoint t]) err)"

definition dialConfiguredOrDetectedSocketmap ::
    "(dialTarget \<Rightarrow> string + 'c) \<Rightarrow> ServerConfig \<Rightarrow> (string + 'c) \<times> string" where
  "dialConfiguredOrDetectedSocketmap dial c = dial_loop dial (dial_targets c) [] []"

section \<open>Commands\<close>

datatype cli_error =
    InvalidDomain string | ConnectFailed string string | RequestFailed string write_error | ReadReplyFailed string ioerr
  | DecodeFailed string | PrintFailed string string | DisplayFailed

datatype jq_state = NoJq | JqPipeFails string | JqStartFails string | JqRuns
datatype sink = Stdout | Jq | Pager
datatype pager_result = PagerOk | PagerSignaled nat | PagerExited nat | PagerError string

definition SIGINT :: nat where "SIGINT = 2"

definition isPagerCancellation :: "pager_result \<Rightarrow> bool" where
  "isPagerCancellation r = (case r of PagerSignaled sig \<Rightarrow> sig = SIGINT | _ \<Rightarrow> False)"

text \<open>
  What the client depends on. \<open>ce_peer sent\<close> is what arrives on the connection after the bytes \<open>sent\<close> went out.
  \<open>ce_encode sink indent\<close> is the encoder's error with the text that reached the sink.
\<close>

record cli_env =
  ce_dial :: "dialTarget \<Rightarrow> string + conn"
  ce_peer :: "string \<Rightarrow> Reader"
  ce_unmarshal :: "string \<Rightarrow> Result option"
  ce_terminal :: bool
  ce_jq :: jq_state
  ce_encode :: "sink \<Rightarrow> bool \<Rightarrow> Result \<Rightarrow> string option \<times> string"
  ce_jq_close :: "string option"
  ce_jq_wait :: "string option"
  ce_less :: "pager_result option"
  ce_copy_fails :: bool

definition first_error :: "string option list \<Rightarrow> string option" where
  "first_error es = (case filter (\<lambda>e. e \<noteq> None) es of [] \<Rightarrow> None | e # _ \<Rightarrow> e)"

text \<open>On a terminal the result goes through \<^verbatim>\<open>jq\<close> when it can be started, and to the standard output otherwise.\<close>

definition printResult :: "cli_env \<Rightarrow> Result \<Rightarrow> string option \<times> (sink \<times> string) list" where
  "printResult env result =
     (if ce_terminal env then
        (if ce_jq env = JqRuns then
           (let e = ce_encode env Jq True result in (first_error [fst e, ce_jq_close env, ce_jq_wait env], [(Jq, snd e)]))
         else let e = ce_encode env Stdout True result in (fst e, [(Stdout, snd e)]))
      else let e = ce_encode env Stdout False result in (fst e, [(Stdout, snd e)]))"

definition ReadLine :: "Reader \<Rightarrow> ioerr + string" where
  "ReadLine r = (if CHR 0x0A \<in> set (rbuf r) then Inr (takeWhile (\<lambda>c. c \<noteq> CHR 0x0A) (rbuf r) @ newline) else Inl (rerr r))"

definition cliQuery :: "cli_env \<Rightarrow> conn \<Rightarrow> string \<Rightarrow> cli_error option \<times> (sink \<times> string) list" where
  "cliQuery env conn val =
     (case writeConnection (Marshal (''JSON '' @ val)) conn of
        (Some err, conn') \<Rightarrow> (Some (RequestFailed val err), [])
      | (None, conn') \<Rightarrow>
          (case ReadLine (ce_peer env (c_out conn')) of
             Inl err \<Rightarrow> (Some (ReadReplyFailed val err), [])
           | Inr raw \<Rightarrow>
               (case ce_unmarshal env raw of
                  None \<Rightarrow> (Some (DecodeFailed val), [])
                | Some result \<Rightarrow>
                    (case printResult env result of
                       (Some err, out) \<Rightarrow> (Some (PrintFailed val err), out)
                     | (None, out) \<Rightarrow> (None, out)))))"

text \<open>\<^verbatim>\<open>io.Copy\<close> from the connection: everything up to the end of file is printed.\<close>

definition copy_out :: "cli_env \<Rightarrow> string \<Rightarrow> Reader \<Rightarrow> cli_error option \<times> (sink \<times> string) list" where
  "copy_out env what r =
     (if ce_copy_fails env \<or> rerr r \<noteq> EOF then (Some (ReadReplyFailed what (rerr r)), [(Stdout, rbuf r)])
      else (None, [(Stdout, rbuf r)]))"

definition cliDump :: "cli_env \<Rightarrow> conn \<Rightarrow> bool \<Rightarrow> cli_error option \<times> (sink \<times> string) list" where
  "cliDump env conn exporting =
     (let command = (if exporting then ''EXPORT'' else ''DUMP'') in
      case writeConnection (Marshal command) conn of
        (Some err, conn') \<Rightarrow> (Some (RequestFailed command err), [])
      | (None, conn') \<Rightarrow>
          let reply = ce_peer env (c_out conn') in
          (case (if \<not> exporting \<and> ce_terminal env then ce_less env else None) of
             Some r \<Rightarrow>
               (if r \<noteq> PagerOk \<and> \<not> isPagerCancellation r then Some DisplayFailed else None, [(Pager, rbuf reply)])
           | None \<Rightarrow> copy_out env command reply))"

definition cliPurge :: "cli_env \<Rightarrow> conn \<Rightarrow> cli_error option \<times> (sink \<times> string) list" where
  "cliPurge env conn =
     (case writeConnection (Marshal ''PURGE'') conn of
        (Some err, conn') \<Rightarrow> (Some (RequestFailed ''PURGE'' err), [])
      | (None, conn') \<Rightarrow> copy_out env ''PURGE'' (ce_peer env (c_out conn')))"

record cli_state =
  cliConnMode :: bool
  cliErr :: "cli_error option"
  cliOut :: "(sink \<times> string) list"

definition recordCliError :: "cli_error option \<Rightarrow> cli_state \<Rightarrow> cli_state" where
  "recordCliError err st = (if cliErr st = None \<and> err \<noteq> None then st\<lparr>cliErr := err\<rparr> else st)"

definition recordRun :: "cli_error option \<times> (sink \<times> string) list \<Rightarrow> cli_state \<Rightarrow> cli_state" where
  "recordRun r st = recordCliError (fst r) (st\<lparr>cliOut := cliOut st @ snd r\<rparr>)"

definition flagCliConnFunc :: "cli_env \<Rightarrow> ServerConfig \<Rightarrow> string \<times> string \<Rightarrow> cli_state \<Rightarrow> cli_state" where
  "flagCliConnFunc env c f st =
     (let name = fst f; val = snd f in
      if name \<notin> {''query'', ''dump'', ''export'', ''purge''} then st
      else
        let st1 = st\<lparr>cliConnMode := True\<rparr> in
        if name = ''query'' \<and> (val = [] \<or> \<not> IsDNSName val) then recordCliError (Some (InvalidDomain val)) st1
        else (case dialConfiguredOrDetectedSocketmap (ce_dial env) c of
            (Inl err, dialedEndpoint) \<Rightarrow> recordCliError (Some (ConnectFailed dialedEndpoint err)) st1
          | (Inr conn, dialedEndpoint) \<Rightarrow>
              if name = ''query'' then recordRun (cliQuery env conn val) st1
              else if name = ''dump'' then recordRun (cliDump env conn False) st1
              else if name = ''export'' then recordRun (cliDump env conn True) st1
              else recordRun (cliPurge env conn) st1))"

text \<open>\<^verbatim>\<open>flag.Visit\<close> calls it for the flags that were set, in the order of their names.\<close>

definition visitFlags :: "cli_env \<Rightarrow> ServerConfig \<Rightarrow> (string \<times> string) list \<Rightarrow> cli_state \<Rightarrow> cli_state" where
  "visitFlags env c flags st = fold (flagCliConnFunc env c) (sort_by (\<lambda>a b. fst a < fst b) flags) st"

section \<open>The client and the server\<close>

text \<open>The other end of the connection: the connection handler on what the client sent.\<close>

definition server_peer :: "settings \<Rightarrow> (nat \<Rightarrow> round) \<Rightarrow> server \<Rightarrow> conn \<Rightarrow> string \<Rightarrow> Reader" where
  "server_peer cfg rds s c sent =
     \<lparr>rbuf = c_out (snd (handleSocketmapConnection cfg rds \<lparr>rbuf = sent, rerr = EOF\<rparr> s c)), rerr = EOF\<rparr>"

definition calm :: "round \<Rightarrow> bool" where
  "calm rd \<longleftrightarrow> \<not> rd_clear_fails rd \<and> \<not> rd_arm_fails rd \<and> \<not> rd_reset_fails rd"

lemma read_nothing: "readSocketmapQuery rd \<lparr>rbuf = [], rerr = e\<rparr> = (q, r) \<Longrightarrow> q = None"
  by (auto simp: readSocketmapQuery_def Read_def split: if_splits prod.splits sum.splits)

lemma one_query_session:
  assumes "calm (rds 0)" "length query \<le> 10000"
  shows "handleSocketmapConnection cfg rds \<lparr>rbuf = Marshal query, rerr = e\<rparr> s c = snd (handle_command cfg (rds 0) query s c)"
proof -
  have "Read \<lparr>rbuf = Marshal query, rerr = e\<rparr> SOCKETMAP_MAX_QUERY_BYTES = (Inr query, \<lparr>rbuf = [], rerr = e\<rparr>)"
    using assms(2) by (simp add: Read_Inr_iff SOCKETMAP_MAX_QUERY_BYTES_def maxInt_def)
  then have "readSocketmapQuery (rds 0) \<lparr>rbuf = Marshal query, rerr = e\<rparr> = (Some query, \<lparr>rbuf = [], rerr = e\<rparr>)"
    using assms(1) by (simp add: readSocketmapQuery_def calm_def Marshal_def)
  moreover obtain q r where "readSocketmapQuery (rds 1) \<lparr>rbuf = [], rerr = e\<rparr> = (q, r)" by fastforce
  moreover from this have "q = None" by (rule read_nothing)
  ultimately show ?thesis
    by (simp add: handleSocketmapConnection_def session_round session_end [where reader' = r])
qed

text \<open>What the client accepts as a domain the server accepts too, in normal form.\<close>

lemma Split_trailing: "Split (s @ [sep]) sep = Split s sep @ [[]]"
  by (induction s) (auto split: list.split)

lemma trimmed_name:
  assumes "IsDNSName t"
  shows "IsDNSName (TrimSuffix t ''.'')"
proof (cases t rule: rev_cases)
  case (snoc w c)
  show ?thesis
  proof (cases "c = CHR ''.''")
    case True
    then have r: "root_trimmed t = w" using snoc by (simp add: root_trimmed_def)
    have "last w \<noteq> CHR ''.''" if "w \<noteq> []"
    proof
      assume "last w = CHR ''.''"
      then have "w = butlast w @ ''.''" using that by (metis append_butlast_last_id)
      then have "[] \<in> set (Split w (CHR ''.''))" using Split_trailing [of "butlast w" "CHR ''.''"] by simp
      with assms r show False by (auto simp: IsDNSName_iff list_all_iff dns_label_def)
    qed
    then have "root_trimmed w = w" by (auto simp: root_trimmed_def)
    with assms r True snoc show ?thesis by (simp add: IsDNSName_iff TrimSuffix_snoc)
  qed (use assms snoc in \<open>simp add: TrimSuffix_snoc\<close>)
qed (use assms in \<open>simp add: TrimSuffix_def HasSuffix_def\<close>)

lemma normalize_valid:
  assumes "IsDNSName val"
  shows "valid_domain (normalizeDomain u val)"
proof -
  have a: "list_all is_ascii val" using assms by (rule IsDNSName_ascii)
  have "\<not> ascii_space c" if "c \<in> set val" for c
    using IsDNSName_chars [OF assms that] by (auto simp: ldh_def is_lower_def is_upper_def is_digit_def ascii_space_def)
  then have "dropWhile ascii_space val = val" "dropWhile ascii_space (rev val) = rev val"
    by (auto simp: dropWhile_eq_self_iff hd_rev)
  then have "TrimSpace val = val" using a by (simp add: TrimSpace_ascii)
  then have n: "normalizeDomain u val = TrimSuffix (map ascii_lower val) ''.''"
    using a by (simp add: normalizeDomain_def ToLower_ascii)
  have "IsDNSName (normalizeDomain u val)" unfolding n by (rule trimmed_name) (simp add: IsDNSName_lower assms)
  then show ?thesis
    using IsDNSName_hd_not_dot [of "normalizeDomain u val"] by (cases "normalizeDomain u val") (auto simp: valid_domain_def HasPrefix_def)
qed

lemma ReadLine_reply: "CHR 0x0A \<notin> set b \<Longrightarrow> ReadLine \<lparr>rbuf = b @ newline, rerr = e\<rparr> = Inr (b @ newline)"
  by (simp add: ReadLine_def newline_def takeWhile_append)

lemma json_command:
  assumes "isLocalControlConnection c" "valid_domain (normalizeDomain (set_tables cfg) val)"
  shows "handle_command cfg rd (''JSON '' @ val) s c =
    (True, s, replyJson cfg rd (normalizeDomain (set_tables cfg) val) c)"
proof -
  have "Cut (''JSON '' @ val) (CHR '' '') = (''JSON'', val, True)" using Cut_append [of "CHR '' ''" "''JSON''" val] by simp
  then show ?thesis
    using assms by (simp add: handle_command_def canonicalSocketmapCommand_def isControlCommand_def Let_def)
qed

lemma purge_command:
  assumes "isLocalControlConnection c"
  shows "handle_command cfg rd ''PURGE'' s c = (let p = purgeCache (rd_write rd) s in
    (False, snd p, snd (conn_Write (case fst p of
        Some err \<Rightarrow> ''ERROR: cache purge is not durable: '' @ set_error_text cfg err @ newline
      | None \<Rightarrow> ''OK'' @ newline) c)))"
  using assms by (simp add: handle_command_def canonicalSocketmapCommand_def isControlCommand_def Cut_def Let_def)

lemma export_command:
  assumes "isLocalControlConnection c"
  shows "handle_command cfg rd ''EXPORT'' s c =
    (let d = dumpCachedPolicies (rd_draw rd) (rd_write rd) (rd_now_tidy rd) (rd_now_store rd) True s
     in (False, snd d, snd (writeConnection (fst d) c)))"
  using assms by (simp add: handle_command_def canonicalSocketmapCommand_def isControlCommand_def Cut_def Let_def)

lemma name_length: "IsDNSName val \<Longrightarrow> length val \<le> 254"
  by (auto simp: IsDNSName_iff root_trimmed_def split: if_splits)


definition quiet :: "round \<Rightarrow> round" where
  "quiet rd = rd\<lparr>rd_clear_fails := False, rd_arm_fails := False, rd_reset_fails := False\<rparr>"

definition sample_cli :: "settings \<Rightarrow> round \<Rightarrow> server \<Rightarrow> cli_env" where
  "sample_cli cfg rd s = \<lparr>ce_dial = (\<lambda>t. Inr (sample_conn [127, 0, 0, 1])),
     ce_peer = server_peer cfg (\<lambda>i. rd) s (sample_conn [127, 0, 0, 1]),
     ce_unmarshal = (\<lambda>raw. Some (json_result cfg rd ''a.org'')), ce_terminal = False, ce_jq = NoJq,
     ce_encode = (\<lambda>out indent r. (None, res_Domain r)), ce_jq_close = None, ce_jq_wait = None, ce_less = None, ce_copy_fails = False\<rparr>"


end
