(* ===== verification/Daemon.thy ===== *)
theory Daemon
  imports Cli Listeners Metrics
begin

text \<open>
  The program as a whole: \<^verbatim>\<open>main.go\<close>, \<^verbatim>\<open>StartDaemon\<close>, the signal handler, and the loop that runs the
  prefetch batches (\<^verbatim>\<open>internal/server.go\<close>, \<^verbatim>\<open>internal/prefetch.go\<close>). \<^verbatim>\<open>StartDaemon\<close> is cut where the servers run: the first part ends
  with the state in which they are started, the last part begins when they have terminated.
\<close>

section \<open>Versions\<close>

text \<open>
  The regular expression of \<^verbatim>\<open>cleanVersion\<close>: an optional \<^verbatim>\<open>v\<close>, three numbers, an optional pseudo-version suffix and an
  optional suffix that ends in \<^verbatim>\<open>dirty\<close>. The result is the three numbers. Each repetition is followed by a character
  outside its class, so that the longest match is the only one.
\<close>

definition span :: "('a \<Rightarrow> bool) \<Rightarrow> 'a list \<Rightarrow> 'a list \<times> 'a list" where
  "span P xs = (takeWhile P xs, dropWhile P xs)"

definition is_hex_lower :: "char \<Rightarrow> bool" where
  "is_hex_lower c \<longleftrightarrow> is_digit c \<or> (is_lower c \<and> byte c \<le> byte (CHR ''f''))"

definition match_base :: "string \<Rightarrow> (string \<times> string) option" where
  "match_base s =
     (case span is_digit s of (d1, r1) \<Rightarrow>
      if d1 = [] \<or> take 1 r1 \<noteq> ''.'' then None
      else case span is_digit (tl r1) of (d2, r2) \<Rightarrow>
      if d2 = [] \<or> take 1 r2 \<noteq> ''.'' then None
      else case span is_digit (tl r2) of (d3, r3) \<Rightarrow>
      if d3 = [] then None else Some (d1 @ ''.'' @ d2 @ ''.'' @ d3, r3))"

definition match_pseudo :: "string \<Rightarrow> string option" where
  "match_pseudo s =
     (if take 1 s \<noteq> ''-'' then None
      else case span (\<lambda>c. is_digit c \<or> c = CHR ''.'') (tl s) of (a, r) \<Rightarrow>
      if a = [] \<or> take 1 r \<noteq> ''-'' then None
      else case span is_hex_lower (tl r) of (h, r') \<Rightarrow> if h = [] then None else Some r')"

definition match_dirty :: "string \<Rightarrow> bool" where
  "match_dirty s \<longleftrightarrow> s = [] \<or> (take 1 s = ''+'' \<and> HasSuffix (tl s) ''dirty'' \<and> CHR 0x0A \<notin> set s)"

definition match_version :: "string \<Rightarrow> string option" where
  "match_version raw =
     (case match_base (TrimPrefix raw ''v'') of
        None \<Rightarrow> None
      | Some (base, r) \<Rightarrow>
          if match_dirty r then Some base
          else (case match_pseudo r of None \<Rightarrow> None | Some r' \<Rightarrow> if match_dirty r' then Some base else None))"

definition cleanVersion :: "string \<Rightarrow> string" where
  "cleanVersion raw =
     (case match_version raw of
        Some base \<Rightarrow> if Contains raw ''dirty'' \<or> Contains raw ''-0.'' then base @ ''-dev'' else base
      | None \<Rightarrow> raw)"

text \<open>\<^verbatim>\<open>init\<close>: the version set by the linker, or else that of the build information.\<close>

definition init_version :: "string \<Rightarrow> string option \<Rightarrow> string" where
  "init_version linked built =
     (let v = (if linked = ''undefined'' \<or> linked = [] then
                 (case built of Some b \<Rightarrow> if b \<noteq> [] then b else linked | None \<Rightarrow> linked)
               else linked)
      in TrimPrefix (cleanVersion v) ''v'')"

section \<open>Prefetching\<close>

text \<open>The start of \<^verbatim>\<open>startPrefetching\<close> and what each turn of its loop does.\<close>

definition prefetch_setup :: "bool \<Rightarrow> time \<Rightarrow> u64 \<Rightarrow> (string \<Rightarrow> nat) \<Rightarrow> time \<Rightarrow> server \<Rightarrow> server" where
  "prefetch_setup enabled startedAt seed draw now s =
     (if \<not> enabled then s
      else let s1 = s\<lparr>activePrefetchScheduler := Some (newPrefetchSchedulerAt startedAt seed)\<rparr> in
        fold (\<lambda>e. scheduleCachedPolicyPrefetch (draw (fst e)) (fst e) (Some (item_value e)) now) (Cache_Items (polCache s1)) s1)"

datatype prefetch_turn = WaitForWake | WaitFor duration | RunBatch

definition prefetch_next :: "time \<Rightarrow> prefetchScheduler \<Rightarrow> prefetch_turn" where
  "prefetch_next now sch =
     (case nextDue sch of
        None \<Rightarrow> WaitForWake
      | Some due \<Rightarrow> let wait = time_Sub due now in if wait > 0 then WaitFor wait else RunBatch)"

definition prefetch_stop :: "server \<Rightarrow> server" where
  "prefetch_stop s = s\<lparr>activePrefetchScheduler := None\<rparr>"

section \<open>Signals\<close>

record daemon =
  dm_server :: server
  dm_process :: process
  dm_cancelled :: bool
  dm_conns :: "nat list"

definition closeActiveConnections :: "daemon \<Rightarrow> daemon" where
  "closeActiveConnections d = d\<lparr>dm_conns := []\<rparr>"

datatype signal = SigHup | SigInt | SigTerm | SigQuit

text \<open>\<^verbatim>\<open>listenForSignals\<close>: whether the handler goes on, and the new state. Closing a connection is taken together with the
  end of its handler, which removes it from the list.\<close>

definition handle_signal :: "(string \<Rightarrow> nat) \<Rightarrow> write_env \<Rightarrow> write_env \<Rightarrow> time \<Rightarrow> signal \<Rightarrow> daemon \<Rightarrow> bool \<times> daemon" where
  "handle_signal draw tidyEnv saveEnv now sig d =
     (if sig = SigHup then
        let s1 = snd (tidyCache draw tidyEnv now (dm_server d)) in
        (case Cache_ForceSave saveEnv (polCache s1) (cacheFiles s1) of
           (err, c, fs) \<Rightarrow> (True, d\<lparr>dm_server := s1\<lparr>polCache := c, cacheFiles := fs\<rparr>\<rparr>))
      else (False, closeActiveConnections (d\<lparr>dm_cancelled := True, dm_process := closeActiveListeners (dm_process d)\<rparr>)))"

section \<open>The daemon\<close>

record daemon_env =
  de_tables :: unicode_tables
  de_flags :: "(string \<times> string) list"
  de_args :: nat
  de_license :: string
  de_file :: "string \<Rightarrow> (config_error + string) option"
  de_yaml :: "string \<Rightarrow> config_error + Config"
  de_cli :: cli_env
  de_os :: os
  de_draw :: "string \<Rightarrow> nat"
  de_write :: write_env
  de_now :: time

datatype daemon_result =
    Printed string | ConfigFailed config_error | ClientRan "cli_error option" "(sink \<times> string) list" | PrintedUsage
  | EnvFailed start_error | Started started ServerConfig server process

definition empty_metrics :: metrics where
  "empty_metrics = \<lparr>metricQueriesTotal = 0, metricDaneTotal = 0, metricDaneOnlyTotal = 0, metricSecureTotal = 0,
     metricNoPolicyTotal = 0, metricCacheHits = 0, metricCacheMisses = 0, metricPrefetchOK = 0, metricPrefetchFail = 0,
     metricPrefetchDrop = 0\<rparr>"

text \<open>The state after \<^verbatim>\<open>cache.New\<close>: loaded entries are objects of their own.\<close>

definition boot :: "string \<Rightarrow> entry files \<Rightarrow> server" where
  "boot path fs =
     (let c = Cache_New path fs in
      \<lparr>polCache = c, cacheFiles = fs, cacheHitCounters = [], activePrefetchScheduler = None, metric = empty_metrics,
       nextRef = Suc (fold max (map (fst \<circ> snd) (data c)) 0)\<rparr>)"

definition default_config_path :: string where "default_config_path = ''/etc/postfix-tlspol/config.yaml''"

definition StartDaemon :: "daemon_env \<Rightarrow> string \<Rightarrow> entry files \<Rightarrow> bool \<Rightarrow> process \<Rightarrow> daemon_result" where
  "StartDaemon env version fs cancelled p =
     (if (''version'', ''true'') \<in> set (de_flags env) then Printed (''postfix-tlspol v'' @ version @ newline)
      else if (''license'', ''true'') \<in> set (de_flags env) then Printed (de_license env @ newline)
      else
        let configFile = (case map_of (de_flags env) ''config'' of None \<Rightarrow> default_config_path | Some path \<Rightarrow> path) in
        (case loadConfig (de_tables env) (de_yaml env) (de_file env configFile) of
           Inl err \<Rightarrow> ConfigFailed err
         | Inr config \<Rightarrow>
             let cli = visitFlags (de_cli env) (cfg_Server config) (de_flags env) \<lparr>cliConnMode = False, cliErr = None, cliOut = []\<rparr> in
             if cliConnMode cli then ClientRan (cliErr cli) (cliOut cli)
             else if de_args env < 2 then PrintedUsage
             else (case readEnv (p_env p) (cfg_Server config) of
                 (Some err, c) \<Rightarrow> EnvFailed err
               | (None, c) \<Rightarrow>
                   let s = snd (tidyCache (de_draw env) (de_write env) (de_now env) (boot (sc_CacheFile c) fs));
                       r = startServer (de_os env) c cancelled p
                   in Started (fst r) c s (snd r))))"

text \<open>The end: every goroutine has finished, the cache is tidied and saved, and the errors are joined.\<close>

definition finish_daemon :: "(string \<Rightarrow> nat) \<Rightarrow> write_env \<Rightarrow> write_env \<Rightarrow> time \<Rightarrow> start_error option \<Rightarrow> daemon \<Rightarrow>
    (start_error option \<times> cache_error option) \<times> daemon" where
  "finish_daemon draw tidyEnv closeEnv now serverErr d =
     (let d1 = closeActiveConnections (d\<lparr>dm_cancelled := True\<rparr>);
          s1 = snd (tidyCache draw tidyEnv now (prefetch_stop (dm_server d1))) in
      case CloseWithError closeEnv (polCache s1) (cacheFiles s1) of
        (cacheErr, c, fs) \<Rightarrow> ((serverErr, cacheErr), d1\<lparr>dm_server := s1\<lparr>polCache := c, cacheFiles := fs\<rparr>\<rparr>))"

section \<open>Facts\<close>

text \<open>The prefetch loop neither spins nor oversleeps: it runs a batch exactly when an entry is due, it waits for a wake-up
  only when nothing is scheduled, and a timed wait ends no later than the first entry is due.\<close>

lemma prefetch_loop_turn:
  assumes "sched_wf sch"
  shows "prefetch_next now sch = RunBatch \<longleftrightarrow> fst (popDue now sch) \<noteq> []"
    and "prefetch_next now sch = WaitForWake \<longleftrightarrow> queue sch = []"
    and "prefetch_next now sch = WaitFor d \<Longrightarrow> timetable sch k = Some due \<Longrightarrow> now + d \<le> due"
proof -
  have pos: "time_Sub t now > 0 \<longleftrightarrow> now < t" "0 < time_Sub t now \<Longrightarrow> time_Sub t now \<le> t - now" for t
    by (auto simp: time_Sub_def)
  have "fst (popDue now sch) \<noteq> [] \<longleftrightarrow> queue sch \<noteq> [] \<and> item_due sch (queue sch ! 0) \<le> now"
    by (subst popDue.simps) (auto simp: time_After_def Let_def)
  then show "prefetch_next now sch = RunBatch \<longleftrightarrow> fst (popDue now sch) \<noteq> []"
    by (auto simp: prefetch_next_def nextDue_def pos(1) Let_def)
  show "prefetch_next now sch = WaitForWake \<longleftrightarrow> queue sch = []"
    by (auto simp: prefetch_next_def nextDue_def Let_def)
  assume w: "prefetch_next now sch = WaitFor d" and k: "timetable sch k = Some due"
  have kq: "k \<in> set (queue sch)" using queue_timetable [OF assms] k by simp
  have "item_due sch (queue sch ! 0) \<le> due"
    using root_is_earliest [OF assms kq] k by (simp add: item_due_timetable [of sch k])
  moreover have "d = time_Sub (item_due sch (queue sch ! 0)) now" "0 < d"
    using w by (auto simp: prefetch_next_def nextDue_def Let_def split: if_splits)
  ultimately show "now + d \<le> due" using pos(2) [of "item_due sch (queue sch ! 0)"] by simp
qed

text \<open>Cleaning a version twice changes nothing more.\<close>

lemma span_stop: "list_all P a \<Longrightarrow> (b = [] \<or> \<not> P (hd b)) \<Longrightarrow> span P (a @ b) = (a, b)"
  by (cases b) (auto simp: span_def list_all_iff takeWhile_append dropWhile_append)

lemma match_base_parts:
  assumes "match_base s = Some (base, r)"
  shows "\<exists>d1 d2 d3. base = d1 @ ''.'' @ d2 @ ''.'' @ d3 \<and> d1 \<noteq> [] \<and> d2 \<noteq> [] \<and> d3 \<noteq> [] \<and>
    list_all is_digit d1 \<and> list_all is_digit d2 \<and> list_all is_digit d3"
  using assms
  by (intro exI [of _ "takeWhile is_digit s"] exI [of _ "takeWhile is_digit (tl (dropWhile is_digit s))"]
      exI [of _ "takeWhile is_digit (tl (dropWhile is_digit (tl (dropWhile is_digit s))))"])
    (auto simp: match_base_def span_def list_all_iff dest: set_takeWhileD split: if_splits)

lemma match_base_again:
  assumes "match_base s = Some (base, r)" and "t = [] \<or> \<not> is_digit (hd t)"
  shows "match_base (base @ t) = Some (base, t)"
proof -
  obtain d1 d2 d3 where d: "base = d1 @ ''.'' @ d2 @ ''.'' @ d3" "d1 \<noteq> []" "d2 \<noteq> []" "d3 \<noteq> []"
    "list_all is_digit d1" "list_all is_digit d2" "list_all is_digit d3"
    using match_base_parts [OF assms(1)] by blast
  have "span is_digit (d1 @ ''.'' @ d2 @ ''.'' @ d3 @ t) = (d1, ''.'' @ d2 @ ''.'' @ d3 @ t)"
    "span is_digit (d2 @ ''.'' @ d3 @ t) = (d2, ''.'' @ d3 @ t)" "span is_digit (d3 @ t) = (d3, t)"
    using d assms(2) by (intro span_stop; simp add: is_digit_def)+
  then show ?thesis using d by (simp add: match_base_def)
qed

lemma base_chars: "match_base s = Some (base, r) \<Longrightarrow> c \<in> set base \<Longrightarrow> is_digit c \<or> c = CHR ''.''"
  by (drule match_base_parts) (auto simp: list_all_iff)

lemma Contains_chars: "Contains s sub \<Longrightarrow> set sub \<subseteq> set s"
proof (induction s sub rule: Contains.induct)
  case (2 c s sub)
  have "set sub \<subseteq> set (c # s)" if "HasPrefix (c # s) sub" using that by (auto elim!: HasPrefixE simp del: set_simps)
  with 2 show ?case by auto
qed simp

lemma TrimPrefix_v_base:
  assumes "match_base s = Some (base, r)"
  shows "TrimPrefix (base @ t) ''v'' = base @ t"
proof -
  obtain d1 d2 where d: "base = d1 @ d2" "d1 \<noteq> []" "list_all is_digit d1" using match_base_parts [OF assms] by blast
  then have "is_digit (hd d1)" by (simp add: list_all_iff)
  then have "base \<noteq> []" "hd base \<noteq> CHR ''v''" using d by (auto simp: is_digit_def)
  then show ?thesis by (cases base) (auto simp: TrimPrefix_def HasPrefix_def)
qed

lemma cleanVersion_idem: "cleanVersion (cleanVersion raw) = cleanVersion raw"
proof (cases "match_version raw")
  case None
  then show ?thesis by (simp add: cleanVersion_def)
next
  case (Some base)
  then obtain r where r: "match_base (TrimPrefix raw ''v'') = Some (base, r)"
    by (auto simp: match_version_def split: option.splits if_splits)
  have n: "\<not> Contains base ''dirty''" "\<not> Contains base ''-0.''"
    using Contains_chars [of base "''dirty''"] Contains_chars [of base "''-0.''"] base_chars [OF r, of "CHR ''y''"]
      base_chars [OF r, of "CHR ''-''"] by (auto simp: is_digit_def)
  have "match_version base = Some base"
    using match_base_again [OF r, of "[]"] TrimPrefix_v_base [OF r, of "[]"] by (simp add: match_version_def match_dirty_def)
  then have b: "cleanVersion base = base" using n by (simp add: cleanVersion_def)
  have "match_version (base @ ''-dev'') = None"
    using match_base_again [OF r, of "''-dev''"] TrimPrefix_v_base [OF r, of "''-dev''"]
    by (simp add: match_version_def match_dirty_def match_pseudo_def span_def is_digit_def)
  then have "cleanVersion (base @ ''-dev'') = base @ ''-dev''" by (simp add: cleanVersion_def)
  with b Some show ?thesis by (simp add: cleanVersion_def [of raw])
qed

end
