(* ===== verification/Contract.thy ===== *)
theory Contract
  imports Daemon
begin

text \<open>
  What the server relies on in its cache. Every operation of the shared state changes the cache and its files by
  storing an entry, removing one, clearing all of them, saving, or loading them at the start. The locale \<open>store_property\<close> takes a property of
  the cache and its files that these five keep, together with a property of entries that the entries the server makes have, and shows that
  every operation of the server keeps it: hit counting, discarding, tidying, purging, refreshing, answering a command, signals, shutdown and restart.
  \<open>entry_property\<close> has the laws of entries alone; that all entries in memory and on disk have such a property is one instance of the contract.

  \<open>durable\<close> is an instance: the cache of the server always is the cache of a run of \<open>cstep\<close>, so that what is proved of those runs holds of
  the server.
\<close>

section \<open>Operations that leave the cache alone\<close>

definition store_all :: "(entry Cache \<Rightarrow> entry files \<Rightarrow> bool) \<Rightarrow> server \<Rightarrow> bool" where
  "store_all Q s \<longleftrightarrow> Q (polCache s) (cacheFiles s)"

lemma store_frame [simp]:
  "store_all Q (s\<lparr>cacheHitCounters := n\<rparr>) = store_all Q s" "store_all Q (s\<lparr>activePrefetchScheduler := a\<rparr>) = store_all Q s"
  "store_all Q (with_scheduler f s) = store_all Q s" "store_all Q (snd (drainCacheHitCounter k s)) = store_all Q s"
  "store_all Q (cleanupCacheHitCounterIfUnused k s) = store_all Q s" "store_all Q (observePrefetch r s) = store_all Q s"
  "store_all Q (observePolicy p s) = store_all Q s" "store_all Q (observeCacheRequest hit s) = store_all Q s"
  "store_all Q (addMetricQuery s) = store_all Q s" "store_all Q (addCacheHitCounter k s) = store_all Q s"
  "store_all Q (scheduleCachedPolicyPrefetch draw k c now s) = store_all Q s"
  "store_all Q (unscheduleCachedPolicyPrefetch k s) = store_all Q s"
  "store_all Q (resetCachedPolicyPrefetchFailures k s) = store_all Q s"
  "store_all Q (clearPrefetchSchedule s) = store_all Q s" "store_all Q (prefetch_stop s) = store_all Q s"
  "store_all Q (snd (retry_until k now grace s)) = store_all Q s"
  by (simp_all add: store_all_def with_scheduler_def drainCacheHitCounter_def cleanupCacheHitCounterIfUnused_def observePrefetch_def
      observePolicy_def observeCacheRequest_def addMetricQuery_def addCacheHitCounter_def scheduleCachedPolicyPrefetch_def
      unscheduleCachedPolicyPrefetch_def resetCachedPolicyPrefetchFailures_def clearPrefetchSchedule_def prefetch_stop_def retry_until_def
      Let_def split: option.split)

lemma store_schedule_all [simp]:
  "store_all Q (fold (\<lambda>e. scheduleCachedPolicyPrefetch (draw (fst e)) (fst e) (Some (item_value e)) now) xs s) = store_all Q s"
  by (induction xs arbitrary: s) simp_all

section \<open>Saving\<close>

lemma save_keeps: "Cache_Get k (fst (snd (save env force c fs))) = Cache_Get k c"
  by (auto simp: save_def persistSnapshot_def save_snapshot_def save_mark_def Cache_Get_def Let_def
      split: option.splits if_splits prod.splits)

lemma save_clean: "save env force c fs = (None, c', fs') \<Longrightarrow> \<not> dirty c'"
  by (auto simp: save_def persistSnapshot_def save_snapshot_def save_mark_def split: option.splits prod.splits if_splits)

section \<open>The contract\<close>

text \<open>The domain of a command.\<close>

definition query_domain :: "settings \<Rightarrow> string \<Rightarrow> string" where
  "query_domain cfg query = normalizeDomain (set_tables cfg) (fst (snd (Cut query (CHR '' ''))))"

text \<open>The entries the server makes: entries with nothing but statistics, copies with another count, merged lookup results, and what
  remains when a branch is given up.\<close>

locale entry_property =
  fixes P :: "string \<Rightarrow> CacheStruct \<Rightarrow> bool"
    and R :: "string \<Rightarrow> domainResult \<Rightarrow> bool"
  assumes stats: "P k (statsOnlyCacheEntry n)"
    and counter: "P k e \<Longrightarrow> P k (e\<lparr>cs_Counter := n\<rparr>)"
    and clone: "P k e \<Longrightarrow> P k (cloneCacheStruct (Some e))"
    and merge: "pred_option (P k) c \<Longrightarrow> R k r \<Longrightarrow> P k (mergeCacheResult j c r now)"
    and cleared: "P k e \<Longrightarrow> cacheAfterFailedBranchDiscard j (Some e) r now = Some e' \<Longrightarrow> P k e'"

text \<open>The cache and its files.\<close>

locale store_property = entry_property P R
  for P :: "string \<Rightarrow> CacheStruct \<Rightarrow> bool" and R :: "string \<Rightarrow> domainResult \<Rightarrow> bool" +
  fixes Q :: "entry Cache \<Rightarrow> entry files \<Rightarrow> bool"
    and E :: "write_env \<Rightarrow> bool"
    and path :: string
  assumes held: "Q c fs \<Longrightarrow> Cache_Get k c = Some x \<Longrightarrow> P k (snd x)"
    and put: "Q c fs \<Longrightarrow> P k (snd x) \<Longrightarrow> Q (Cache_Set k x c) fs"
    and del: "Q c fs \<Longrightarrow> Q (Cache_Remove k c) fs"
    and clear: "Q c fs \<Longrightarrow> Q (Cache_Clear c) fs"
    and saved: "Q c fs \<Longrightarrow> E env \<Longrightarrow> save env force c fs = (err, c', fs') \<Longrightarrow> Q c' fs'"
    and loaded: "Q c fs \<Longrightarrow> Q (Cache_New path fs) fs"
begin

lemma all_get: "store_all Q s \<Longrightarrow> cache_get k s = Some e \<Longrightarrow> P k (snd e)"
  using held by (simp add: store_all_def cache_get_def)

lemma all_set: "store_all Q s \<Longrightarrow> P k cs \<Longrightarrow> store_all Q (cache_set k cs s)"
  by (simp add: store_all_def cache_set_def alloc_def put Let_def)

lemma all_remove: "store_all Q s \<Longrightarrow> store_all Q (cache_remove k s)"
  by (simp add: store_all_def cache_remove_def del)

lemma all_force:
  "store_all Q s \<Longrightarrow> E env \<Longrightarrow> store_all Q (s\<lparr>polCache := fst (snd (save env force (polCache s) (cacheFiles s))),
     cacheFiles := snd (snd (save env force (polCache s) (cacheFiles s)))\<rparr>)"
  by (cases "save env force (polCache s) (cacheFiles s)") (auto simp: store_all_def intro: saved)

lemma all_save: "store_all Q s \<Longrightarrow> E env \<Longrightarrow> store_all Q (cache_save env s)"
  using all_force [of s env False] by (simp add: cache_save_def Cache_Save_def split_beta)

lemma all_flush_counter: "store_all Q s \<Longrightarrow> store_all Q (flush_counter k s)"
proof -
  assume a: "store_all Q s"
  then have b: "store_all Q (snd (drainCacheHitCounter k s))" by simp
  have "store_all Q (cache_set k ((cloneCacheStruct (Some (snd e)))\<lparr>cs_Counter := n\<rparr>) (snd (drainCacheHitCounter k s)))"
    if "cache_get k s = Some e" for e n
    using all_set [OF b] counter clone all_get [OF a that] by blast
  with b show ?thesis by (simp add: flush_counter_def Let_def split: option.split)
qed

lemma all_flush: "store_all Q s \<Longrightarrow> store_all Q (flushCacheHitCounters s)"
proof -
  have "store_all Q (fold (\<lambda>kv. flush_counter (fst kv)) xs s)" if "store_all Q s" for xs s
    using that by (induction xs arbitrary: s) (simp_all add: all_flush_counter)
  then show "store_all Q s \<Longrightarrow> store_all Q (flushCacheHitCounters s)" by (simp add: flushCacheHitCounters_def)
qed

lemma all_discard: "store_all Q s \<Longrightarrow> store_all Q (discardCachedPolicyState k c s)"
  by (simp add: discardCachedPolicyState_def Let_def all_set all_remove stats)

lemma all_tidy_scan: "store_all Q s \<Longrightarrow> store_all Q (snd (tidy_scan now xs s))"
proof (induction xs arbitrary: s)
  case (Cons entry rest)
  have "store_all Q (snd (discardCachedPolicyStateIfCurrent (fst entry) (snd entry) s))"
    using Cons.prems by (simp add: discardCachedPolicyStateIfCurrent_def all_discard split: option.split)
  with Cons show ?case by (simp add: Let_def tidy_scan.simps)
qed (simp add: tidy_scan.simps)

lemma all_tidy_evict: "store_all Q s \<Longrightarrow> store_all Q (snd (tidy_evict xs s))"
proof (induction xs arbitrary: s)
  case (Cons entry rest)
  have "store_all Q (snd (removeCacheEntryIfCurrent (fst entry) (snd entry) s))"
    using Cons.prems by (simp add: removeCacheEntryIfCurrent_def all_remove split: option.split)
  with Cons.IH show ?case by (simp add: Let_def tidy_evict.simps)
qed (simp add: tidy_evict.simps)

lemma all_tidy: "store_all Q s \<Longrightarrow> E env \<Longrightarrow> store_all Q (snd (tidyCache draw env now s))"
  by (simp add: tidyCache_def tidy_limited_def Let_def all_tidy_evict all_tidy_scan all_flush all_save)

lemma all_enforce: "store_all Q s \<Longrightarrow> E env \<Longrightarrow> store_all Q (enforceCacheLimit free draw env now s)"
  by (simp add: enforceCacheLimit_def all_tidy)

lemma all_purge:
  assumes "store_all Q s" "E env"
  shows "store_all Q (snd (purgeCache env s))"
proof -
  have "store_all Q (s\<lparr>polCache := Cache_Clear (polCache s)\<rparr>)"
    using assms by (simp add: store_all_def clear)
  from all_force [OF this assms(2), of False] show ?thesis
    by (simp add: purgeCache_def Cache_Purge_def Cache_Save_def split_beta all_flush)
qed

lemma all_failed:
  "store_all Q s \<Longrightarrow> P k e \<Longrightarrow> E env \<Longrightarrow> store_all Q (scheduleFailedPolicyPrefetch draw j env k (Some e) r now s)"
  using cleared [of k e j r now]
  by (auto simp: scheduleFailedPolicyPrefetch_def Let_def all_discard intro!: all_set all_save split: option.split)

lemma all_refresh:
  assumes "store_all Q s" "P k c" "R k r" "E env"
  shows "store_all Q (prefetch_refresh draw mj j env k c r t s)"
proof -
  have m: "P k (mergeCacheResult mj (Some c) r t)" using assms by (intro merge) simp_all
  have s1: "store_all Q (cache_set k (mergeCacheResult mj (Some c) r t) s)" using assms(1) m by (rule all_set)
  show ?thesis
    using all_failed [OF s1 m assms(4)] all_failed [OF s1 assms(2,4)] all_failed [OF assms(1,2,4)] s1 assms(1)
    by (auto simp: prefetch_refresh_def Let_def split: option.split)
qed

lemma all_select: "store_all Q s \<Longrightarrow> store_all Q (snd (prefetch_select draw now k s))"
  by (simp add: prefetch_select_def Let_def split_beta all_discard split: option.split)

lemma all_store:
  assumes "store_all Q s" "pred_option (P k) c" "R k r" "E (rd_write rd)"
  shows "store_all Q (store_result rd k c r s)"
  using assms by (simp add: store_result_def Let_def all_enforce all_set counter merge)

lemma all_answer:
  assumes "store_all Q s" "\<And>c. pred_option (P k) c \<Longrightarrow> R k (refreshDomain rd k c)" "E (rd_write rd)"
  shows "store_all Q (fst (answer_query rd k rpt s c))"
proof -
  let ?t = "tryCachedPolicy rd k rpt s c"
  have t: "store_all Q (fst (snd ?t))"
    using assms(1) by (simp add: tryCachedPolicy_def Let_def split_beta split: option.split)
  have c: "pred_option (P k) (fst (fst ?t))"
    using assms(1) by (auto simp: tryCachedPolicy_def Let_def split_beta dest: all_get split: option.split)
  have "store_all Q (fst (replySocketmap p r rpt s' d)) = store_all Q s'" for p r s' d
    by (simp add: replySocketmap_def Let_def)
  then show ?thesis using t all_store [OF _ c assms(2) [OF c] assms(3)] by (simp add: answer_query_def Let_def)
qed

lemma all_command:
  assumes "store_all Q s" "\<And>c. pred_option (P (query_domain cfg q)) c \<Longrightarrow> R (query_domain cfg q) (refreshDomain rd (query_domain cfg q) c)"
    "E (rd_write rd)"
  shows "store_all Q (fst (snd (handle_command cfg rd q s c)))"
proof -
  obtain a b h where q: "Cut q (CHR '' '') = (a, b, h)" by (cases "Cut q (CHR '' '')")
  then have "query_domain cfg q = normalizeDomain (set_tables cfg) b" by (simp add: query_domain_def)
  with all_answer [OF _ assms(2,3)] assms(1,3) show ?thesis
    by (simp add: handle_command_def q Let_def all_purge all_tidy dumpCachedPolicies_def)
qed

lemma all_signal:
  "store_all Q (dm_server d) \<Longrightarrow> E env \<Longrightarrow> E env' \<Longrightarrow> store_all Q (dm_server (snd (handle_signal draws env env' now sig d)))"
  using all_force [OF all_tidy, of "dm_server d" env env' True]
  by (simp add: handle_signal_def closeActiveConnections_def Cache_ForceSave_def Let_def split_beta)

text \<open>The end of a process: the state up to the mark that the cache is closed.\<close>

lemma all_finish_open:
  assumes "store_all Q (dm_server d)" "E env" "E env'" "\<not> closed (polCache (snd (tidyCache draws env now (prefetch_stop (dm_server d)))))"
    "finish_daemon draws env env' now err d = ((e, cacheErr), d')"
  shows "\<exists>c. Q c (cacheFiles (dm_server d')) \<and> polCache (dm_server d') = c\<lparr>closed := True, closeErr := cacheErr\<rparr>
    \<and> (cacheErr = None \<longrightarrow> \<not> dirty c)"
proof -
  let ?s = "snd (tidyCache draws env now (prefetch_stop (dm_server d)))"
  obtain c fs where sv: "save env' False (polCache ?s) (cacheFiles ?s) = (cacheErr, c, fs)" and
    d': "dm_server d' = ?s\<lparr>polCache := c\<lparr>closed := True, closeErr := cacheErr\<rparr>, cacheFiles := fs\<rparr>"
    using assms(4,5) by (auto simp: finish_daemon_def closeActiveConnections_def CloseWithError_def Cache_Save_def Let_def split: prod.splits)
  have "store_all Q ?s" using assms by (simp add: all_tidy)
  then have "Q c fs" using assms(3) sv unfolding store_all_def by (rule saved)
  moreover have "cacheErr = None \<longrightarrow> \<not> dirty c" using sv by (auto dest: save_clean)
  ultimately show ?thesis using d' by (intro exI [of _ c]) simp
qed

lemma all_finish:
  assumes "store_all Q (dm_server d)" "E env" "E env'"
  shows "\<exists>c. Q c (cacheFiles (dm_server (snd (finish_daemon draws env env' now err d))))"
proof (cases "closed (polCache (snd (tidyCache draws env now (prefetch_stop (dm_server d)))))")
  case True
  have "store_all Q (snd (tidyCache draws env now (prefetch_stop (dm_server d))))" using assms by (simp add: all_tidy)
  with True show ?thesis
    by (auto simp: finish_daemon_def closeActiveConnections_def CloseWithError_def store_all_def Let_def)
next
  case False
  obtain e cacheErr d' where f: "finish_daemon draws env env' now err d = ((e, cacheErr), d')" by (metis prod.collapse)
  from all_finish_open [OF assms False f] show ?thesis by (auto simp: f)
qed

lemma all_restart:
  assumes "Q c fs" "E env"
  shows "store_all Q (prefetch_setup enabled started seed draws now (snd (tidyCache draws env now (boot path fs))))"
proof -
  have "store_all Q (boot path fs)" using assms by (simp add: store_all_def boot_def loaded Let_def)
  then show ?thesis using assms(2) by (simp add: prefetch_setup_def Let_def all_tidy)
qed

end

section \<open>Properties of single entries\<close>

text \<open>The entries in memory and those of every cache file, including one left by an interrupted save.\<close>

definition entries_all :: "(string \<Rightarrow> CacheStruct \<Rightarrow> bool) \<Rightarrow> entry Cache \<Rightarrow> entry files \<Rightarrow> bool" where
  "entries_all P c fs \<longleftrightarrow> (\<forall>k e. Cache_Get k c = Some e \<longrightarrow> P k (snd e))
     \<and> (\<forall>f snap k e. fs f = Some (Snapshot snap) \<longrightarrow> map_of snap k = Some e \<longrightarrow> P k (snd e))"

lemma entries_all_write:
  assumes "entries_all P c fs" "writeSnapshot env f (data c) fs = (r, fs')"
  shows "entries_all P c fs'"
  using assms by (auto simp: entries_all_def Cache_Get_def writeSnapshot_def removeTmp_def Let_def split: if_splits)

lemma entries_all_cong: "(\<And>k. Cache_Get k c = Cache_Get k c') \<Longrightarrow> entries_all P c fs = entries_all P c' fs"
  by (simp add: entries_all_def)

sublocale entry_property \<subseteq> ent: store_property P R "entries_all P" "\<lambda>_. True" path for path
proof
  fix c fs env force err c' fs'
  assume q: "entries_all P c fs" and sv: "save env force c fs = (err, c', fs')"
  have "Cache_Get k c = Cache_Get k c'" for k using save_keeps [of k env force c fs] sv by simp
  moreover have "entries_all P c fs'"
    using q sv entries_all_write [OF q]
    by (auto simp: save_def persistSnapshot_def save_snapshot_def split: option.splits prod.splits if_splits)
  ultimately show "entries_all P c' fs'" using entries_all_cong [of c c' P fs'] by blast
next
  fix c fs
  assume "entries_all P c fs"
  then show "entries_all P (Cache_New path fs) fs"
    by (auto simp: entries_all_def Cache_Get_def Cache_New_def load_def Let_def split: option.splits content.splits)
next
  fix k e and c :: "entry Cache" and fs
  show "entries_all P c fs \<Longrightarrow> P k (snd e) \<Longrightarrow> entries_all P (Cache_Set k e c) fs"
    by (auto simp: entries_all_def Cache_Get_def Cache_Set_def update_conv')
qed (auto simp: entries_all_def Cache_Get_def Cache_Clear_def delete_conv' split: if_splits)

section \<open>The server's cache is a run of the cache\<close>

text \<open>
  \<open>durable path\<close> holds of the cache and the files at the end of a run of \<open>cstep\<close> in which no save is under way. The environments
  of saves give the temporary file another name than the cache file, as \<^verbatim>\<open>os.CreateTemp\<close> does.
\<close>

definition cache_run :: "string \<Rightarrow> entry Cache \<Rightarrow> entry files \<Rightarrow> entry csys \<Rightarrow> bool" where
  "cache_run path c fs s \<longleftrightarrow> (\<exists>fs0. cstep\<^sup>*\<^sup>* (cinit path fs0) s) \<and> cache s = c \<and> disk s = fs \<and> savers s = (\<lambda>_. Idle)"

definition durable :: "string \<Rightarrow> entry Cache \<Rightarrow> entry files \<Rightarrow> bool" where
  "durable path c fs \<longleftrightarrow> filePath c = path \<and> \<not> closed c \<and> (\<exists>s. cache_run path c fs s)"

definition tmp_elsewhere :: "string \<Rightarrow> write_env \<Rightarrow> bool" where
  "tmp_elsewhere path env \<longleftrightarrow> tmp_name env \<noteq> path"

lemma cache_run_step: "cache_run path c fs s \<Longrightarrow> cstep\<^sup>*\<^sup>* s s' \<Longrightarrow> savers s' = (\<lambda>_. Idle) \<Longrightarrow> cache_run path (cache s') (disk s') s'"
  unfolding cache_run_def by (metis rtranclp_trans)

lemma durable_mutation:
  assumes "durable path c fs" "mutation c c'"
  shows "durable path c' fs"
proof -
  from assms(1) obtain s where s: "cache_run path c fs s" by (auto simp: durable_def)
  then have "mutation (cache s) c'" using assms(2) by (simp add: cache_run_def)
  from cache_run_step [OF s r_into_rtranclp [of cstep, OF cstep.mutate [OF this]]] s
  have "\<exists>s. cache_run path c' fs s" by (auto simp: cache_run_def)
  moreover have "filePath c' = filePath c" "closed c' = closed c"
    using assms(2) by (auto elim!: mutation_cases)
  ultimately show ?thesis using assms(1) by (simp add: durable_def)
qed

lemma save_meta:
  "save env force c fs = (err, c', fs') \<Longrightarrow> filePath c' = filePath c \<and> closed c' = closed c"
  by (auto simp: save_def persistSnapshot_def save_snapshot_def save_mark_def split: option.splits prod.splits if_splits)

text \<open>A save without interruption is a run of its three critical sections.\<close>

lemma save_run:
  assumes "savers s = (\<lambda>_. Idle)" "tmp_name env \<noteq> filePath (cache s)" "save env force (cache s) (disk s) = (err, c', fs')"
  shows "\<exists>s'. cstep\<^sup>*\<^sup>* s s' \<and> savers s' = (\<lambda>_. Idle) \<and> cache s' = c' \<and> disk s' = fs'"
proof (cases "save_snapshot force (cache s)")
  case None
  with assms(1,3) show ?thesis by (auto simp: save_def)
next
  case (Some dg)
  obtain d g where dg: "dg = (d, g)" by fastforce
  let ?s1 = "s\<lparr>savers := (savers s)(0 := Snapped d g force)\<rparr>"
  have 1: "cstep s ?s1" using assms(1) Some dg by (intro cstep.snap) simp_all
  obtain r c2 fs2 where ps: "persistSnapshot env d g force (cache s) (disk s) = (r, c2, fs2)" by (metis prod_cases3)
  show ?thesis
  proof (cases r)
    case None
    let ?s2 = "?s1\<lparr>cache := c2, disk := fs2, savers := (savers ?s1)(0 := Written g)\<rparr>"
    let ?s3 = "?s2\<lparr>cache := save_mark g (cache ?s2), savers := (savers ?s2)(0 := Idle)\<rparr>"
    have "cstep ?s1 ?s2" using ps None assms(2) by (intro cstep.persist [of _ _ d g force env]) simp_all
    moreover have "cstep ?s2 ?s3" by (intro cstep.mark) simp
    ultimately have "cstep\<^sup>*\<^sup>* s ?s3" using 1 by (meson rtranclp.rtrancl_into_rtrancl r_into_rtranclp)
    then show ?thesis using assms(1,3) Some dg ps None by (intro exI [of _ ?s3] conjI) (auto simp: save_def)
  next
    case (Some e)
    let ?s2 = "?s1\<lparr>cache := c2, disk := fs2, savers := (savers ?s1)(0 := Idle)\<rparr>"
    have "cstep ?s1 ?s2" using ps Some assms(2) by (intro cstep.persist_fail [of _ _ d g force env e]) simp_all
    then have "cstep\<^sup>*\<^sup>* s ?s2" using 1 by (meson rtranclp.rtrancl_into_rtrancl r_into_rtranclp)
    then show ?thesis
      using assms(1,3) \<open>save_snapshot force (cache s) = Some dg\<close> dg ps Some
      by (intro exI [of _ ?s2] conjI) (auto simp: save_def)
  qed
qed

lemma durable_save:
  assumes "durable path c fs" "tmp_elsewhere path env" "save env force c fs = (err, c', fs')"
  shows "durable path c' fs'"
proof -
  from assms(1) obtain s where s: "cache_run path c fs s" and p: "filePath c = path" "\<not> closed c" by (auto simp: durable_def)
  then have c: "cache s = c" "disk s = fs" "savers s = (\<lambda>_. Idle)" by (simp_all add: cache_run_def)
  from save_run [of s env force err c' fs'] assms(2,3) c p
  obtain s' where "cstep\<^sup>*\<^sup>* s s'" "savers s' = (\<lambda>_. Idle)" "cache s' = c'" "disk s' = fs'" by (auto simp: tmp_elsewhere_def)
  with cache_run_step [OF s this(1,2)] save_meta [OF assms(3)] p show ?thesis by (auto simp: durable_def)
qed

lemma durable_load: "durable path (Cache_New path fs) fs"
proof -
  have "cache_run path (Cache_New path fs) fs (cinit path fs)" by (auto simp: cache_run_def cinit_def Let_def)
  moreover have "filePath (Cache_New path fs) = path" "\<not> closed (Cache_New path fs)"
    by (simp_all add: Cache_New_def load_def touch_def Let_def split: option.split content.split)
  ultimately show ?thesis by (auto simp: durable_def)
qed

interpretation dur: store_property "\<lambda>_ _. True" "\<lambda>_ _. True" "durable path" "tmp_elsewhere path" path for path
proof
  show "durable path c' fs'" if "durable path c fs" "tmp_elsewhere path env" "save env force c fs = (err, c', fs')"
    for c fs env force err c' fs' using that by (rule durable_save)
  show "durable path (Cache_New path fs) fs" for fs by (rule durable_load)
  show "durable path (Cache_Set k x c) fs" "durable path (Cache_Remove k c) fs" "durable path (Cache_Clear c) fs"
    if "durable path c fs" for k x c fs
    by (rule durable_mutation [OF that]; unfold mutation_def; blast)+
qed simp_all

text \<open>The periodic saver keeps the entries and follows the protocol.\<close>

lemma durable_periodicSave:
  assumes "durable path c fs" "list_all (tmp_elsewhere path) ticks"
  shows "durable path (fst (periodicSave ticks c fs)) (snd (periodicSave ticks c fs)) \<and> data (fst (periodicSave ticks c fs)) = data c"
  using assms
proof (induction ticks arbitrary: c fs)
  case (Cons tick ticks)
  obtain err c' fs' where sv: "Cache_Save tick c fs = (err, c', fs')" by (metis prod_cases3)
  then have "durable path c' fs'" using Cons.prems by (auto simp: Cache_Save_def intro: durable_save)
  moreover have "data c' = data c" using save_data [of tick c fs] by (simp add: sv)
  ultimately show ?case using Cons.IH [of c' fs'] Cons.prems(2) by (simp add: sv)
qed simp

text \<open>Within the range of the generation counter, a cache marked clean is the one a restart loads.\<close>

lemma durable_clean:
  assumes "cache_run path c fs s" "muts s < 2 ^ 64" "\<not> dirty c" "filePath c = path"
  shows "data (Cache_New path fs) = data c"
proof -
  from assms(1) obtain fs0 where "cstep\<^sup>*\<^sup>* (cinit path fs0) s" by (auto simp: cache_run_def)
  then have "cinv s" using assms(2) by (rule cinv_steps [OF _ cinv_init])
  from cinv_cleanD [OF this] assms show ?thesis by (intro data_Cache_New) (simp add: cache_run_def)
qed

end
