(* ===== verification/Provenance.thy ===== *)
theory Provenance
  imports Contract Mta_Sts Dane_Lookup
begin

text \<open>
  Where the policies come from. The shared state (\<open>Socketmap\<close> and the theories below it) takes lookups as
  arguments, the lookups (\<open>Dane_Lookup\<close>, \<open>Mta_Sts\<close>) know nothing of the cache. Here the two are put together: connections,
  prefetch batches, tidy passes and saves run in any order, with lookups against networks that may differ from one lookup to
  the next, and every policy that leaves the server is traced back to a lookup of that very domain.

  Both follow from the contract of the cache: that every entry is genuine is a property of entries, so that all operations keep it.
\<close>

section \<open>Genuine entries\<close>

text \<open>
  \<open>D\<close> and \<open>M\<close> say which policies, with which reports, lookups of a domain have returned. An entry is genuine when the
  policies of both its branches, and the policy kept for old cache files, were returned by lookups of its own key.
\<close>

definition genuine_branch :: "(string \<Rightarrow> string \<Rightarrow> bool) \<Rightarrow> PolicyBranch \<Rightarrow> bool" where
  "genuine_branch E b \<longleftrightarrow> pb_Policy b \<noteq> [] \<longrightarrow> E (pb_Policy b) (pb_Report b)"

definition genuine_policy :: "(string \<Rightarrow> string \<Rightarrow> bool) \<Rightarrow> string \<Rightarrow> string \<Rightarrow> bool" where
  "genuine_policy E p r \<longleftrightarrow> p = [] \<or> p = ''TEMP'' \<or> E p r"

definition genuine ::
    "(string \<Rightarrow> string \<Rightarrow> string \<Rightarrow> bool) \<Rightarrow> (string \<Rightarrow> string \<Rightarrow> string \<Rightarrow> bool) \<Rightarrow> string \<Rightarrow> CacheStruct \<Rightarrow> bool" where
  "genuine D M k e \<longleftrightarrow> genuine_branch (D k) (cs_Dane e) \<and> genuine_branch (M k) (cs_MtaSts e)
     \<and> genuine_policy (\<lambda>p r. D k p r \<or> M k p r) (cs_Policy e) (cs_Report e)"

definition genuine_result ::
    "(string \<Rightarrow> string \<Rightarrow> string \<Rightarrow> bool) \<Rightarrow> (string \<Rightarrow> string \<Rightarrow> string \<Rightarrow> bool) \<Rightarrow> string \<Rightarrow> domainResult \<Rightarrow> bool" where
  "genuine_result D M k r \<longleftrightarrow> genuine_branch (D k) (dr_Dane r) \<and> genuine_branch (M k) (dr_MtaSts r)
     \<and> genuine_policy (\<lambda>p r. D k p r \<or> M k p r) (dr_Policy r) (dr_Report r)"

lemmas genuine_defs = genuine_def genuine_result_def genuine_branch_def genuine_policy_def

lemma genuine_served:
  assumes "genuine D M k e" "selectCachedPolicy (Some e) now = (p, r, ttl, ok)"
  shows "p = [] \<or> D k p r \<or> M k p r"
  using assms by (auto simp: genuine_defs selectCachedPolicy_def Let_def split: if_splits option.splits)

lemma genuine_branch_empty [simp]: "genuine_branch E emptyBranch"
  by (simp add: genuine_branch_def emptyBranch_def)

lemma genuine_branch_expire [simp]:
  "genuine_branch E (expireBranch j b now) = genuine_branch E b" "genuine_branch E (expireMtaStsBranch b now) = genuine_branch E b"
  "genuine_branch E (b\<lparr>pb_TTL := t\<rparr>) = genuine_branch E b" "genuine_branch E (b\<lparr>pb_TTL := t, pb_ExpiresAt := x\<rparr>) = genuine_branch E b"
  "genuine_branch E (recheckTTL f b) = genuine_branch E b"
  by (simp_all add: genuine_branch_def expireBranch_def expireMtaStsBranch_def recheckTTL_def)

lemma genuine_recheck [simp]: "genuine_branch E (recheck_branch j now)"
  by (simp add: recheck_branch_def)

lemma genuine_clone: "genuine D M k e \<Longrightarrow> genuine D M k (cloneCacheStruct (Some e))" "genuine D M k (cloneCacheStruct None)"
  by (auto simp: cloneCacheStruct_def genuine_defs zeroCacheStruct_def emptyBranch_def split: option.split)

lemma genuine_merge:
  assumes "pred_option (genuine D M k) c" "genuine_result D M k r"
  shows "genuine D M k (mergeCacheResult j c r now)"
proof -
  have c: "genuine D M k (cloneCacheStruct c)" using assms(1) genuine_clone by (cases c) auto
  define e where "e = mergeAttempts r now (mergeMtaSts r now (mergeDane j r now (cloneCacheStruct c)))"
  have e: "genuine D M k e"
    using c assms(2) unfolding e_def
    by (auto simp: genuine_def genuine_result_def mergeAttempts_def mergeMtaSts_def mergeDane_def Let_def)
  show ?thesis
    unfolding mergeCacheResult_def e_def [symmetric]
    using e assms(2) genuine_served [OF e, of now]
    by (cases "selectCachedPolicy (Some e) now") (auto simp: mergeSelected_def genuine_def genuine_result_def genuine_policy_def)
qed

lemma genuine_cleared:
  assumes "genuine D M k e" "cacheAfterFailedBranchDiscard j (Some e) r now = Some e'"
  shows "genuine D M k e'"
proof -
  have c: "genuine D M k (cloneCacheStruct (Some e))" using assms(1) by (rule genuine_clone)
  obtain cs where cs: "failed_branch_cleared j (Some e) r now = Some cs"
    using assms(2) by (auto simp: cacheAfterFailedBranchDiscard_def split: option.splits)
  then have "genuine D M k cs"
    using c by (auto simp: failed_branch_cleared_def genuine_def Let_def split: if_splits)
  with assms(2) cs genuine_served [OF this, of now] show ?thesis
    by (cases "selectCachedPolicy (Some cs) now") (auto simp: cacheAfterFailedBranchDiscard_def genuine_def genuine_policy_def split: if_splits)
qed

interpretation prov: entry_property "genuine D M" "genuine_result D M" for D M
proof
  show "genuine D M k (statsOnlyCacheEntry n)" for k n
    by (simp add: statsOnlyCacheEntry_def zeroCacheStruct_def genuine_def genuine_policy_def)
  show "genuine D M k (e\<lparr>cs_Counter := n\<rparr>)" if "genuine D M k e" for k e n
    using that by (simp add: genuine_def)
qed (rule genuine_clone(1) genuine_merge genuine_cleared; assumption)+

section \<open>Lookups\<close>

text \<open>Results of lookups are genuine when the lookups are.\<close>

definition answers :: "(string \<Rightarrow> string \<Rightarrow> string \<Rightarrow> bool) \<Rightarrow> (string \<Rightarrow> string \<Rightarrow> string \<Rightarrow> bool) \<Rightarrow> dane_check \<Rightarrow> mtasts_check \<Rightarrow> bool" where
  "answers D M cd cm \<longleftrightarrow>
     (\<forall>k p ttl. cd k True = (p, ttl) \<longrightarrow> p \<noteq> [] \<longrightarrow> p \<noteq> ''TEMP'' \<longrightarrow> D k p []) \<and>
     (\<forall>k p r ttl. cm k True = (p, r, ttl) \<longrightarrow> p \<noteq> [] \<longrightarrow> p \<noteq> ''TEMP'' \<longrightarrow> M k p r)"

lemma genuine_branchFromResult:
  "(p \<noteq> [] \<Longrightarrow> p \<noteq> ''TEMP'' \<Longrightarrow> E p r) \<Longrightarrow> genuine_branch E (branchFromResult p r ttl)"
  "(p \<noteq> [] \<Longrightarrow> p \<noteq> ''TEMP'' \<Longrightarrow> E p r) \<Longrightarrow> genuine_branch E (mtaStsBranchFromResult p r ttl)"
  by (auto simp: genuine_branch_def branchFromResult_def mtaStsBranchFromResult_def normalizePolicyTTL_def emptyBranch_def Let_def)

lemma genuine_cached:
  assumes "pred_option (genuine D M k) c"
  shows "genuine_branch (D k) (cachedDane c now)" "genuine_branch (M k) (cachedMtaSts c now)"
  using assms
  by (auto simp: cachedDane_def cachedMtaSts_def daneBranchForSelection_def freshBranchForSelection_def genuine_def Let_def
      split: option.split if_splits)

lemma genuine_selected:
  assumes "genuine_branch D d" "genuine_branch M m" "(p, r, ttl) = selectedPolicyFromBranches d m temp"
  shows "genuine_policy (\<lambda>p r. D p r \<or> M p r) p r"
  using assms by (auto simp: genuine_branch_def genuine_policy_def selectedPolicyFromBranches_def split: if_splits)

lemma genuine_query:
  assumes "pred_option (genuine D M k) c" "answers D M cd cm"
  shows "genuine_result D M k (queryDomainBranchesWithOptions cd cm k c now opts)"
proof -
  let ?R = "queryDomainBranchesWithOptions cd cm k c now opts"
  note q = query_fields [where cd = cd and cm = cm and domain = k and c = c and now = now and opts = opts]
  obtain p t where cd: "cd k True = (p, t)" by fastforce
  obtain p' r' t' where cm: "cm k True = (p', r', t')" by (metis prod_cases3)
  have m: "genuine_branch (M k) (mtaStsCandidate (cm k True))"
    using assms(2) cm by (auto simp: mtaStsCandidate_def answers_def intro!: genuine_branchFromResult(2))
  have D: "genuine_branch (D k) (dr_Dane ?R)"
    using assms(2) cd by (auto simp: q(1) answers_def intro!: genuine_branchFromResult(1))
  have "genuine_policy (\<lambda>p r. D k p r \<or> M k p r) (dr_Policy ?R) (dr_Report ?R)"
    by (rule genuine_selected [OF _ _ q(4)]) (use D m genuine_cached [OF assms(1)] in auto)
  moreover have "genuine_branch (M k) (dr_MtaSts ?R)" using m by (simp add: q(3))
  ultimately show ?thesis using D by (simp add: genuine_result_def)
qed

section \<open>The server on its networks\<close>

text \<open>
  One lookup's view of the outside world: the DNS answers, the deliveries of the worker pools and the HTTPS responses of each attempt,
  whether the waits between attempts complete, and the resolver's address.
\<close>

record network =
  nw_tables :: unicode_tables
  nw_x509 :: "nat list \<Rightarrow> bool"
  nw_client :: "nat \<Rightarrow> client"
  nw_env :: "nat \<Rightarrow> dane_env"
  nw_http :: "nat \<Rightarrow> http_get"
  nw_version :: string
  nw_cancelled :: "nat \<Rightarrow> bool"
  nw_wait :: "nat \<Rightarrow> bool"
  nw_resolver :: "string option"

definition dane_on :: "network \<Rightarrow> dane_check" where
  "dane_on n = checkDane (nw_tables n) (nw_x509 n) (nw_client n) (nw_env n) (nw_wait n) (nw_resolver n)"

definition mtasts_on :: "network \<Rightarrow> mtasts_check" where
  "mtasts_on n = checkMtaSts (nw_tables n) (nw_client n) (nw_http n) (nw_version n) (nw_cancelled n) (nw_wait n) (nw_resolver n)"

text \<open>What lookups on a set of networks have returned for a domain.\<close>

definition dane_returned :: "network set \<Rightarrow> string \<Rightarrow> string \<Rightarrow> string \<Rightarrow> bool" where
  "dane_returned Net domain p r \<longleftrightarrow> r = [] \<and> p \<noteq> [] \<and> p \<noteq> ''TEMP'' \<and> (\<exists>n \<in> Net. fst (dane_on n domain True) = p)"

definition mtasts_returned :: "network set \<Rightarrow> string \<Rightarrow> string \<Rightarrow> string \<Rightarrow> bool" where
  "mtasts_returned Net domain p r \<longleftrightarrow> p \<noteq> [] \<and> p \<noteq> ''TEMP'' \<and>
     (\<exists>n \<in> Net. fst (mtasts_on n domain True) = p \<and> fst (snd (mtasts_on n domain True)) = r)"

text \<open>
  The server with the results that \<^verbatim>\<open>singleflight\<close> may share and the entries whose refresh is under way. Commands, batch steps,
  tidy passes, saves, signals and restarts interleave. A restart comes after an orderly shutdown or, at any moment, after a crash, and finds
  whatever the cache file then holds.
\<close>

record system =
  sy_server :: server
  sy_shared :: "(string \<times> domainResult) list"
  sy_refreshing :: "(string \<times> CacheStruct) list"

text \<open>The state with which \<^verbatim>\<open>StartDaemon\<close> begins to serve.\<close>

definition system_start ::
    "string \<Rightarrow> entry files \<Rightarrow> bool \<Rightarrow> time \<Rightarrow> u64 \<Rightarrow> (string \<Rightarrow> nat) \<Rightarrow> write_env \<Rightarrow> time \<Rightarrow> system" where
  "system_start path fs enabled started seed draws env now =
     \<lparr>sy_server = prefetch_setup enabled started seed draws now (snd (tidyCache draws env now (boot path fs))),
      sy_shared = [], sy_refreshing = []\<rparr>"

inductive system_step :: "string \<Rightarrow> network set \<Rightarrow> system \<Rightarrow> system \<Rightarrow> bool" for path Net where
  command: "nd \<in> Net \<Longrightarrow> nm \<in> Net \<Longrightarrow> rd_checkDane rd = dane_on nd \<Longrightarrow> rd_checkMtaSts rd = mtasts_on nm \<Longrightarrow>
    pred_option (\<lambda>r. (query_domain cfg q, r) \<in> set (sy_shared x)) (rd_flight rd) \<Longrightarrow> tmp_elsewhere path (rd_write rd) \<Longrightarrow>
    system_step path Net x (x\<lparr>sy_server := fst (snd (handle_command cfg rd q (sy_server x) c))\<rparr>)"
| lookup: "nd \<in> Net \<Longrightarrow> nm \<in> Net \<Longrightarrow>
    system_step path Net x (x\<lparr>sy_shared := (k, refreshDomainOnceImpl (dane_on nd) (mtasts_on nm) k
      (map_option snd (cache_get k (sy_server x))) now) # sy_shared x\<rparr>)"
| select: "prefetch_select draw now k (sy_server x) = (e, s) \<Longrightarrow>
    system_step path Net x (x\<lparr>sy_server := s, sy_refreshing := map (\<lambda>e. (k, snd e)) (case e of None \<Rightarrow> [] | Some e \<Rightarrow> [e]) @ sy_refreshing x\<rparr>)"
| refresh: "nd \<in> Net \<Longrightarrow> nm \<in> Net \<Longrightarrow> (k, e) \<in> set (sy_refreshing x) \<Longrightarrow> tmp_elsewhere path env \<Longrightarrow>
    system_step path Net x (x\<lparr>sy_server := prefetch_refresh draw mj jitter env k e
      (prefetchDomainOnceImpl (dane_on nd) (mtasts_on nm) k (Some e) now) t (sy_server x)\<rparr>)"
| tidy: "tmp_elsewhere path env \<Longrightarrow> system_step path Net x (x\<lparr>sy_server := snd (tidyCache draws env now (sy_server x))\<rparr>)"
| save: "tmp_elsewhere path env \<Longrightarrow> system_step path Net x (x\<lparr>sy_server := cache_save env (sy_server x)\<rparr>)"
| signal: "dm_server d = sy_server x \<Longrightarrow> tmp_elsewhere path env \<Longrightarrow> tmp_elsewhere path env' \<Longrightarrow>
    system_step path Net x (x\<lparr>sy_server := dm_server (snd (handle_signal draws env env' now sig d))\<rparr>)"
| crash: "tmp_elsewhere path env \<Longrightarrow>
    system_step path Net x (system_start path (cacheFiles (sy_server x)) enabled started seed draws env now)"
| shutdown: "dm_server d = sy_server x \<Longrightarrow> tmp_elsewhere path env \<Longrightarrow> tmp_elsewhere path env' \<Longrightarrow> tmp_elsewhere path env'' \<Longrightarrow>
    system_step path Net x (system_start path (cacheFiles (dm_server (snd (finish_daemon draws env env' now err d))))
      enabled started seed draws' env'' now')"

definition system_genuine :: "network set \<Rightarrow> system \<Rightarrow> bool" where
  "system_genuine Net x \<longleftrightarrow> store_all (entries_all (genuine (dane_returned Net) (mtasts_returned Net))) (sy_server x)
     \<and> (\<forall>(k, r) \<in> set (sy_shared x). genuine_result (dane_returned Net) (mtasts_returned Net) k r)
     \<and> (\<forall>(k, e) \<in> set (sy_refreshing x). genuine (dane_returned Net) (mtasts_returned Net) k e)"

lemma answers_on:
  assumes "nd \<in> Net" "nm \<in> Net"
  shows "answers (dane_returned Net) (mtasts_returned Net) (dane_on nd) (mtasts_on nm)"
  using assms unfolding answers_def dane_returned_def mtasts_returned_def by (metis fst_conv snd_conv)

lemma genuine_refreshDomain:
  assumes "pred_option (genuine D M k) c" "answers D M (rd_checkDane rd) (rd_checkMtaSts rd)"
    "pred_option (genuine_result D M k) (rd_flight rd)"
  shows "genuine_result D M k (refreshDomain rd k c)"
  using assms genuine_query
  by (auto simp: refreshDomain_def refreshDomainOnceImpl_def queryDomainBranches_def split: option.split)

lemma genuine_start:
  "entries_all (genuine (dane_returned Net) (mtasts_returned Net)) c fs \<Longrightarrow>
    system_genuine Net (system_start path fs enabled started seed draws env now)"
  using prov.ent.all_restart by (simp add: system_genuine_def system_start_def)

lemma genuine_step: "system_step path Net x y \<Longrightarrow> system_genuine Net x \<Longrightarrow> system_genuine Net y"
proof (induction rule: system_step.induct)
  case (command nd nm rd cfg q x c)
  have "store_all (entries_all (genuine (dane_returned Net) (mtasts_returned Net))) (fst (snd (handle_command cfg rd q (sy_server x) c)))"
    using command answers_on [OF command(1,2)]
    by (intro prov.ent.all_command genuine_refreshDomain) (auto simp: system_genuine_def option.pred_set)
  with command show ?case by (simp add: system_genuine_def)
next
  case (lookup nd nm x k now)
  have "pred_option (genuine (dane_returned Net) (mtasts_returned Net) k) (map_option snd (cache_get k (sy_server x)))"
    using lookup(3) by (auto simp: system_genuine_def option.pred_set dest: prov.ent.all_get)
  with lookup genuine_query [OF this answers_on [OF lookup(1,2)]] show ?case
    by (auto simp: system_genuine_def refreshDomainOnceImpl_def queryDomainBranches_def)
next
  case (select draw now k x e s)
  have "store_all (entries_all (genuine (dane_returned Net) (mtasts_returned Net))) s"
    using prov.ent.all_select [of "dane_returned Net" "mtasts_returned Net" "sy_server x" draw now k] select
    by (simp add: system_genuine_def)
  moreover have "genuine (dane_returned Net) (mtasts_returned Net) k (snd f)" if "e = Some f" for f
  proof -
    have "cache_get k (sy_server x) = Some f"
      using select(1) that by (auto simp: prefetch_select_def Let_def split: option.splits prod.splits if_splits)
    then show ?thesis using select(2) by (auto simp: system_genuine_def intro: prov.ent.all_get)
  qed
  ultimately show ?case using select(2) by (auto simp: system_genuine_def split: option.split)
next
  case (refresh nd nm k e x env draw mj jitter now t)
  have e: "genuine (dane_returned Net) (mtasts_returned Net) k e" using refresh(3,5) by (auto simp: system_genuine_def)
  have "genuine_result (dane_returned Net) (mtasts_returned Net) k (prefetchDomainOnceImpl (dane_on nd) (mtasts_on nm) k (Some e) now)"
    unfolding prefetchDomainOnceImpl_def using e answers_on [OF refresh(1,2)] by (intro genuine_query) simp_all
  with e refresh(5) show ?case by (simp add: system_genuine_def prov.ent.all_refresh)
next
  case (crash env x enabled started seed draws now)
  then show ?case by (intro genuine_start [of _ "polCache (sy_server x)"]) (simp add: system_genuine_def store_all_def)
next
  case (shutdown d x env env' env'' draws now err enabled started seed draws' now')
  then have "store_all (entries_all (genuine (dane_returned Net) (mtasts_returned Net))) (dm_server d)" by (simp add: system_genuine_def)
  from prov.ent.all_finish [OF this] show ?case using genuine_start by blast
qed (simp_all add: system_genuine_def prov.ent.all_tidy prov.ent.all_save prov.ent.all_signal)

lemma genuine_reach: "(system_step path Net)\<^sup>*\<^sup>* x y \<Longrightarrow> system_genuine Net x \<Longrightarrow> system_genuine Net y"
  by (induction rule: rtranclp_induct) (blast intro: genuine_step)+

section \<open>Durability\<close>

lemma durable_start: "tmp_elsewhere path env \<Longrightarrow> store_all (durable path) (sy_server (system_start path fs enabled started seed draws env now))"
  using dur.all_restart [OF durable_load] by (simp add: system_start_def)

lemma durable_step: "system_step path Net x y \<Longrightarrow> store_all (durable path) (sy_server x) \<Longrightarrow> store_all (durable path) (sy_server y)"
proof (induction rule: system_step.induct)
  case (select draw now k x e s)
  then show ?case using dur.all_select [of path "sy_server x" draw now k] by simp
qed (simp_all add: dur.all_command dur.all_refresh dur.all_tidy dur.all_save dur.all_signal durable_start)

lemma durable_reach:
  assumes "(system_step path Net)\<^sup>*\<^sup>* (system_start path fs enabled started seed draws env now) x" "tmp_elsewhere path env"
  shows "store_all (durable path) (sy_server x)"
  using assms(1) by (induction rule: rtranclp_induct) (blast intro: durable_start [OF assms(2)] durable_step)+

section \<open>Evidence\<close>

text \<open>
  What a policy rests on. A DANE verdict comes from one attempt of a lookup of the domain, and \<^verbatim>\<open>dane-only\<close> from signed MX,
  address and TLSA records. An MTA-STS policy comes from one attempt that saw a valid TXT record and then
  got the policy file of the domain over HTTPS.
\<close>

definition dane_evidence :: "network \<Rightarrow> string \<Rightarrow> string \<Rightarrow> bool" where
  "dane_evidence n domain p \<longleftrightarrow> p \<in> {''dane'', ''dane-only''} \<and>
     (\<exists>k addr ttl. 1 \<le> k \<and> k \<le> 3 \<and> nw_resolver n = Some addr
        \<and> checkDaneOnce (nw_tables n) (nw_x509 n) (nw_client n k) (nw_env n k) domain addr = Inr (p, ttl)
        \<and> (p = ''dane-only'' \<longrightarrow> dnssec_backed (nw_tables n) (nw_x509 n) (nw_client n k) domain addr))"

definition mtasts_evidence :: "network \<Rightarrow> string \<Rightarrow> string \<Rightarrow> string \<Rightarrow> bool" where
  "mtasts_evidence n domain p r \<longleftrightarrow>
     (\<exists>k addr resp ttl. 1 \<le> k \<and> k \<le> 3 \<and> nw_resolver n = Some addr
        \<and> checkMtaStsRecord (nw_client n k) domain addr = Inr True
        \<and> nw_http n k (''https://mta-sts.'' @ domain @ ''/.well-known/mta-sts.txt'') (''postfix-tlspol/'' @ nw_version n) = Inr resp
        \<and> h_StatusCode resp = 200 \<and> isValidMtaStsPolicyMediaType (nw_tables n) (h_ContentType resp)
        \<and> parseMtaStsPolicy (nw_tables n) domain (h_Body resp) = (p, r, ttl))"

lemma dane_returned_evidence:
  assumes "dane_returned Net domain p r" "\<forall>n \<in> Net. \<forall>k. fair_env (nw_env n k)"
  shows "r = [] \<and> (\<exists>n \<in> Net. dane_evidence n domain p)"
proof -
  from assms(1) obtain n ttl where n: "n \<in> Net" "dane_on n domain True = (p, ttl)" "p \<noteq> []" "p \<noteq> ''TEMP''" "r = []"
    unfolding dane_returned_def by (metis prod.collapse)
  from checkDane_evidence [OF n(2) [unfolded dane_on_def] n(4)] obtain k addr where k: "1 \<le> k" "k \<le> 3" "nw_resolver n = Some addr"
    "checkDaneOnce (nw_tables n) (nw_x509 n) (nw_client n k) (nw_env n k) domain addr = Inr (p, ttl)" by blast
  with n assms(2) checkDaneOnce_range [OF k(4)] dane_only_dnssec show ?thesis unfolding dane_evidence_def by fastforce
qed

lemma mtasts_returned_evidence:
  assumes "mtasts_returned Net domain p r"
  shows "\<exists>n \<in> Net. mtasts_evidence n domain p r"
proof -
  from assms obtain n ttl where n: "n \<in> Net" "mtasts_on n domain True = (p, r, ttl)" "p \<noteq> []" "p \<noteq> ''TEMP''"
    unfolding mtasts_returned_def by (metis prod.collapse)
  from checkMtaSts_evidence [OF n(2) [unfolded mtasts_on_def] n(3,4)] n(1) show ?thesis
    unfolding mtasts_evidence_def by blast
qed

lemma genuine_first_start: "system_genuine Net (system_start path (\<lambda>_. None) enabled started seed draws env now)"
  by (rule genuine_start [of _ "Cache_New path (\<lambda>_. None)"])
    (simp add: entries_all_def Cache_New_def load_def Cache_Get_def Let_def)

text \<open>The policy of the reply the serving rule asks for was returned by a lookup.\<close>

lemma genuine_reply:
  assumes "system_genuine Net x" "nd \<in> Net" "nm \<in> Net" "rd_checkDane rd = dane_on nd" "rd_checkMtaSts rd = mtasts_on nm"
    "pred_option (\<lambda>r. (domain, r) \<in> set (sy_shared x)) (rd_flight rd)"
  shows "expected_reply rd domain rpt (sy_server x) \<in> {''NOTFOUND '', ''TEMP ''} \<or>
    (\<exists>p r. expected_reply rd domain rpt (sy_server x) = ''OK '' @ (if rpt then p @ '' '' @ r else p)
       \<and> (dane_returned Net domain p r \<or> mtasts_returned Net domain p r))"
proof -
  let ?D = "dane_returned Net" and ?M = "mtasts_returned Net" and ?c = "cached_value domain (sy_server x)"
  have c: "pred_option (genuine ?D ?M domain) ?c"
    using assms(1) by (auto simp: system_genuine_def option.pred_set dest: prov.ent.all_get)
  have "genuine_result ?D ?M domain (refreshDomain rd domain ?c)"
    using assms c answers_on [OF assms(2,3)] by (intro genuine_refreshDomain) (auto simp: system_genuine_def option.pred_set)
  moreover have "p = [] \<or> ?D domain p r \<or> ?M domain p r"
    if "usable_at ?c (rd_now_cache rd)" "selectCachedPolicy ?c (rd_now_cache rd) = (p, r, q)" for p r q
    using that c genuine_served by (cases ?c; cases q) (auto simp: usable_at_def selectCachedPolicy_def [of None])
  ultimately show ?thesis
    by (cases "selectCachedPolicy ?c (rd_now_cache rd)")
      (auto simp: expected_reply_def lookup_reply_def policy_reply_def bounded_reply_def genuine_result_def genuine_policy_def Let_def)
qed

section \<open>Properties\<close>

text \<open>C1. Every policy the server hands out is backed by evidence for the very domain that was asked for. Start a fresh installation and let
  connections, shared lookups, prefetch batches, tidy passes, saves, signals, shutdowns, crashes and restarts happen in any order,
  with lookups that see any of the networks in \<open>Net\<close>. A query for a valid domain is then answered with NOTFOUND, with TEMP, or with a policy
  that an attempt of a DANE lookup of this domain returned (\<^verbatim>\<open>dane-only\<close> only on signed data for every mail host), or that was
  parsed from the file which the domain's MTA-STS host served over HTTPS after a TXT record had announced it.\<close>

theorem every_policy_has_evidence:
  assumes "(system_step path Net)\<^sup>*\<^sup>* (system_start path (\<lambda>_. None) enabled started seed draws env now) x"
    and "\<forall>n \<in> Net. \<forall>k. fair_env (nw_env n k)"
    and "nd \<in> Net" "nm \<in> Net" "rd_checkDane rd = dane_on nd" "rd_checkMtaSts rd = mtasts_on nm"
    and "pred_option (\<lambda>r. (domain, r) \<in> set (sy_shared x)) (rd_flight rd)"
    and "domain = normalizeDomain (set_tables cfg) argument" "valid_domain domain" "c_writes c = []"
  shows "\<exists>payload. snd (snd (handle_command cfg rd (''QUERY '' @ argument) (sy_server x) c)) = c\<lparr>c_out := c_out c @ Marshal payload\<rparr>
    \<and> (payload \<in> {''NOTFOUND '', ''TEMP ''} \<or>
        (\<exists>p r. payload = ''OK '' @ (if set_TlsRpt cfg then p @ '' '' @ r else p)
           \<and> (r = [] \<and> (\<exists>n \<in> Net. dane_evidence n domain p) \<or> (\<exists>n \<in> Net. mtasts_evidence n domain p r))))"
proof -
  let ?e = "expected_reply rd domain (set_TlsRpt cfg) (sy_server x)"
  have g: "system_genuine Net x" using genuine_reach [OF assms(1) genuine_first_start] .
  have "snd (snd (handle_command cfg rd (''QUERY '' @ argument) (sy_server x) c)) = c\<lparr>c_out := c_out c @ Marshal ?e\<rparr>"
    unfolding query_reply [OF assms(10) assms(9) [unfolded assms(8)]] assms(8) by simp
  moreover have "?e \<in> {''NOTFOUND '', ''TEMP ''} \<or>
      (\<exists>p r. ?e = ''OK '' @ (if set_TlsRpt cfg then p @ '' '' @ r else p)
         \<and> (r = [] \<and> (\<exists>n \<in> Net. dane_evidence n domain p) \<or> (\<exists>n \<in> Net. mtasts_evidence n domain p r)))"
    by (rule disj_forward [OF genuine_reply [OF g assms(3-7)]], assumption)
      (elim ex_forward conj_forward disj_forward dane_returned_evidence [OF _ assms(2)] mtasts_returned_evidence)
  ultimately show ?thesis by blast
qed

definition sample_network :: network where
  "sample_network = \<lparr>nw_tables = plain_tables, nw_x509 = (\<lambda>_. False), nw_client = (\<lambda>_. sample_client), nw_env = (\<lambda>_. sample_env),
     nw_http = (\<lambda>_ _ _. Inl DeadlineExceeded), nw_version = ''1.0'', nw_cancelled = (\<lambda>_. False), nw_wait = (\<lambda>_. True),
     nw_resolver = Some ''[::1]:53''\<rparr>"

definition sample_settings :: settings where
  "sample_settings = \<lparr>set_tables = plain_tables, set_TlsRpt = False, set_Version = ''1.0'', set_json = (\<lambda>_. None),
     set_error_text = (\<lambda>_. [])\<rparr>"

definition sample_write :: write_env where
  "sample_write = \<lparr>fails_at = None, tmp_name = ''c.tmp-1'', remove_ok = True\<rparr>"

definition sample_round :: "network \<Rightarrow> round" where
  "sample_round n = \<lparr>rd_idle = False, rd_clear_fails = False, rd_arm_fails = False, rd_reset_fails = False, rd_now_cache = 0,
     rd_now_query = 0, rd_now_store = 0, rd_now_tidy = 0, rd_dane_done = 0, rd_mtasts_done = 0, rd_jitter = 0, rd_draw = (\<lambda>_. 0),
     rd_write = sample_write, rd_prune_free = True, rd_flight = None,
     rd_checkDane = dane_on n, rd_checkMtaSts = mtasts_on n\<rparr>"

definition sample_system :: system where
  "sample_system = system_start ''c'' (\<lambda>_. None) False 0 0 (\<lambda>_. 0) sample_write 0"

lemma sample_lookup_dane_only: "dane_on sample_network ''ex.org'' True = (''dane-only'', 300)"
  by (simp add: dane_on_def sample_network_def checkDane_def policy_attempts_def POLICY_ATTEMPTS_def attempt_loop.simps
      sample_dane_only(1))

lemma sample_cache_empty: "cache_get k (sy_server sample_system) = None"
proof -
  have "data (polCache (boot ''c'' (\<lambda>_. None))) = []" "cacheHitCounters (boot ''c'' (\<lambda>_. None)) = []"
    by (simp_all add: boot_def Cache_New_def load_def Let_def)
  moreover from this have "cache_get k (boot ''c'' (\<lambda>_. None)) = None" by (simp add: cache_get_def Cache_Get_def)
  ultimately have "cache_get k (snd (tidyCache draws env now (boot ''c'' (\<lambda>_. None)))) = None" for draws env now
    by (simp add: tidyCache_def tidy_limited_def flushCacheHitCounters_def Cache_Items_def tidy_scan.simps tidy_evict.simps Let_def
        partitionCacheEntriesForLimit_def)
  then show ?thesis by (simp add: sample_system_def system_start_def prefetch_setup_def)
qed

lemma sample_reply: "expected_reply (sample_round sample_network) ''ex.org'' False (sy_server sample_system) = ''OK dane-only''"
proof -
  let ?R = "queryDomainBranches (dane_on sample_network) (mtasts_on sample_network) ''ex.org'' None 0"
  have a: "dr_DaneAttempted ?R" by (simp add: queryDomainBranches_def query_attempted shouldQueryDane_def cachedDane_def HasData_def emptyBranch_def time_IsZero_def branchForQuerySuppression_def)
  have d: "dr_Dane ?R = branchFromResult ''dane-only'' [] 300"
    using a query_fields(1) [of "dane_on sample_network" "mtasts_on sample_network" "''ex.org''" None 0 "\<lparr>renewBefore = 0, prefetch = False\<rparr>"]
    by (simp add: queryDomainBranches_def sample_lookup_dane_only)
  have "\<not> dr_DaneTemp ?R" using query_fields(2) by (simp add: queryDomainBranches_def sample_lookup_dane_only)
  then have "dr_Policy ?R = ''dane-only''"
    using a query_fields(4) [of "dane_on sample_network" "mtasts_on sample_network" "''ex.org''" None 0 "\<lparr>renewBefore = 0, prefetch = False\<rparr>",
        folded queryDomainBranches_def]
    by (simp add: d selectedPolicyFromBranches_def branchFromResult_def normalizePolicyTTL_def HasData_def CACHE_MIN_TTL_def
        CACHE_MAX_TTL_def)
  then show ?thesis
    by (simp add: expected_reply_def sample_cache_empty sample_round_def refreshDomain_def refreshDomainOnceImpl_def lookup_reply_def
        policy_reply_def bounded_reply_def SOCKETMAP_MAX_REPLY_BYTES_def)
qed

theorem every_policy_has_evidence_witness:
  "snd (snd (handle_command sample_settings (sample_round sample_network) ''QUERY ex.org'' (sy_server sample_system) (sample_conn [192, 0, 2, 7])))
     = (sample_conn [192, 0, 2, 7])\<lparr>c_out := Marshal ''OK dane-only''\<rparr>
   \<and> (dane_evidence sample_network ''ex.org'' ''dane-only'' \<or> (\<exists>r. mtasts_evidence sample_network ''ex.org'' ''dane-only'' r))"
proof -
  let ?c = "sample_conn [192, 0, 2, 7]" and ?rd = "sample_round sample_network" and ?s = "sy_server sample_system"
  have n: "normalizeDomain (set_tables sample_settings) ''ex.org'' = ''ex.org''"
    by (simp add: normalizeDomain_def TrimSpace_ascii ToLower_ascii is_ascii_def ascii_space_def ascii_lower_def is_upper_def
        TrimSuffix_def HasSuffix_def)
  have rpt: "set_TlsRpt sample_settings = False" by (simp add: sample_settings_def)
  have v: "valid_domain ''ex.org''" by (simp add: valid_domain_def HasPrefix_def) code_simp
  have w: "c_writes ?c = []" "c_out ?c = []" by (simp_all add: sample_conn_def)
  have r: "snd (snd (handle_command sample_settings ?rd ''QUERY ex.org'' ?s ?c)) = ?c\<lparr>c_out := Marshal ''OK dane-only''\<rparr>"
    using query_reply [OF w(1), of sample_settings "''ex.org''" ?rd ?s] v by (simp add: n w sample_reply rpt)
  have f: "\<forall>n \<in> {sample_network}. \<forall>k. fair_env (nw_env n k)" by (simp add: sample_network_def sample_dane_only(2))
  have q: "rd_checkDane ?rd = dane_on sample_network" "rd_checkMtaSts ?rd = mtasts_on sample_network" "rd_flight ?rd = None"
    by (simp_all add: sample_round_def)
  have st: "(system_step ''c'' {sample_network})\<^sup>*\<^sup>* (system_start ''c'' (\<lambda>_. None) False 0 0 (\<lambda>_. 0) sample_write 0) sample_system"
    by (simp add: sample_system_def)
  have "pred_option (\<lambda>r. (''ex.org'', r) \<in> set (sy_shared sample_system)) (rd_flight ?rd)" by (simp add: q(3))
  from every_policy_has_evidence [OF st f singletonI singletonI q(1,2) this n [symmetric] v w(1)]
  obtain payload where p: "snd (snd (handle_command sample_settings ?rd (''QUERY '' @ ''ex.org'') ?s ?c)) = ?c\<lparr>c_out := [] @ Marshal payload\<rparr>"
    and d: "payload \<in> {''NOTFOUND '', ''TEMP ''} \<or> (\<exists>p r. payload = ''OK '' @ (if False then p @ '' '' @ r else p) \<and>
      (r = [] \<and> (\<exists>n \<in> {sample_network}. dane_evidence n ''ex.org'' p) \<or> (\<exists>n \<in> {sample_network}. mtasts_evidence n ''ex.org'' p r)))"
    unfolding rpt w(2) by (elim exE conjE)
  have "?c\<lparr>c_out := Marshal payload\<rparr> = ?c\<lparr>c_out := Marshal ''OK dane-only''\<rparr>" using p r by simp
  from arg_cong [OF this, of c_out] have "Marshal payload = Marshal ''OK dane-only''" by simp
  then have k: "payload = ''OK dane-only''" by (rule Marshal_inj)
  have "dane_evidence sample_network ''ex.org'' ''dane-only'' \<or> (\<exists>r. mtasts_evidence sample_network ''ex.org'' ''dane-only'' r)"
    using d unfolding k by auto
  with r show ?thesis by blast
qed


text \<open>Without a failing system call a save reports no error.\<close>

lemma save_ok: "fails_at env = None \<Longrightarrow> fst (save env force c fs) = None"
  by (auto simp: save_def persistSnapshot_def writeSnapshot_def fails_def Let_def split: option.split prod.splits)


end
