(* ===== verification/Spec2Isabelle.thy ===== *)
theory Spec2Isabelle
  imports Netstring Valid Cache Policy Mta_Sts Dane_Lookup Socketmap Config Listeners Metrics Cli Daemon Contract Provenance
begin

text \<open>
  \<^bold>\<open>postfix-tlspol\<close> answers Postfix's socketmap queries for TLS policies of mail domains. For a domain it looks up
  DANE (TLSA records secured by DNSSEC) and MTA-STS (a TXT record and a policy file fetched by HTTPS), chooses a policy,
  caches it, and refreshes cached policies before they expire. This library models the Go code under \<^verbatim>\<open>src/\<close>
  (paths below are relative to \<^verbatim>\<open>src/internal\<close>) and proves what each part promises.

  \<^bold>\<open>Parts and theories\<close>, from the bottom up.

  \<^item> \<open>Prelude\<close>: fixed-width integers, bytes, and the times and durations of Go's \<^verbatim>\<open>time\<close> package (nanoseconds as integers,
    with the saturation of \<^verbatim>\<open>Sub\<close>). \<open>Go_Strings\<close>, \<open>Go_Net\<close>, \<open>Go_Mime\<close>, \<open>Go_Heap\<close>, \<open>Go_Sort\<close>: what the program uses of
    Go's standard library (UTF-8 and string functions, IP addresses and host/port pairs, media types, \<^verbatim>\<open>container/heap\<close>,
    sorting). A Go string is a list of bytes.
  \<^item> \<open>Netstring\<close> (\<^verbatim>\<open>utils/netstring\<close>): reader, scanner split function and encoder of the socketmap framing; both decoders
    accept exactly the canonical encodings, and a stream of encodings determines its messages.
  \<^item> \<open>Valid\<close> (\<^verbatim>\<open>utils/valid\<close>): the validators; \<open>IsDNSName\<close> is characterised by labels.
  \<^item> \<open>Cache\<close> (\<^verbatim>\<open>utils/cache\<close>): the keyed store, its snapshots and the save protocol. A save runs in three critical
    sections (snapshot, persist, mark clean), and mutations and several saves interleave in the step relation \<open>cstep\<close>. A
    file is a value that is a snapshot or garbage, so that gob and gzip are abstracted to their round trip.
  \<^item> \<open>Policy\<close> (\<^verbatim>\<open>server.go\<close>): cache entries with a DANE and an MTA-STS branch, which policy an entry serves, what a lookup has to ask,
    how results are merged. The abstract rule \<open>serve\<close> is the specification that both the cache and the
    lookup refine.
  \<^item> \<open>Dns\<close> (\<^verbatim>\<open>dns.go\<close>), \<open>Mta_Sts\<close> (\<^verbatim>\<open>mta-sts.go\<close>), \<open>Dane_Lookup\<close> (\<^verbatim>\<open>dane.go\<close>): the lookups. The network is an argument: a function
    from questions to answers, and for HTTPS from URLs to responses. The worker pools of the DANE
    lookup are a step relation.
  \<^item> \<open>Scheduler\<close>, \<open>Prefetch\<close> (\<^verbatim>\<open>prefetch.go\<close>): the heap of due times with its index, retries with back-off on the grid of
    batch times, and a batch as interleaved steps of its loop, its refreshing goroutines and the rest of the server.
  \<^item> \<open>Server_State\<close>, \<open>Maintenance\<close>, \<open>Socketmap\<close> (\<^verbatim>\<open>server.go\<close>): the shared state (cache with pointer identity, hit counters,
    metrics, scheduler), the tidy pass with eviction, purge and dump, and the connection handler with all its commands.
  \<^item> \<open>Config\<close> (\<^verbatim>\<open>config.go\<close>): defaults, validation, the resolver's address, and the inotify watcher of \<^verbatim>\<open>resolv.conf\<close>.
    \<open>Listeners\<close> (\<^verbatim>\<open>server.go\<close>): limits on open connections, systemd sockets, the start of the servers. \<open>Metrics\<close> (\<^verbatim>\<open>metrics.go\<close>, HTTP
    handlers of \<^verbatim>\<open>server.go\<close>): the metrics text and its endpoints. \<open>Cli\<close> (\<^verbatim>\<open>cli.go\<close>): the command line client,
    composed with the connection handler. \<open>Daemon\<close> (\<^verbatim>\<open>main.go\<close>, \<^verbatim>\<open>StartDaemon\<close>): the program from its flags to its end.
  \<^item> \<open>Contract\<close>: a property of the cache that storing, removing, clearing, saving and loading keep is kept by every operation
    of the server; in particular the server's cache always follows the save protocol of \<open>Cache\<close>. \<open>Provenance\<close>: the whole program, a step relation over
    commands, shared lookups, batch steps, tidy passes, saves, signals, shutdowns, crashes and restarts, with the lookups of
    \<open>Dane_Lookup\<close> and \<open>Mta_Sts\<close> run on networks that change from one lookup to the next.

  \<^bold>\<open>Correspondence.\<close> A definition has the name of the Go function it models; methods are prefixed by their type. A struct is a
  record, a \<^verbatim>\<open>uint32\<close> a 32-bit word, a map a finite map or an association list. State is passed explicitly.
  Logging is left out except where a log line is the result (the warnings of the configuration). Each definition that
  depends on the outside world takes what it needs as arguments: the clock, random draws, the outcomes of system
  calls, the network.

  \<^bold>\<open>What is shown.\<close> For the whole program: every policy that is handed out was returned by a lookup of that very domain, on the DNS and
  HTTPS answers it needs, whatever happened since the first start; and what the server learned survives an
  orderly restart. For its parts: encodings round trip (netstrings, policy files, inotify events, metrics, client and server). Served
  policies are backed by unexpired branches and stable during their lifetime; temporary failures never weaken a policy.
  A DANE-only verdict rests on authenticated data, an MTA-STS policy on a TXT record and a valid response. The save
  protocol never loses a persisted generation and a clean cache is on disk. The scheduler implements a timetable,
  batches settle every due policy and end. The shared state stays well-formed under every operation; hits are
  conserved; the tidy pass keeps the most useful entries; remote peers can only query; replies are bounded. A failed start
  leaves no socket behind; open connections are limited.

  \<^bold>\<open>Interfaces\<close> are locales, interpreted on the model's definitions: framings by a prefix code, the keyed store, the binary
  heap over an array, the timetable, sorting by a rank, the laws of cache entries (\<open>entry_property\<close>), and the contract of the cache
  (\<open>store_property\<close>), which extends these laws and is interpreted for the origin of policies and for durability.

  \<^bold>\<open>Bounds.\<close> No definition needs fuel: every loop is recursive with a termination proof, since readers have finite
  input and retries are counted. Where a counter could wrap (the 64-bit generation of the cache, times near the end of
  the representable range) the theorem carries the bound as a hypothesis.

  \<^bold>\<open>Not modelled.\<close> Vendored libraries (DNS client, YAML, singleflight), TLS and X.509 below the verdicts the code asks for, the
  text of log messages, the encodings of gob, gzip and JSON, the parser of HTTP requests, and the helper programs
  \<^verbatim>\<open>jq\<close> and \<^verbatim>\<open>less\<close>: they are arguments of the definitions that use them.
\<close>

end
